(* ===== verification/Prelude.thy ===== *)
theory Prelude
  imports Main "HOL-Library.Word" "HOL-Library.AList"
begin

text \<open>
  Shared vocabulary of the development.

  \<^item> Machine types: bytes and the unsigned integers of the Rust sources as words.
  \<^item> Results: a Rust \<open>Result<T, E>\<close> is a value of \<open>'e + 'a\<close> (\<open>Inl\<close> is \<open>Err\<close>), and
    \<open>and_then\<close> is the \<open>?\<close> operator.
  \<^item> Byte streams: an \<open>AsyncRead\<close>/\<open>Read\<close> source is the list of the bytes that it will still
    deliver before end of file; \<open>take_exact\<close> is \<open>read_exact\<close>.
  \<^item> Hash maps: a \<open>HashMap\<close>/\<open>DashMap\<close> is an association list with distinct keys, its
    order standing for the unspecified iteration order.
  \<^item> Step relations: reachability, and a locale that lifts a one-step invariant to every
    reachable state.
  \<^item> Framing: a locale for codecs whose frames can be concatenated on a stream.
\<close>

named_theorems wire \<open>decoding one encoded field from the front of a stream\<close>
named_theorems hm_simps \<open>hash map operations\<close>

type_synonym byte = "8 word"
type_synonym bytes = "byte list"
type_synonym u16 = "16 word"
type_synonym u32 = "32 word"
type_synonym u64 = "64 word"

section \<open>Results\<close>

fun and_then :: "'e + 'a \<Rightarrow> ('a \<Rightarrow> 'e + 'b) \<Rightarrow> 'e + 'b" where
  "and_then (Inl e) f = Inl e"
| "and_then (Inr a) f = f a"

fun map_err :: "('e \<Rightarrow> 'f) \<Rightarrow> 'e + 'a \<Rightarrow> 'f + 'a" where
  "map_err f (Inl e) = Inl (f e)"
| "map_err f (Inr a) = Inr a"

fun ok_or :: "'e \<Rightarrow> 'a option \<Rightarrow> 'e + 'a" where
  "ok_or e None = Inl e"
| "ok_or e (Some a) = Inr a"

definition is_ok :: "'e + 'a \<Rightarrow> bool" where
  "is_ok r = (case r of Inl _ \<Rightarrow> False | Inr _ \<Rightarrow> True)"

lemma and_then_Inr [simp]: "and_then r Inr = r"
  by (cases r) simp_all

lemma and_then_eq_Inr:
  "and_then r f = Inr b \<longleftrightarrow> (\<exists>a. r = Inr a \<and> f a = Inr b)"
  by (cases r) simp_all

lemma and_then_eq_Inl:
  "and_then r f = Inl e \<longleftrightarrow> r = Inl e \<or> (\<exists>a. r = Inr a \<and> f a = Inl e)"
  by (cases r) simp_all

lemma and_then_assoc: "and_then (and_then r f) g = and_then r (\<lambda>x. and_then (f x) g)"
  by (cases r) simp_all

lemma map_err_eq_Inr [simp]: "map_err f r = Inr a \<longleftrightarrow> r = Inr a"
  by (cases r) simp_all

lemma is_ok_simps [simp]: "is_ok (Inr a)" "\<not> is_ok (Inl e)"
  by (simp_all add: is_ok_def)

section \<open>Byte streams\<close>

text \<open>\<open>read_exact(&mut buf)\<close> with a buffer of \<open>n\<close> bytes: the bytes and the rest of the
  stream, or \<open>None\<close> when the stream ends first (\<open>UnexpectedEof\<close>).\<close>

definition take_exact :: "nat \<Rightarrow> 'a list \<Rightarrow> ('a list \<times> 'a list) option" where
  "take_exact n bs = (if n \<le> length bs then Some (take n bs, drop n bs) else None)"

lemma take_exact_append [simp, wire]: "length xs = n \<Longrightarrow> take_exact n (xs @ ys) = Some (xs, ys)"
  by (simp add: take_exact_def)

lemma take_exact_all [simp, wire]: "length xs = n \<Longrightarrow> take_exact n xs = Some (xs, [])"
  by (simp add: take_exact_def)

lemma take_exact_Cons [simp, wire]: "take_exact (Suc 0) (x # xs) = Some ([x], xs)"
  by (simp add: take_exact_def)

lemma take_exact_Cons2 [simp, wire]: "take_exact 2 (x # y # xs) = Some ([x, y], xs)"
  by (simp add: take_exact_def numeral_2_eq_2)

lemma take_exact_SomeD:
  "take_exact n bs = Some (xs, ys) \<Longrightarrow> bs = xs @ ys \<and> length xs = n"
  by (auto simp: take_exact_def split: if_splits)

lemma take_exact_eq_None: "take_exact n bs = None \<longleftrightarrow> length bs < n"
  by (auto simp: take_exact_def)

section \<open>Big-endian 16-bit integers\<close>

definition u16_to_be :: "u16 \<Rightarrow> bytes" where
  "u16_to_be w = [ucast (drop_bit 8 w), ucast w]"

definition u16_of_be :: "byte \<Rightarrow> byte \<Rightarrow> u16" where
  "u16_of_be hi lo = word_of_nat (256 * unat hi + unat lo)"

lemma length_u16_to_be [simp]: "length (u16_to_be w) = 2"
  by (simp add: u16_to_be_def)

lemma u16_be_parts: "u16_of_be (ucast (drop_bit 8 w)) (ucast w) = (w :: u16)"
proof -
  have lt: "unat w < 65536" using unsigned_less [of w, where 'a = nat] by simp
  have lo: "unat (ucast w :: byte) = unat w mod 256"
    by (simp add: unsigned_ucast_eq take_bit_eq_mod)
  have hi: "unat (ucast (drop_bit 8 w) :: byte) = unat w div 256"
    using lt by (simp add: unsigned_ucast_eq take_bit_eq_mod unsigned_drop_bit_eq drop_bit_eq_div
        unat_div)
  show ?thesis
    by (simp add: u16_of_be_def lo hi)
qed

lemma u16_to_be_roundtrip [simp]:
  "u16_of_be (u16_to_be w ! 0) (u16_to_be w ! Suc 0) = w"
  by (simp add: u16_to_be_def u16_be_parts)

lemma unat_u16_of_be: "unat (u16_of_be hi lo) = 256 * unat hi + unat lo"
proof -
  have "unat hi < 256" "unat lo < 256"
    using unsigned_less [of hi, where 'a = nat] unsigned_less [of lo, where 'a = nat] by simp_all
  then have "(256 * unat hi + unat lo) mod 65536 = 256 * unat hi + unat lo" by simp
  then show ?thesis by (simp only: u16_of_be_def unat_of_nat) simp
qed

text \<open>\<open>u16::try_from(len)\<close> and \<open>u8::try_from(len)\<close> on a length.\<close>

definition u16_try_from :: "nat \<Rightarrow> u16 option" where
  "u16_try_from n = (if n < 65536 then Some (word_of_nat n) else None)"

definition u8_try_from :: "nat \<Rightarrow> byte option" where
  "u8_try_from n = (if n < 256 then Some (word_of_nat n) else None)"

lemma u8_try_from_unat: "u8_try_from n = Some b \<Longrightarrow> unat b = n"
  by (auto simp: u8_try_from_def unat_of_nat split: if_splits)

lemma u16_try_from_unat: "u16_try_from n = Some w \<Longrightarrow> unat w = n"
  by (auto simp: u16_try_from_def unat_of_nat split: if_splits)

section \<open>Hash maps\<close>

type_synonym ('k, 'v) hashmap = "('k \<times> 'v) list"

definition hm_wf :: "('k, 'v) hashmap \<Rightarrow> bool" where
  "hm_wf m = distinct (map fst m)"

definition hm_get :: "('k, 'v) hashmap \<Rightarrow> 'k \<Rightarrow> 'v option" where
  "hm_get m k = map_of m k"

definition hm_contains :: "('k, 'v) hashmap \<Rightarrow> 'k \<Rightarrow> bool" where
  "hm_contains m k = (hm_get m k \<noteq> None)"

definition hm_insert :: "'k \<Rightarrow> 'v \<Rightarrow> ('k, 'v) hashmap \<Rightarrow> ('k, 'v) hashmap" where
  "hm_insert k v m = AList.update k v m"

definition hm_remove :: "'k \<Rightarrow> ('k, 'v) hashmap \<Rightarrow> ('k, 'v) hashmap" where
  "hm_remove k m = AList.delete k m"

definition hm_retain :: "('k \<Rightarrow> 'v \<Rightarrow> bool) \<Rightarrow> ('k, 'v) hashmap \<Rightarrow> ('k, 'v) hashmap" where
  "hm_retain P m = filter (\<lambda>(k, v). P k v) m"

lemma hm_get_Nil [simp]: "hm_get [] k = None"
  by (simp add: hm_get_def)

lemma hm_wf_Nil [simp]: "hm_wf []"
  by (simp add: hm_wf_def)

lemma hm_get_insert [simp, hm_simps]:
  "hm_get (hm_insert k v m) k' = (if k' = k then Some v else hm_get m k')"
  by (simp add: hm_get_def hm_insert_def update_conv)

lemma hm_get_remove [simp, hm_simps]:
  "hm_get (hm_remove k m) k' = (if k' = k then None else hm_get m k')"
  by (simp add: hm_get_def hm_remove_def delete_conv)

lemma hm_get_retain [hm_simps]:
  assumes "hm_wf m"
  shows "hm_get (hm_retain P m) k =
    (case hm_get m k of None \<Rightarrow> None | Some v \<Rightarrow> if P k v then Some v else None)"
proof -
  have "map_of (filter (\<lambda>(k, v). P k v) m) k =
      (case map_of m k of None \<Rightarrow> None | Some v \<Rightarrow> if P k v then Some v else None)"
    using assms unfolding hm_wf_def
  proof (induction m)
    case Nil
    then show ?case by simp
  next
    case (Cons x m)
    have "fst x \<notin> fst ` set m" using Cons.prems by simp
    then have "map_of m (fst x) = None" by (simp only: map_of_eq_None_iff not_False_eq_True)
    with Cons show ?case
      by (cases x; cases "k = fst x") (auto split: option.split)
  qed
  then show ?thesis by (simp add: hm_get_def hm_retain_def)
qed

lemma hm_wf_insert [simp, hm_simps]: "hm_wf m \<Longrightarrow> hm_wf (hm_insert k v m)"
  by (simp add: hm_wf_def hm_insert_def distinct_update)

lemma hm_wf_remove [simp, hm_simps]: "hm_wf m \<Longrightarrow> hm_wf (hm_remove k m)"
  by (simp add: hm_wf_def hm_remove_def distinct_delete)

lemma hm_wf_retain [simp, hm_simps]: "hm_wf m \<Longrightarrow> hm_wf (hm_retain P m)"
  by (simp add: hm_wf_def hm_retain_def distinct_map_filter)

lemma length_hm_remove: "length (hm_remove k m) \<le> length m"
  by (simp add: hm_remove_def length_delete_le)

lemma length_hm_retain: "length (hm_retain P m) \<le> length m"
  by (simp add: hm_retain_def)

lemma length_hm_insert:
  "length (hm_insert k v m) = (if hm_contains m k then length m else Suc (length m))"
  by (induction m) (auto simp: hm_insert_def hm_contains_def hm_get_def)

lemma hm_contains_iff: "hm_contains m k \<longleftrightarrow> k \<in> fst ` set m"
  by (simp add: hm_contains_def hm_get_def map_of_eq_None_iff)

section \<open>Step relations and invariants\<close>

inductive reach :: "('s \<Rightarrow> bool) \<Rightarrow> ('s \<Rightarrow> 's \<Rightarrow> bool) \<Rightarrow> 's \<Rightarrow> bool"
  for init step where
  reach_init: "init s \<Longrightarrow> reach init step s"
| reach_step: "reach init step s \<Longrightarrow> step s t \<Longrightarrow> reach init step t"

text \<open>A component whose one-step lemma keeps \<open>inv\<close>: then every reachable state has it.\<close>

locale invariant_system =
  fixes init :: "'s \<Rightarrow> bool"
    and step :: "'s \<Rightarrow> 's \<Rightarrow> bool"
    and inv :: "'s \<Rightarrow> bool"
  assumes inv_init: "init s \<Longrightarrow> inv s"
    and inv_step: "inv s \<Longrightarrow> step s t \<Longrightarrow> inv t"
begin

lemma reach_inv: "reach init step s \<Longrightarrow> inv s"
  by (induction rule: reach.induct) (auto intro: inv_init inv_step)

lemma steps_inv: "step\<^sup>*\<^sup>* s t \<Longrightarrow> inv s \<Longrightarrow> inv t"
  by (induction rule: rtranclp_induct) (auto intro: inv_step)

end

text \<open>
  Single flight: concurrent callers for the same key agree on one worker.  \<open>busy\<close> is the set of
  keys that the shared state marks as being worked on, \<open>worker\<close> the callers that are inside the
  protected section.  A step enters it for a key that is not marked, and marks it; leaves it
  and clears the mark; or does neither.
\<close>

definition flight_move :: "'k set \<Rightarrow> ('k \<Rightarrow> nat set) \<Rightarrow> 'k set \<Rightarrow> ('k \<Rightarrow> nat set) \<Rightarrow> bool" where
  "flight_move b w b' w' \<longleftrightarrow>
     b' = b \<and> w' = w
     \<or> (\<exists>i k. k \<notin> b \<and> b' = insert k b \<and> w' = w(k := insert i (w k)))
     \<or> (\<exists>i k. i \<in> w k \<and> b' = b - {k} \<and> w' = w(k := w k - {i}))"

definition flight_ok :: "'k set \<Rightarrow> ('k \<Rightarrow> nat set) \<Rightarrow> bool" where
  "flight_ok b w = (\<forall>k. if k \<in> b then \<exists>i. w k = {i} else w k = {})"

lemma flight_move_ok: "flight_ok b w \<Longrightarrow> flight_move b w b' w' \<Longrightarrow> flight_ok b' w'"
  unfolding flight_ok_def flight_move_def
proof (elim disjE exE conjE)
  fix i k
  assume inv: "\<forall>k. if k \<in> b then \<exists>i. w k = {i} else w k = {}" and i: "i \<in> w k"
    and t: "b' = b - {k}" "w' = w(k := w k - {i})"
  have "w k = {i}" using inv [rule_format, of k] i by (auto split: if_splits)
  then show "\<forall>k. if k \<in> b' then \<exists>i. w' k = {i} else w' k = {}"
    using inv t by auto
qed auto

locale single_flight =
  fixes init :: "'s \<Rightarrow> bool"
    and step :: "'s \<Rightarrow> 's \<Rightarrow> bool"
    and busy :: "'s \<Rightarrow> 'k set"
    and worker :: "'s \<Rightarrow> 'k \<Rightarrow> nat set"
  assumes flight_init: "init s \<Longrightarrow> busy s = {} \<and> worker s = (\<lambda>_. {})"
    and flight_step: "step s t \<Longrightarrow> flight_move (busy s) (worker s) (busy t) (worker t)"

sublocale single_flight \<subseteq> invariant_system init step "\<lambda>s. flight_ok (busy s) (worker s)"
proof unfold_locales
  show "init s \<Longrightarrow> flight_ok (busy s) (worker s)" for s
    using flight_init [of s] by (simp add: flight_ok_def)
  show "flight_ok (busy s) (worker s) \<Longrightarrow> step s t \<Longrightarrow> flight_ok (busy t) (worker t)" for s t
    by (rule flight_move_ok [OF _ flight_step])
qed

context single_flight
begin

lemma busy_iff_worker: "reach init step s \<Longrightarrow> k \<in> busy s \<longleftrightarrow> worker s k \<noteq> {}"
  using reach_inv [of s] unfolding flight_ok_def by (metis insert_not_empty)

lemma one_worker: "reach init step s \<Longrightarrow> i \<in> worker s k \<Longrightarrow> j \<in> worker s k \<Longrightarrow> i = j"
  using reach_inv [of s] unfolding flight_ok_def by (metis empty_iff singletonD)

end

section \<open>Frames on a byte stream\<close>

text \<open>
  A codec writes one frame at a time and reads it back from the front of a stream.
  \<open>wf\<close> says which values the writer is called with, \<open>view\<close> what the reader returns for them.
\<close>

locale framing =
  fixes enc :: "'a \<Rightarrow> 'e + bytes"
    and dec :: "bytes \<Rightarrow> 'f + ('b \<times> bytes)"
    and wf :: "'a \<Rightarrow> bool"
    and view :: "'a \<Rightarrow> 'b"
  assumes dec_enc: "wf a \<Longrightarrow> enc a = Inr bs \<Longrightarrow> dec (bs @ rest) = Inr (view a, rest)"
begin

lemma dec_enc_Nil: "wf a \<Longrightarrow> enc a = Inr bs \<Longrightarrow> dec bs = Inr (view a, [])"
  using dec_enc [of a bs "[]"] by simp

text \<open>No frame is a proper prefix of another one, so frame boundaries are unambiguous.\<close>

lemma enc_prefix_free:
  assumes "wf a" "wf b" "enc a = Inr bs" "enc b = Inr (bs @ cs)"
  shows "view a = view b \<and> cs = []"
  using dec_enc [OF assms(1,3), of cs] dec_enc [OF assms(2,4), of "[]"] by simp

end

text \<open>Writing frames one after the other, and reading them back until the stream ends.\<close>

fun enc_all :: "('a \<Rightarrow> 'e + bytes) \<Rightarrow> 'a list \<Rightarrow> 'e + bytes" where
  "enc_all enc [] = Inr []"
| "enc_all enc (a # as) = and_then (enc a) (\<lambda>bs. and_then (enc_all enc as) (\<lambda>r. Inr (bs @ r)))"

text \<open>Reading at most \<open>n\<close> frames; \<open>None\<close> when one of them does not decode.\<close>

fun dec_n :: "(bytes \<Rightarrow> 'f + ('b \<times> bytes)) \<Rightarrow> nat \<Rightarrow> bytes \<Rightarrow> ('b list \<times> bytes) option" where
  "dec_n dec 0 bs = Some ([], bs)"
| "dec_n dec (Suc n) bs = (case dec bs of Inl _ \<Rightarrow> None
     | Inr (b, bs') \<Rightarrow> (case dec_n dec n bs' of None \<Rightarrow> None | Some (xs, r) \<Rightarrow> Some (b # xs, r)))"

context framing
begin

lemma dec_n_enc_all:
  assumes "\<forall>a \<in> set as. wf a" "enc_all enc as = Inr bs"
  shows "dec_n dec (length as) (bs @ rest) = Some (map view as, rest)"
  using assms
proof (induction as arbitrary: bs)
  case Nil
  then show ?case by simp
next
  case (Cons a as)
  from Cons.prems(2) obtain x y where
    x: "enc a = Inr x" and y: "enc_all enc as = Inr y" and bs: "bs = x @ y"
    by (auto simp: and_then_eq_Inr)
  have "dec (x @ (y @ rest)) = Inr (view a, y @ rest)"
    using Cons.prems(1) x by (intro dec_enc) simp_all
  moreover have "dec_n dec (length as) (y @ rest) = Some (map view as, rest)"
    using Cons.prems(1) y by (intro Cons.IH) simp_all
  ultimately show ?case by (simp add: bs)
qed

end

end
