(* ===== verification/Consts.thy ===== *)
theory Consts
  imports Prelude
begin

text \<open>
  \<open>common/src/consts.rs\<close>: the limits and timeouts of both ends.  Durations are in
  milliseconds; the constants keep the names of the source in lower case.
\<close>

definition default_dial_timeout :: nat where "default_dial_timeout = 10000"
definition default_nat_timeout :: nat where "default_nat_timeout = 180000"
definition dns_query_timeout :: nat where "dns_query_timeout = 17000"
definition ethernet_mtu :: nat where "ethernet_mtu = 1500"
definition max_udp_payload :: nat where "max_udp_payload = 65535"
definition authenticate_timeout :: nat where "authenticate_timeout = 10000"
definition in_flight_underlay_ttl :: nat where "in_flight_underlay_ttl = 10000"
definition in_flight_underlay_evict_timeout :: nat where
  "in_flight_underlay_evict_timeout = 100"
definition default_cwnd :: nat where "default_cwnd = 10"
definition max_open_incoming_streams :: nat where "max_open_incoming_streams = 512"
definition keep_alive_period :: nat where "keep_alive_period = 10000"
definition quic_stream_receive_window :: nat where
  "quic_stream_receive_window = 1024 * 1024"
definition quic_connection_receive_window :: nat where
  "quic_connection_receive_window = 16 * 1024 * 1024"
definition quic_send_window :: nat where "quic_send_window = 16 * 1024 * 1024"
definition juiciy_version_0 :: byte where "juiciy_version_0 = 0"
definition underlay_salt_len :: nat where "underlay_salt_len = 32"
definition max_udp_dns_cache :: nat where "max_udp_dns_cache = 256"
definition udp_dns_cache_ttl :: nat where "udp_dns_cache_ttl = 300000"
definition max_concurrent_tcp_connections :: nat where "max_concurrent_tcp_connections = 256"
definition max_in_flight_underlay_entries :: nat where "max_in_flight_underlay_entries = 10000"
definition max_udp_endpoints :: nat where "max_udp_endpoints = 5000"
definition max_underlay_sessions :: nat where "max_underlay_sessions = 5000"
definition max_underlay_handler_concurrency :: nat where
  "max_underlay_handler_concurrency = 1024"
definition max_quic_idle_timeout :: nat where "max_quic_idle_timeout = 600000"
definition tcp_relay_idle_timeout :: nat where "tcp_relay_idle_timeout = 600000"
definition underlay_session_cleanup_interval :: nat where
  "underlay_session_cleanup_interval = 3000"
definition client_udp_session_cleanup_interval :: nat where
  "client_udp_session_cleanup_interval = 5000"
definition client_udp_session_idle_timeout :: nat where
  "client_udp_session_idle_timeout = 180000"

end
