(* ===== verification/Rust_Text.thy ===== *)
theory Rust_Text
  imports Prelude
begin

text \<open>
  The parts of the Rust standard library's text handling that the program depends on.

  A Rust \<open>String\<close> is a sequence of UTF-8 bytes; it is a HOL \<open>string\<close> here, one \<open>char\<close> per
  byte, so \<open>length\<close> is \<open>str::len\<close> and slicing is by byte index as in Rust.  Modelled are
  \<open>String::from_utf8\<close> and \<open>from_utf8_lossy\<close>, searching and trimming, \<open>u16\<close> parsing and
  decimal/hexadecimal formatting, and the parsers and \<open>Display\<close> implementations of
  \<open>Ipv4Addr\<close>, \<open>Ipv6Addr\<close>, \<open>IpAddr\<close> and \<open>SocketAddr\<close>.
\<close>

section \<open>Strings as bytes\<close>

definition str_bytes :: "string \<Rightarrow> bytes" where
  "str_bytes s = map (\<lambda>c. word_of_nat (of_char c)) s"

definition bytes_str :: "bytes \<Rightarrow> string" where
  "bytes_str bs = map (\<lambda>b. char_of (unat b)) bs"

lemma of_char_less_256: "(of_char c :: nat) < 256"
  by (simp add: of_char_def)

lemma unat_of_char [simp]: "unat (word_of_nat (of_char c) :: byte) = of_char c"
  using of_char_less_256 [of c] by (simp add: unat_of_nat)

lemma bytes_str_str_bytes [simp]: "bytes_str (str_bytes s) = s"
  by (simp add: bytes_str_def str_bytes_def o_def)

lemma of_char_char_of_byte [simp]: "of_char (char_of (unat (b :: byte))) = unat b"
  using unsigned_less [of b, where 'a = nat] by (simp add: of_char_mod_256)

lemma str_bytes_bytes_str [simp]: "str_bytes (bytes_str bs) = bs"
  unfolding bytes_str_def str_bytes_def map_map o_def of_char_char_of_byte by simp

lemma length_str_bytes [simp]: "length (str_bytes s) = length s"
  by (simp add: str_bytes_def)

lemma length_bytes_str [simp]: "length (bytes_str s) = length s"
  by (simp add: bytes_str_def)

lemma str_bytes_eq_Nil [simp]: "str_bytes s = [] \<longleftrightarrow> s = []"
  by (simp add: str_bytes_def)

lemma bytes_str_eq_iff [simp]: "bytes_str a = bytes_str b \<longleftrightarrow> a = b"
  by (metis str_bytes_bytes_str)

section \<open>UTF-8\<close>

text \<open>
  \<open>utf8_chunk\<close> looks at the front of a byte sequence as \<open>core::str::lossy\<close> does: how many
  bytes belong to the next chunk, and whether they are one well-formed scalar value.  An
  ill-formed chunk is the longest prefix of a well-formed sequence (at least one byte).
\<close>

definition is_cont :: "byte \<Rightarrow> bool" where
  "is_cont b = (0x80 \<le> b \<and> b \<le> 0xBF)"

definition utf8_width :: "byte \<Rightarrow> nat" where
  "utf8_width b = (if b \<le> 0x7F then 1 else if 0xC2 \<le> b \<and> b \<le> 0xDF then 2
     else if 0xE0 \<le> b \<and> b \<le> 0xEF then 3 else if 0xF0 \<le> b \<and> b \<le> 0xF4 then 4 else 0)"

definition utf8_second3 :: "byte \<Rightarrow> byte \<Rightarrow> bool" where
  "utf8_second3 b n = (if b = 0xE0 then 0xA0 \<le> n \<and> n \<le> 0xBF
     else if b = 0xED then 0x80 \<le> n \<and> n \<le> 0x9F else is_cont n)"

definition utf8_second4 :: "byte \<Rightarrow> byte \<Rightarrow> bool" where
  "utf8_second4 b n = (if b = 0xF0 then 0x90 \<le> n \<and> n \<le> 0xBF
     else if b = 0xF4 then 0x80 \<le> n \<and> n \<le> 0x8F else is_cont n)"

fun utf8_tail :: "nat \<Rightarrow> nat \<Rightarrow> bytes \<Rightarrow> nat \<times> bool" where
  "utf8_tail 0 k bs = (k, True)"
| "utf8_tail (Suc n) k [] = (k, False)"
| "utf8_tail (Suc n) k (b # bs) = (if is_cont b then utf8_tail n (Suc k) bs else (k, False))"

fun utf8_chunk :: "bytes \<Rightarrow> nat \<times> bool" where
  "utf8_chunk [] = (0, True)"
| "utf8_chunk (b # bs) =
     (if utf8_width b = 1 then (1, True)
      else if utf8_width b = 2 then utf8_tail 1 1 bs
      else if utf8_width b = 3 then
        (case bs of [] \<Rightarrow> (1, False)
         | n # bs' \<Rightarrow> if utf8_second3 b n then utf8_tail 1 2 bs' else (1, False))
      else if utf8_width b = 4 then
        (case bs of [] \<Rightarrow> (1, False)
         | n # bs' \<Rightarrow> if utf8_second4 b n then utf8_tail 2 2 bs' else (1, False))
      else (1, False))"

lemma utf8_tail_ge: "k \<le> fst (utf8_tail n k bs)"
  by (induction n k bs rule: utf8_tail.induct) auto

lemma utf8_chunk_pos: "bs \<noteq> [] \<Longrightarrow> 0 < fst (utf8_chunk bs)"
proof -
  have t: "0 < k \<Longrightarrow> 0 < fst (utf8_tail n k cs)" for n k cs
    using utf8_tail_ge [of k n cs] by simp
  show "bs \<noteq> [] \<Longrightarrow> 0 < fst (utf8_chunk bs)"
    by (cases bs) (auto simp: t split: list.split)
qed

function from_utf8_lossy :: "bytes \<Rightarrow> bytes" where
  "from_utf8_lossy bs =
     (if bs = [] then []
      else (if snd (utf8_chunk bs) then take (fst (utf8_chunk bs)) bs else [0xEF, 0xBF, 0xBD])
        @ from_utf8_lossy (drop (fst (utf8_chunk bs)) bs))"
  by pat_completeness auto
termination
  by (relation "measure length") (auto simp: utf8_chunk_pos)

function utf8_valid :: "bytes \<Rightarrow> bool" where
  "utf8_valid bs =
     (if bs = [] then True
      else if snd (utf8_chunk bs) then utf8_valid (drop (fst (utf8_chunk bs)) bs) else False)"
  by pat_completeness auto
termination
  by (relation "measure length") (auto simp: utf8_chunk_pos)

declare from_utf8_lossy.simps [simp del] utf8_valid.simps [simp del]

text \<open>\<open>String::from_utf8\<close> and \<open>String::from_utf8_lossy\<close>.\<close>

definition from_utf8 :: "bytes \<Rightarrow> string option" where
  "from_utf8 bs = (if utf8_valid bs then Some (bytes_str bs) else None)"

definition lossy_string :: "bytes \<Rightarrow> string" where
  "lossy_string bs = bytes_str (from_utf8_lossy bs)"

text \<open>A HOL string that is a Rust string.\<close>

definition rust_str :: "string \<Rightarrow> bool" where
  "rust_str s = utf8_valid (str_bytes s)"

lemma utf8_valid_Nil [simp]: "utf8_valid []"
  by (simp add: utf8_valid.simps)

lemma from_utf8_lossy_Nil [simp]: "from_utf8_lossy [] = []"
  by (simp add: from_utf8_lossy.simps)

lemma utf8_valid_lossy_id: "utf8_valid bs \<Longrightarrow> from_utf8_lossy bs = bs"
proof (induction bs rule: from_utf8_lossy.induct)
  case (1 bs)
  show ?case
  proof (cases "bs = []")
    case False
    with "1.prems" have ok: "snd (utf8_chunk bs)"
      and v: "utf8_valid (drop (fst (utf8_chunk bs)) bs)"
      by (simp_all add: utf8_valid.simps [of bs] split: if_splits)
    with "1.IH" [OF False] False show ?thesis
      by (simp add: from_utf8_lossy.simps [of bs])
  qed simp
qed

lemma lossy_string_rust_str: "rust_str s \<Longrightarrow> lossy_string (str_bytes s) = s"
  by (simp add: lossy_string_def rust_str_def utf8_valid_lossy_id)

lemma utf8_tail_extend:
  "snd (utf8_tail n k bs) \<Longrightarrow>
     fst (utf8_tail n k bs) = k + n \<and> n \<le> length bs \<and>
     utf8_tail n k (take n bs @ xs) = utf8_tail n k bs"
  by (induction n k bs rule: utf8_tail.induct) (auto split: if_splits)

lemma utf8_tail_one:
  assumes "snd (utf8_tail (Suc 0) k cs)"
  obtains c cs' where "cs = c # cs'" "is_cont c" "fst (utf8_tail (Suc 0) k cs) = Suc k"
  using assms by (cases cs) (auto split: if_splits)

lemma utf8_tail_two:
  assumes "snd (utf8_tail 2 k cs)"
  obtains c d cs' where "cs = c # d # cs'" "is_cont c" "is_cont d"
    "fst (utf8_tail 2 k cs) = Suc (Suc k)"
  using assms by (cases cs; cases "tl cs") (auto simp: numeral_2_eq_2 split: if_splits)

lemma utf8_tail_two_simp:
  "is_cont c \<Longrightarrow> is_cont d \<Longrightarrow> utf8_tail 2 k (c # d # xs) = (Suc (Suc k), True)"
  by (simp add: numeral_2_eq_2)

text \<open>A well-formed chunk is recognised again in front of any other bytes.\<close>

lemma utf8_chunk_prefix:
  assumes "snd (utf8_chunk bs)" "bs \<noteq> []"
  shows "utf8_chunk (take (fst (utf8_chunk bs)) bs @ xs) = (fst (utf8_chunk bs), True)"
proof -
  obtain b cs where bs: "bs = b # cs" using assms(2) by (cases bs) auto
  show ?thesis
  proof (cases "utf8_width b = 1")
    case True
    then show ?thesis by (simp add: bs)
  next
    case w1: False
    show ?thesis
    proof (cases "utf8_width b = 2")
      case True
      with assms(1) show ?thesis
        by (auto simp: bs elim!: utf8_tail_one)
    next
      case w2: False
      show ?thesis
      proof (cases "utf8_width b = 3")
        case True
        with assms(1) show ?thesis
          by (cases cs) (auto simp: bs split: if_splits elim!: utf8_tail_one)
      next
        case w3: False
        with w1 w2 assms(1) show ?thesis
          by (cases cs) (auto simp: bs utf8_tail_two_simp split: if_splits elim!: utf8_tail_two)
      qed
    qed
  qed
qed

lemma utf8_chunk_le: "fst (utf8_chunk bs) \<le> length bs"
proof -
  have t: "fst (utf8_tail n k cs) \<le> k + length cs" for n k cs
    by (induction n k cs rule: utf8_tail.induct) auto
  have t1: "fst (utf8_tail n 1 cs) \<le> Suc (length cs)" for n cs
    using t [of n 1 cs] by simp
  have t2: "fst (utf8_tail n 2 cs) \<le> Suc (Suc (length cs))" for n cs
    using t [of n 2 cs] by simp
  show ?thesis
    by (cases bs) (auto simp: t1 t2 split: list.split)
qed

lemma utf8_valid_append_chunk:
  assumes "snd (utf8_chunk bs)" "bs \<noteq> []"
  shows "utf8_valid (take (fst (utf8_chunk bs)) bs @ xs) = utf8_valid xs"
proof -
  let ?n = "fst (utf8_chunk bs)"
  let ?t = "take ?n bs @ xs"
  have "utf8_chunk ?t = (?n, True)"
    using assms by (rule utf8_chunk_prefix)
  moreover have "?t \<noteq> []" "drop ?n ?t = xs"
    using utf8_chunk_pos [OF assms(2)] utf8_chunk_le [of bs] assms(2) by auto
  ultimately show ?thesis
    by (simp only: utf8_valid.simps [of ?t] fst_conv snd_conv if_False if_True)
qed

text \<open>Lossy decoding always yields a Rust string.\<close>

lemma utf8_valid_lossy: "utf8_valid (from_utf8_lossy bs)"
proof (induction bs rule: from_utf8_lossy.induct)
  case (1 bs)
  show ?case
  proof (cases "bs = []")
    case False
    let ?r = "from_utf8_lossy (drop (fst (utf8_chunk bs)) bs)"
    have IH: "utf8_valid ?r" using "1.IH" False by simp
    have "utf8_valid ([0xEF, 0xBF, 0xBD] @ ?r)"
      using IH
      by (subst utf8_valid.simps)
        (simp add: utf8_width_def utf8_second3_def is_cont_def)
    moreover have "snd (utf8_chunk bs) \<Longrightarrow> utf8_valid (take (fst (utf8_chunk bs)) bs @ ?r)"
      using IH False by (simp add: utf8_valid_append_chunk)
    ultimately show ?thesis
      using False by (simp add: from_utf8_lossy.simps [of bs])
  qed simp
qed

lemma rust_str_lossy: "rust_str (lossy_string bs)"
  by (simp add: rust_str_def lossy_string_def utf8_valid_lossy)

lemma rust_str_from_utf8: "from_utf8 bs = Some s \<Longrightarrow> rust_str s \<and> str_bytes s = bs"
  by (auto simp: from_utf8_def rust_str_def split: if_splits)

lemma utf8_valid_ascii: "\<forall>b \<in> set bs. b \<le> 0x7F \<Longrightarrow> utf8_valid bs"
proof (induction bs)
  case (Cons b bs)
  then show ?case
    by (subst utf8_valid.simps) (simp add: utf8_width_def)
qed simp

lemma length_from_utf8_lossy: "length (from_utf8_lossy bs) \<le> 3 * length bs"
proof (induction bs rule: from_utf8_lossy.induct)
  case (1 bs)
  show ?case
  proof (cases "bs = []")
    case False
    let ?n = "fst (utf8_chunk bs)"
    have "length (from_utf8_lossy (drop ?n bs)) \<le> 3 * (length bs - ?n)"
      using "1.IH" [OF False] by simp
    moreover have "0 < ?n" "?n \<le> length bs"
      using utf8_chunk_pos [OF False] utf8_chunk_le [of bs] by auto
    ultimately show ?thesis
      using False by (subst from_utf8_lossy.simps) auto
  qed simp
qed

section \<open>Searching, splitting and trimming\<close>

fun find_char :: "char \<Rightarrow> string \<Rightarrow> nat option" where
  "find_char c [] = None"
| "find_char c (x # xs) = (if x = c then Some 0 else map_option Suc (find_char c xs))"

fun rfind_char :: "char \<Rightarrow> string \<Rightarrow> nat option" where
  "rfind_char c [] = None"
| "rfind_char c (x # xs) =
     (case rfind_char c xs of Some i \<Rightarrow> Some (Suc i) | None \<Rightarrow> if x = c then Some 0 else None)"

definition contains_char :: "char \<Rightarrow> string \<Rightarrow> bool" where
  "contains_char c s = (c \<in> set s)"

definition starts_with :: "string \<Rightarrow> string \<Rightarrow> bool" where
  "starts_with p s = (take (length p) s = p)"

definition strip_prefix :: "string \<Rightarrow> string \<Rightarrow> string option" where
  "strip_prefix p s = (if starts_with p s then Some (drop (length p) s) else None)"

text \<open>\<open>split_once(c)\<close> and \<open>rsplit_once(c)\<close>.\<close>

definition split_once :: "char \<Rightarrow> string \<Rightarrow> (string \<times> string) option" where
  "split_once c s = map_option (\<lambda>i. (take i s, drop (Suc i) s)) (find_char c s)"

definition rsplit_once :: "char \<Rightarrow> string \<Rightarrow> (string \<times> string) option" where
  "rsplit_once c s = map_option (\<lambda>i. (take i s, drop (Suc i) s)) (rfind_char c s)"

text \<open>\<open>str::trim\<close> removes Unicode \<open>White_Space\<close>; these are the encodings of its members.\<close>

definition white_space :: "string list" where
  "white_space = map bytes_str
     ([[9], [10], [11], [12], [13], [32], [0xC2, 0x85], [0xC2, 0xA0], [0xE1, 0x9A, 0x80]]
      @ map (\<lambda>b. [0xE2, 0x80, b])
          [0x80, 0x81, 0x82, 0x83, 0x84, 0x85, 0x86, 0x87, 0x88, 0x89, 0x8A, 0xA8, 0xA9, 0xAF]
      @ [[0xE2, 0x81, 0x9F], [0xE3, 0x80, 0x80]])"

text \<open>The length of the white space character at the front, 0 when there is none.\<close>

definition ws_len :: "string list \<Rightarrow> string \<Rightarrow> nat" where
  "ws_len ws s = (case find (\<lambda>w. w \<noteq> [] \<and> starts_with w s) ws of None \<Rightarrow> 0 | Some w \<Rightarrow> length w)"

function drop_ws :: "string list \<Rightarrow> string \<Rightarrow> string" where
  "drop_ws ws s = (if ws_len ws s = 0 \<or> s = [] then s else drop_ws ws (drop (ws_len ws s) s))"
  by pat_completeness auto
termination
  by (relation "measure (\<lambda>(ws, s). length s)") auto

declare drop_ws.simps [simp del]

definition trim_start :: "string \<Rightarrow> string" where
  "trim_start s = drop_ws white_space s"

definition trim_end :: "string \<Rightarrow> string" where
  "trim_end s = rev (drop_ws (map rev white_space) (rev s))"

definition trim :: "string \<Rightarrow> string" where
  "trim s = trim_end (trim_start s)"

text \<open>\<open>split_whitespace\<close>: the maximal runs without white space.\<close>

function split_ws :: "string \<Rightarrow> string \<Rightarrow> string list" where
  "split_ws acc s =
     (if s = [] then (if acc = [] then [] else [rev acc])
      else if ws_len white_space s = 0 then split_ws (hd s # acc) (tl s)
      else (if acc = [] then [] else [rev acc]) @ split_ws [] (drop (ws_len white_space s) s))"
  by pat_completeness auto
termination
  by (relation "measure (\<lambda>(acc, s). length s)") auto

declare split_ws.simps [simp del]

definition split_whitespace :: "string \<Rightarrow> string list" where
  "split_whitespace s = split_ws [] s"

text \<open>\<open>trim_end_matches(cs)\<close> for a set of ASCII characters.\<close>

definition trim_end_matches :: "char list \<Rightarrow> string \<Rightarrow> string" where
  "trim_end_matches cs s = rev (dropWhile (\<lambda>c. c \<in> set cs) (rev s))"

text \<open>ASCII case: \<open>to_ascii_lowercase\<close> and \<open>eq_ignore_ascii_case\<close>.\<close>

definition lower_char :: "char \<Rightarrow> char" where
  "lower_char c = (if 65 \<le> (of_char c :: nat) \<and> (of_char c :: nat) \<le> 90
     then char_of ((of_char c :: nat) + 32) else c)"

definition to_lower :: "string \<Rightarrow> string" where
  "to_lower s = map lower_char s"

definition eq_ignore_case :: "string \<Rightarrow> string \<Rightarrow> bool" where
  "eq_ignore_case a b = (to_lower a = to_lower b)"

text \<open>\<open>Iterator::find_map\<close>.\<close>

fun find_map :: "('a \<Rightarrow> 'b option) \<Rightarrow> 'a list \<Rightarrow> 'b option" where
  "find_map f [] = None"
| "find_map f (x # xs) = (case f x of Some y \<Rightarrow> Some y | None \<Rightarrow> find_map f xs)"

fun join :: "string \<Rightarrow> string list \<Rightarrow> string" where
  "join sep [] = []"
| "join sep [x] = x"
| "join sep (x # y # xs) = x @ sep @ join sep (y # xs)"

lemma find_char_Some: "find_char c s = Some i \<Longrightarrow>
    i < length s \<and> s ! i = c \<and> c \<notin> set (take i s)"
  by (induction s arbitrary: i) (auto split: if_splits)

lemma find_char_None [simp]: "find_char c s = None \<longleftrightarrow> c \<notin> set s"
  by (induction s) auto

lemma find_char_append: "c \<notin> set a \<Longrightarrow> find_char c (a @ c # b) = Some (length a)"
  by (induction a) auto

lemma rfind_char_None [simp]: "rfind_char c s = None \<longleftrightarrow> c \<notin> set s"
  by (induction s) (auto split: option.splits)

lemma rfind_char_append: "c \<notin> set b \<Longrightarrow> rfind_char c (a @ c # b) = Some (length a)"
proof (induction a)
  case Nil
  then have "rfind_char c b = None" by simp
  then show ?case by (simp del: rfind_char_None)
qed simp

lemma rfind_char_Some: "rfind_char c s = Some i \<Longrightarrow>
    i < length s \<and> s ! i = c \<and> c \<notin> set (drop (Suc i) s)"
proof (induction s arbitrary: i)
  case (Cons x xs)
  then show ?case
    by (cases "rfind_char c xs") (auto split: if_splits)
qed simp

section \<open>Numbers\<close>

definition digit_char :: "nat \<Rightarrow> char" where
  "digit_char d = char_of (if d < 10 then 48 + d else 87 + d)"

text \<open>\<open>char::to_digit(radix)\<close>.\<close>

definition to_digit :: "nat \<Rightarrow> char \<Rightarrow> nat option" where
  "to_digit r c =
     (let n = of_char c;
          d = (if 48 \<le> n \<and> n \<le> 57 then n - 48
               else if 97 \<le> n \<and> n \<le> 122 then n - 87
               else if 65 \<le> n \<and> n \<le> 90 then n - 55 else 36)
      in if d < r then Some d else None)"

text \<open>\<open>{}\<close> (radix 10) and \<open>{:x}\<close> (radix 16) formatting.\<close>

fun radix_str :: "nat \<Rightarrow> nat \<Rightarrow> string" where
  "radix_str r n =
     (if n < r \<or> r < 2 then [digit_char n] else radix_str r (n div r) @ [digit_char (n mod r)])"

declare radix_str.simps [simp del]

definition dec_str :: "nat \<Rightarrow> string" where
  "dec_str n = radix_str 10 n"

definition hex_str :: "nat \<Rightarrow> string" where
  "hex_str n = radix_str 16 n"

text \<open>Consume digits from the front: the value, how many there were, and the rest.\<close>

fun read_digits :: "nat \<Rightarrow> string \<Rightarrow> nat \<Rightarrow> nat \<Rightarrow> nat \<times> nat \<times> string" where
  "read_digits r [] acc n = (acc, n, [])"
| "read_digits r (c # cs) acc n =
     (case to_digit r c of None \<Rightarrow> (acc, n, c # cs)
      | Some d \<Rightarrow> read_digits r cs (acc * r + d) (Suc n))"

text \<open>
  \<open>u16::from_str\<close> (and \<open>from_str_radix\<close>): an optional \<open>+\<close>, then at least one digit and
  nothing else; a value of \<open>lim\<close> or more overflows.
\<close>

definition parse_uint :: "nat \<Rightarrow> nat \<Rightarrow> string \<Rightarrow> nat option" where
  "parse_uint r lim s =
     (let ds = (if starts_with ''+'' s then drop 1 s else s)
      in case read_digits r ds 0 0 of (v, n, rest) \<Rightarrow>
         if n = 0 \<or> rest \<noteq> [] \<or> lim \<le> v then None else Some v)"

definition parse_u16 :: "string \<Rightarrow> u16 option" where
  "parse_u16 s = map_option word_of_nat (parse_uint 10 65536 s)"

lemma to_digit_digit_char [simp]: "d < r \<Longrightarrow> r \<le> 36 \<Longrightarrow> to_digit r (digit_char d) = Some d"
  by (auto simp: to_digit_def digit_char_def Let_def of_char_mod_256)

lemma read_digits_append:
  assumes "\<forall>c \<in> set a. to_digit r c \<noteq> None" "b = [] \<or> to_digit r (hd b) = None"
  shows "read_digits r (a @ b) acc n =
    (fold (\<lambda>c v. v * r + the (to_digit r c)) a acc, n + length a, b)"
  using assms
proof (induction a arbitrary: acc n)
  case Nil
  then show ?case by (cases b) auto
next
  case (Cons c a)
  then obtain d where "to_digit r c = Some d" by auto
  with Cons show ?case by simp
qed

lemma radix_str_digits:
  "2 \<le> r \<Longrightarrow> r \<le> 36 \<Longrightarrow> \<forall>c \<in> set (radix_str r n). to_digit r c \<noteq> None"
proof (induction r n rule: radix_str.induct)
  case (1 r n)
  then show ?case by (subst radix_str.simps) auto
qed

lemma radix_str_value:
  "2 \<le> r \<Longrightarrow> r \<le> 36 \<Longrightarrow>
   fold (\<lambda>c v. v * r + the (to_digit r c)) (radix_str r n) 0 = n"
proof (induction r n rule: radix_str.induct)
  case (1 r n)
  show ?case
  proof (cases "n < r")
    case True
    with 1 show ?thesis by (subst radix_str.simps) simp
  next
    case False
    with 1 have "fold (\<lambda>c v. v * r + the (to_digit r c)) (radix_str r (n div r)) 0 = n div r"
      by simp
    with False 1 show ?thesis
      by (subst radix_str.simps) (simp add: div_mult_mod_eq)
  qed
qed

lemma radix_str_not_Nil [simp]: "radix_str r n \<noteq> []"
  by (subst radix_str.simps) simp

lemma read_digits_radix_str:
  assumes "2 \<le> r" "r \<le> 36" "b = [] \<or> to_digit r (hd b) = None"
  shows "read_digits r (radix_str r n @ b) 0 0 = (n, length (radix_str r n), b)"
  using read_digits_append [OF radix_str_digits assms(3), of n 0 0] assms
  by (simp add: radix_str_value)

lemma radix_str_hd_digit:
  "2 \<le> r \<Longrightarrow> r \<le> 36 \<Longrightarrow> to_digit r (hd (radix_str r n)) \<noteq> None"
  using radix_str_digits [of r n] hd_in_set [OF radix_str_not_Nil] by blast

lemma parse_uint_radix_str:
  assumes "2 \<le> r" "r \<le> 36" "n < lim"
  shows "parse_uint r lim (radix_str r n) = Some n"
proof -
  have "to_digit r (CHR ''+'') = None" using assms by (simp add: to_digit_def)
  then have "\<not> starts_with ''+'' (radix_str r n)"
    using radix_str_hd_digit [OF assms(1,2), of n] radix_str_not_Nil [of r n]
    by (cases "radix_str r n") (auto simp: starts_with_def)
  moreover have "read_digits r (radix_str r n) 0 0 = (n, length (radix_str r n), [])"
    using read_digits_radix_str [OF assms(1,2), of "[]" n] by simp
  ultimately show ?thesis using assms(3) by (simp add: parse_uint_def)
qed

lemma parse_u16_dec_str: "parse_u16 (dec_str (unat p)) = Some p"
proof -
  have "unat p < 65536" using unsigned_less [of p, where 'a = nat] by simp
  then show ?thesis by (simp add: parse_u16_def dec_str_def parse_uint_radix_str)
qed

lemma dec_str_digits: "c \<in> set (dec_str n) \<Longrightarrow> 48 \<le> (of_char c :: nat) \<and> (of_char c :: nat) \<le> 57"
proof -
  assume "c \<in> set (dec_str n)"
  then have "to_digit 10 c \<noteq> None" using radix_str_digits [of 10 n] by (simp add: dec_str_def)
  then show ?thesis by (auto simp: to_digit_def Let_def split: if_splits)
qed

end
