(* ===== verification/Rust_Net.thy ===== *)
theory Rust_Net
  imports Rust_Text
begin

text \<open>
  \<open>std::net\<close>: IPv4 and IPv6 addresses, socket addresses, their octets, their \<open>Display\<close>
  output and their \<open>FromStr\<close> parsers (\<open>core::net::parser\<close>), with the facts that formatting
  and parsing agree.
\<close>

section \<open>Addresses\<close>

datatype ipv4 = Ipv4 byte byte byte byte

datatype ipv6 = Ipv6 u16 u16 u16 u16 u16 u16 u16 u16

datatype ip_addr = IpV4 ipv4 | IpV6 ipv6

text \<open>A socket address; the flow label and scope of an IPv6 socket address are not used by
  the program and are left out.\<close>

record socket_addr =
  sa_ip :: ip_addr
  sa_port :: u16

fun v4_octets :: "ipv4 \<Rightarrow> bytes" where
  "v4_octets (Ipv4 a b c d) = [a, b, c, d]"

fun v4_of_octets :: "bytes \<Rightarrow> ipv4" where
  "v4_of_octets [a, b, c, d] = Ipv4 a b c d"
| "v4_of_octets _ = Ipv4 0 0 0 0"

fun segments :: "ipv6 \<Rightarrow> u16 list" where
  "segments (Ipv6 a b c d e f g h) = [a, b, c, d, e, f, g, h]"

fun v6_of_segments :: "u16 list \<Rightarrow> ipv6" where
  "v6_of_segments [a, b, c, d, e, f, g, h] = Ipv6 a b c d e f g h"
| "v6_of_segments _ = Ipv6 0 0 0 0 0 0 0 0"

definition v6_octets :: "ipv6 \<Rightarrow> bytes" where
  "v6_octets ip = concat (map u16_to_be (segments ip))"

fun be_segments :: "bytes \<Rightarrow> u16 list" where
  "be_segments (h # l # bs) = u16_of_be h l # be_segments bs"
| "be_segments _ = []"

definition v6_of_octets :: "bytes \<Rightarrow> ipv6" where
  "v6_of_octets bs = v6_of_segments (be_segments bs)"

lemma length_v4_octets [simp]: "length (v4_octets ip) = 4"
  by (cases ip) simp

lemma v4_of_octets_octets [simp]: "v4_of_octets (v4_octets ip) = ip"
  by (cases ip) simp

lemma length_v6_octets [simp]: "length (v6_octets ip) = 16"
  by (cases ip) (simp add: v6_octets_def)

lemma v6_of_segments_segments [simp]: "v6_of_segments (segments ip) = ip"
  by (cases ip) simp

lemma length_segments [simp]: "length (segments ip) = 8"
  by (cases ip) simp

lemma segments_v6_of_segments:
  "length ss = 8 \<Longrightarrow> segments (v6_of_segments ss) = ss"
  by (simp add: numeral_eq_Suc length_Suc_conv) auto

lemma v6_of_octets_octets [simp]: "v6_of_octets (v6_octets ip) = ip"
  by (cases ip) (simp add: v6_of_octets_def v6_octets_def u16_to_be_def u16_be_parts)

text \<open>\<open>Ipv4Addr::to_ipv6_mapped\<close>, \<open>Ipv6Addr::to_ipv4_mapped\<close> and \<open>IpAddr::to_canonical\<close>.\<close>

fun to_ipv6_mapped :: "ipv4 \<Rightarrow> ipv6" where
  "to_ipv6_mapped (Ipv4 a b c d) = Ipv6 0 0 0 0 0 0xFFFF (u16_of_be a b) (u16_of_be c d)"

fun to_ipv4_mapped :: "ipv6 \<Rightarrow> ipv4 option" where
  "to_ipv4_mapped (Ipv6 a b c d e f g h) =
     (if a = 0 \<and> b = 0 \<and> c = 0 \<and> d = 0 \<and> e = 0 \<and> f = 0xFFFF
      then Some (v4_of_octets (u16_to_be g @ u16_to_be h)) else None)"

fun to_canonical :: "ip_addr \<Rightarrow> ip_addr" where
  "to_canonical (IpV4 ip) = IpV4 ip"
| "to_canonical (IpV6 ip) = (case to_ipv4_mapped ip of Some v4 \<Rightarrow> IpV4 v4 | None \<Rightarrow> IpV6 ip)"

lemma u16_to_be_of_be [simp]: "u16_to_be (u16_of_be a b) = [a, b]"
proof -
  have ab: "unat a < 256" "unat b < 256"
    using unsigned_less [of a, where 'a = nat] unsigned_less [of b, where 'a = nat] by simp_all
  have hi: "unat (ucast (drop_bit 8 (u16_of_be a b)) :: byte) = unat a"
    unfolding unsigned_ucast_eq take_bit_eq_mod using ab
    by (simp add: drop_bit_eq_div unat_div unat_u16_of_be)
  have lo: "unat (ucast (u16_of_be a b) :: byte) = unat b"
    unfolding unsigned_ucast_eq unat_u16_of_be take_bit_eq_mod
    using ab by (simp add: mod_mult_self4)
  show ?thesis
    using hi lo by (auto simp: u16_to_be_def intro: unsigned_word_eqI)
qed

lemma to_ipv4_mapped_mapped [simp]: "to_ipv4_mapped (to_ipv6_mapped ip) = Some ip"
  by (cases ip) simp

section \<open>Display\<close>

fun v4_str :: "ipv4 \<Rightarrow> string" where
  "v4_str (Ipv4 a b c d) =
     dec_str (unat a) @ ''.'' @ dec_str (unat b) @ ''.'' @ dec_str (unat c) @ ''.'' @ dec_str (unat d)"

text \<open>The longest run of zero segments (the first one of that length): its start and length.\<close>

fun zero_run :: "nat \<Rightarrow> nat \<times> nat \<Rightarrow> nat \<times> nat \<Rightarrow> u16 list \<Rightarrow> nat \<times> nat" where
  "zero_run i longest current [] = longest"
| "zero_run i longest current (s # ss) =
     (if s = 0 then
        (let cur = (if snd current = 0 then (i, 1) else (fst current, Suc (snd current)))
         in zero_run (Suc i) (if snd longest < snd cur then cur else longest) cur ss)
      else zero_run (Suc i) longest (0, 0) ss)"

text \<open>\<open>fmt_subslice\<close>: hexadecimal segments separated by colons.\<close>

definition segs_str :: "u16 list \<Rightarrow> string" where
  "segs_str ss = join '':'' (map (\<lambda>s. hex_str (unat s)) ss)"

definition v6_str :: "ipv6 \<Rightarrow> string" where
  "v6_str ip =
     (case to_ipv4_mapped ip of
        Some v4 \<Rightarrow> ''::ffff:'' @ v4_str v4
      | None \<Rightarrow>
          (let ss = segments ip; z = zero_run 0 (0, 0) (0, 0) ss
           in if 1 < snd z
              then segs_str (take (fst z) ss) @ ''::'' @ segs_str (drop (fst z + snd z) ss)
              else segs_str ss))"

fun ip_str :: "ip_addr \<Rightarrow> string" where
  "ip_str (IpV4 ip) = v4_str ip"
| "ip_str (IpV6 ip) = v6_str ip"

definition sock_str :: "socket_addr \<Rightarrow> string" where
  "sock_str a = (case sa_ip a of
      IpV4 ip \<Rightarrow> v4_str ip @ '':'' @ dec_str (unat (sa_port a))
    | IpV6 ip \<Rightarrow> ''['' @ v6_str ip @ '']:'' @ dec_str (unat (sa_port a)))"

section \<open>Parsing\<close>

text \<open>
  \<open>Parser::read_number\<close>: digits of a radix; \<open>max_digits\<close> bounds their number, and a value of
  \<open>lim\<close> or more does not fit the integer type.  (With no \<open>max_digits\<close> the source checks for
  overflow after every digit; the value only grows, so the check on the final value agrees.)
\<close>

definition read_number ::
  "nat \<Rightarrow> nat option \<Rightarrow> bool \<Rightarrow> nat \<Rightarrow> string \<Rightarrow> (nat \<times> string) option" where
  "read_number r max_digits allow_zero_prefix lim s =
     (case read_digits r s 0 0 of (v, n, rest) \<Rightarrow>
        if (case max_digits of Some m \<Rightarrow> m < n | None \<Rightarrow> False) then None
        else if n = 0 then None
        else if \<not> allow_zero_prefix \<and> starts_with ''0'' s \<and> 1 < n then None
        else if lim \<le> v then None
        else Some (v, rest))"

definition read_given_char :: "char \<Rightarrow> string \<Rightarrow> string option" where
  "read_given_char c s = (case s of [] \<Rightarrow> None | x # xs \<Rightarrow> if x = c then Some xs else None)"

definition read_octet :: "string \<Rightarrow> (byte \<times> string) option" where
  "read_octet s = map_option (\<lambda>(v, r). (word_of_nat v, r)) (read_number 10 (Some 3) False 256 s)"

definition read_ipv4 :: "string \<Rightarrow> (ipv4 \<times> string) option" where
  "read_ipv4 s =
     Option.bind (read_octet s) (\<lambda>(a, s).
     Option.bind (read_given_char (CHR ''.'') s) (\<lambda>s.
     Option.bind (read_octet s) (\<lambda>(b, s).
     Option.bind (read_given_char (CHR ''.'') s) (\<lambda>s.
     Option.bind (read_octet s) (\<lambda>(c, s).
     Option.bind (read_given_char (CHR ''.'') s) (\<lambda>s.
     Option.bind (read_octet s) (\<lambda>(d, s).
     Some (Ipv4 a b c d, s))))))))"

text \<open>\<open>read_separator(':', i, \<dots>)\<close>: the separator is expected from the second group on.\<close>

definition read_sep :: "nat \<Rightarrow> string \<Rightarrow> string option" where
  "read_sep i s = (if i = 0 then Some s else read_given_char (CHR '':'') s)"

text \<open>\<open>read_groups\<close> with \<open>i\<close> groups read so far out of \<open>i + k\<close>: the groups, whether an
  embedded IPv4 address ended them, and the rest.\<close>

fun read_groups :: "nat \<Rightarrow> nat \<Rightarrow> string \<Rightarrow> u16 list \<times> bool \<times> string" where
  "read_groups i 0 s = ([], False, s)"
| "read_groups i (Suc k) s =
     (case (if 0 < k then Option.bind (read_sep i s) read_ipv4 else None) of
        Some (ip, s') \<Rightarrow> (be_segments (v4_octets ip), True, s')
      | None \<Rightarrow>
          (case Option.bind (read_sep i s) (read_number 16 (Some 4) True 65536) of
             Some (v, s') \<Rightarrow>
               (case read_groups (Suc i) k s' of (gs, b, r) \<Rightarrow> (word_of_nat v # gs, b, r))
           | None \<Rightarrow> ([], False, s)))"

definition read_ipv6 :: "string \<Rightarrow> (ipv6 \<times> string) option" where
  "read_ipv6 s =
     (case read_groups 0 8 s of (hd_gs, hd_v4, s1) \<Rightarrow>
        if length hd_gs = 8 then Some (v6_of_segments hd_gs, s1)
        else if hd_v4 then None
        else Option.bind (read_given_char (CHR '':'') s1) (\<lambda>s2.
             Option.bind (read_given_char (CHR '':'') s2) (\<lambda>s3.
             case read_groups 0 (8 - (length hd_gs + 1)) s3 of (tl_gs, _, s4) \<Rightarrow>
               Some (v6_of_segments
                 (hd_gs @ replicate (8 - length hd_gs - length tl_gs) 0 @ tl_gs), s4))))"

text \<open>\<open>parse_with\<close>: the whole input has to be consumed.\<close>

definition parse_all :: "(string \<Rightarrow> ('a \<times> string) option) \<Rightarrow> string \<Rightarrow> 'a option" where
  "parse_all p s = (case p s of Some (x, []) \<Rightarrow> Some x | _ \<Rightarrow> None)"

text \<open>\<open>Ipv4Addr::from_str\<close> rejects inputs longer than 15 bytes before parsing.\<close>

definition parse_ipv4 :: "string \<Rightarrow> ipv4 option" where
  "parse_ipv4 s = (if 15 < length s then None else parse_all read_ipv4 s)"

definition parse_ipv6 :: "string \<Rightarrow> ipv6 option" where
  "parse_ipv6 s = parse_all read_ipv6 s"

definition parse_ip :: "string \<Rightarrow> ip_addr option" where
  "parse_ip s = parse_all (\<lambda>s. case read_ipv4 s of Some (ip, r) \<Rightarrow> Some (IpV4 ip, r)
     | None \<Rightarrow> map_option (\<lambda>(ip, r). (IpV6 ip, r)) (read_ipv6 s)) s"

definition read_port :: "string \<Rightarrow> (u16 \<times> string) option" where
  "read_port s = Option.bind (read_given_char (CHR '':'') s) (\<lambda>s.
     map_option (\<lambda>(v, r). (word_of_nat v, r)) (read_number 10 None True 65536 s))"

definition read_scope_id :: "string \<Rightarrow> (nat \<times> string) option" where
  "read_scope_id s = Option.bind (read_given_char (CHR ''%'') s)
     (read_number 10 None True (2 ^ 32))"

definition read_sock_v4 :: "string \<Rightarrow> (socket_addr \<times> string) option" where
  "read_sock_v4 s = Option.bind (read_ipv4 s) (\<lambda>(ip, s).
     map_option (\<lambda>(p, r). (\<lparr>sa_ip = IpV4 ip, sa_port = p\<rparr>, r)) (read_port s))"

definition read_sock_v6 :: "string \<Rightarrow> (socket_addr \<times> string) option" where
  "read_sock_v6 s = Option.bind (read_given_char (CHR ''['') s) (\<lambda>s.
     Option.bind (read_ipv6 s) (\<lambda>(ip, s).
     Option.bind (read_given_char (CHR '']'') (case read_scope_id s of Some (_, r) \<Rightarrow> r | None \<Rightarrow> s)) (\<lambda>s.
     map_option (\<lambda>(p, r). (\<lparr>sa_ip = IpV6 ip, sa_port = p\<rparr>, r)) (read_port s))))"

definition parse_sock :: "string \<Rightarrow> socket_addr option" where
  "parse_sock s = parse_all (\<lambda>s. case read_sock_v4 s of Some x \<Rightarrow> Some x | None \<Rightarrow> read_sock_v6 s) s"

section \<open>Formatting and parsing IPv4 addresses agree\<close>

lemma dec_str_small:
  "n < 10 \<Longrightarrow> dec_str n = [digit_char n]"
  "10 \<le> n \<Longrightarrow> n < 100 \<Longrightarrow> dec_str n = [digit_char (n div 10), digit_char (n mod 10)]"
  "100 \<le> n \<Longrightarrow> n < 1000 \<Longrightarrow>
     dec_str n = [digit_char (n div 100), digit_char (n div 10 mod 10), digit_char (n mod 10)]"
proof -
  have 1: "radix_str 10 m = [digit_char m]" if "m < 10" for m
    using that by (simp add: radix_str.simps [of 10 m])
  have 2: "radix_str 10 m = [digit_char (m div 10), digit_char (m mod 10)]"
    if "10 \<le> m" "m < 100" for m
    using that 1 [of "m div 10"] by (simp add: radix_str.simps [of 10 m])
  show "n < 10 \<Longrightarrow> dec_str n = [digit_char n]"
    by (simp add: dec_str_def 1)
  show "10 \<le> n \<Longrightarrow> n < 100 \<Longrightarrow> dec_str n = [digit_char (n div 10), digit_char (n mod 10)]"
    by (simp add: dec_str_def 2)
  assume n: "100 \<le> n" "n < 1000"
  then have "10 \<le> n div 10" "n div 10 < 100" by auto
  with n 2 [of "n div 10"] show
    "dec_str n = [digit_char (n div 100), digit_char (n div 10 mod 10), digit_char (n mod 10)]"
    by (simp add: dec_str_def radix_str.simps [of 10 n] div_mult2_eq [symmetric])
qed

lemma dec_str_len:
  "n < 10 \<Longrightarrow> length (dec_str n) = 1"
  "10 \<le> n \<Longrightarrow> n < 100 \<Longrightarrow> length (dec_str n) = 2"
  "100 \<le> n \<Longrightarrow> n < 1000 \<Longrightarrow> length (dec_str n) = 3"
  by (simp_all add: dec_str_small)

lemma dec_str_len3: "n < 256 \<Longrightarrow> length (dec_str n) \<le> 3"
  using dec_str_len [of n] by (cases "n < 10"; cases "n < 100") auto

lemma dec_str_no_zero_prefix:
  assumes "1 < length (dec_str n)" "n < 1000"
  shows "\<not> starts_with ''0'' (dec_str n @ r)"
proof -
  from assms have "10 \<le> n" using dec_str_len(1) [of n] by (cases "n < 10") auto
  have hd: "hd (dec_str n) = digit_char (if n < 100 then n div 10 else n div 100)"
    using \<open>10 \<le> n\<close> assms(2) by (simp add: dec_str_small)
  have "digit_char d \<noteq> CHR ''0''" if "0 < d" "d < 10" for d
    using that to_digit_digit_char [of d 10] by (auto simp: to_digit_def)
  then have "hd (dec_str n) \<noteq> CHR ''0''"
    unfolding hd using \<open>10 \<le> n\<close> assms(2) by auto
  then show ?thesis
    by (cases "dec_str n") (auto simp: starts_with_def dec_str_def)
qed

lemma read_octet_dec_str:
  assumes "r = [] \<or> to_digit 10 (hd r) = None"
  shows "read_octet (dec_str (unat (b :: byte)) @ r) = Some (b, r)"
proof -
  have b: "unat b < 256" using unsigned_less [of b, where 'a = nat] by simp
  have "read_digits 10 (dec_str (unat b) @ r) 0 0 = (unat b, length (dec_str (unat b)), r)"
    unfolding dec_str_def using assms by (intro read_digits_radix_str) simp_all
  moreover have "\<not> 3 < length (dec_str (unat b))" using dec_str_len3 [OF b] by simp
  moreover have "length (dec_str (unat b)) \<noteq> 0" by (simp add: dec_str_def)
  moreover have "1 < length (dec_str (unat b)) \<Longrightarrow> \<not> starts_with ''0'' (dec_str (unat b) @ r)"
    using dec_str_no_zero_prefix [of "unat b" r] b by simp
  ultimately show ?thesis
    using b by (auto simp: read_octet_def read_number_def)
qed

lemma to_digit_punct [simp]:
  "to_digit 10 (CHR ''.'') = None" "to_digit 10 (CHR '':'') = None"
  "to_digit 16 (CHR ''.'') = None" "to_digit 16 (CHR '':'') = None"
  "to_digit 10 (CHR '']'') = None" "to_digit 16 (CHR '']'') = None"
  by (simp_all add: to_digit_def)

lemma read_given_char_Cons [simp]: "read_given_char c (c # s) = Some s"
  by (simp add: read_given_char_def)

lemma read_ipv4_str:
  assumes "r = [] \<or> to_digit 10 (hd r) = None"
  shows "read_ipv4 (v4_str ip @ r) = Some (ip, r)"
proof (cases ip)
  case (Ipv4 a b c d)
  have dot: "read_octet (dec_str (unat x) @ CHR ''.'' # s) = Some (x, CHR ''.'' # s)" for x s
    by (rule read_octet_dec_str) simp
  show ?thesis
    using read_octet_dec_str [OF assms, of d]
    by (simp add: Ipv4 read_ipv4_def dot)
qed

lemma length_v4_str: "length (v4_str ip) \<le> 15"
proof (cases ip)
  case (Ipv4 a b c d)
  have "length (dec_str (unat (x :: byte))) \<le> 3" for x
    using unsigned_less [of x, where 'a = nat] by (intro dec_str_len3) simp
  from this [of a] this [of b] this [of c] this [of d] show ?thesis
    by (simp add: Ipv4)
qed

lemma parse_ipv4_str [simp]: "parse_ipv4 (v4_str ip) = Some ip"
  using read_ipv4_str [of "[]" ip] length_v4_str [of ip]
  by (simp add: parse_ipv4_def parse_all_def)

lemma v4_str_chars: "c \<in> set (v4_str ip) \<Longrightarrow> c = CHR ''.'' \<or> (48 \<le> (of_char c :: nat) \<and> (of_char c :: nat) \<le> 57)"
  by (cases ip) (auto dest: dec_str_digits)

lemma v4_str_no_colon [simp]: "CHR '':'' \<notin> set (v4_str ip)"
  using v4_str_chars [of "CHR '':''" ip] by auto

lemma v4_str_not_Nil [simp]: "v4_str ip \<noteq> []"
  by (cases ip) simp

section \<open>Formatting and parsing IPv6 addresses agree\<close>

lemma length_radix_str: "2 \<le> r \<Longrightarrow> n < r ^ Suc k \<Longrightarrow> length (radix_str r n) \<le> Suc k"
proof (induction k arbitrary: n)
  case 0
  then show ?case by (subst radix_str.simps) simp
next
  case (Suc k)
  have "n div r < r ^ Suc k"
    using Suc.prems by (simp add: less_mult_imp_div_less mult.commute)
  with Suc show ?case by (subst radix_str.simps) simp
qed

lemma length_hex_str: "length (hex_str (unat (s :: u16))) \<le> 4"
  using length_radix_str [of 16 "unat s" 3] unsigned_less [of s, where 'a = nat]
  by (simp add: hex_str_def)

lemma read_number_hex:
  assumes "r = [] \<or> to_digit 16 (hd r) = None"
  shows "read_number 16 (Some 4) True 65536 (hex_str (unat (s :: u16)) @ r) = Some (unat s, r)"
proof -
  have "read_digits 16 (hex_str (unat s) @ r) 0 0 = (unat s, length (hex_str (unat s)), r)"
    unfolding hex_str_def using assms by (intro read_digits_radix_str) simp_all
  then show ?thesis
    using length_hex_str [of s] unsigned_less [of s, where 'a = nat]
    by (simp add: read_number_def hex_str_def)
qed

lemma read_digits_suffix: "read_digits r s acc n = (v, m, rest) \<Longrightarrow> set rest \<subseteq> set s"
  by (induction r s acc n rule: read_digits.induct) (auto split: option.splits)

lemma read_ipv4_no_dot: "CHR ''.'' \<notin> set s \<Longrightarrow> read_ipv4 s = None"
proof -
  assume nd: "CHR ''.'' \<notin> set s"
  have "read_given_char (CHR ''.'') rest = None" if "read_octet s = Some (b, rest)" for b rest
  proof -
    from that have "set rest \<subseteq> set s"
      by (auto simp: read_octet_def read_number_def split: prod.splits if_splits
          dest: read_digits_suffix)
    with nd show ?thesis by (cases rest) (auto simp: read_given_char_def)
  qed
  then show ?thesis by (cases "read_octet s") (auto simp: read_ipv4_def)
qed

lemma read_number_no_digit:
  "s = [] \<or> to_digit r (hd s) = None \<Longrightarrow> read_number r m z lim s = None"
  by (cases s) (auto simp: read_number_def split: option.splits)

lemma read_ipv4_no_digit: "s = [] \<or> to_digit 10 (hd s) = None \<Longrightarrow> read_ipv4 s = None"
  by (simp add: read_ipv4_def read_octet_def read_number_no_digit)

lemma hex_str_no_dot [simp]: "CHR ''.'' \<notin> set (hex_str n)"
  using radix_str_digits [of 16 n] by (auto simp: hex_str_def)

text \<open>What may follow the groups: the end, a closing bracket, or the compressed zeros.\<close>

definition group_stop :: "string \<Rightarrow> bool" where
  "group_stop r = (CHR ''.'' \<notin> set r \<and> (r = [] \<or> hd r = CHR '']'' \<or> take 2 r = ''::''))"

definition colon_segs :: "u16 list \<Rightarrow> string" where
  "colon_segs ss = concat (map (\<lambda>s. '':'' @ hex_str (unat s)) ss)"

lemma colon_segs_simps [simp]:
  "colon_segs [] = []" "colon_segs (s # ss) = CHR '':'' # hex_str (unat s) @ colon_segs ss"
  by (simp_all add: colon_segs_def)

lemma segs_str_Cons: "segs_str (s # ss) = hex_str (unat s) @ colon_segs ss"
  by (induction ss arbitrary: s) (simp_all add: segs_str_def)

lemma colon_segs_no_dot [simp]: "CHR ''.'' \<notin> set (colon_segs ss)"
  by (induction ss) auto

lemma segs_str_no_dot [simp]: "CHR ''.'' \<notin> set (segs_str ss)"
  by (cases ss) (simp_all add: segs_str_Cons, simp add: segs_str_def)

lemma group_stopE:
  assumes "group_stop r"
  obtains "r = []" | t where "r = CHR '']'' # t" | t where "r = CHR '':'' # CHR '':'' # t"
  using assms by (cases r; cases "tl r") (auto simp: group_stop_def)

lemma group_stop_dot: "group_stop r \<Longrightarrow> CHR ''.'' \<notin> set r"
  by (simp add: group_stop_def)

lemma read_groups_stop:
  assumes "group_stop r"
  shows "read_groups i k r = ([], False, r)"
proof (cases k)
  case (Suc k')
  have "Option.bind (read_sep i r) read_ipv4 = None"
    using assms
    by (auto elim!: group_stopE simp: read_sep_def read_given_char_def read_ipv4_no_digit)
  moreover have "Option.bind (read_sep i r) (read_number 16 (Some 4) True 65536) = None"
    using assms
    by (auto elim!: group_stopE simp: read_sep_def read_given_char_def read_number_no_digit)
  ultimately show ?thesis by (simp add: Suc)
qed simp

lemma read_groups_one:
  assumes "CHR ''.'' \<notin> set rest" "rest = [] \<or> to_digit 16 (hd rest) = None"
    and "read_sep i s = Some (hex_str (unat x) @ rest)"
  shows "read_groups i (Suc k) s = (case read_groups (Suc i) k rest of (gs, b, r) \<Rightarrow> (x # gs, b, r))"
  using assms by (simp add: read_ipv4_no_dot read_number_hex)

lemma colon_segs_follow:
  "group_stop r \<Longrightarrow> colon_segs ss @ r = [] \<or> to_digit 16 (hd (colon_segs ss @ r)) = None"
  by (cases ss) (auto elim!: group_stopE)

lemma read_groups_colon:
  assumes "length ss \<le> k" "group_stop r"
  shows "read_groups (Suc i) k (colon_segs ss @ r) = (ss, False, r)"
  using assms(1)
proof (induction ss arbitrary: i k)
  case Nil
  then show ?case using assms(2) by (simp add: read_groups_stop)
next
  case (Cons s ss)
  then obtain k' where k: "k = Suc k'" by (cases k) auto
  have "read_groups (Suc i) (Suc k') (colon_segs (s # ss) @ r) =
      (case read_groups (Suc (Suc i)) k' (colon_segs ss @ r) of (gs, b, q) \<Rightarrow> (s # gs, b, q))"
    using assms(2)
    by (intro read_groups_one colon_segs_follow) (simp_all add: read_sep_def group_stop_dot)
  with Cons k show ?case by simp
qed

lemma read_groups_segs:
  assumes "length ss \<le> k" "group_stop r"
  shows "read_groups 0 k (segs_str ss @ r) = (ss, False, r)"
proof (cases ss)
  case Nil
  then show ?thesis using assms(2) by (simp add: segs_str_def read_groups_stop)
next
  case (Cons s ss')
  with assms obtain k' where k: "k = Suc k'" by (cases k) auto
  have "read_groups 0 (Suc k') (segs_str (s # ss') @ r) =
      (case read_groups (Suc 0) k' (colon_segs ss' @ r) of (gs, b, q) \<Rightarrow> (s # gs, b, q))"
    using assms(2)
    by (intro read_groups_one colon_segs_follow)
      (simp_all add: read_sep_def group_stop_dot segs_str_Cons)
  with assms Cons k show ?thesis by (simp add: read_groups_colon)
qed

lemma zero_run_spec:
  assumes "zero_run i l c ss = (a, n)" and i: "length pre = i"
    and l: "fst l + snd l \<le> i" "\<forall>j < snd l. (pre @ ss) ! (fst l + j) = 0"
    and c: "snd c \<noteq> 0 \<longrightarrow> fst c + snd c = i" "\<forall>j < snd c. (pre @ ss) ! (fst c + j) = 0"
  shows "a + n \<le> length (pre @ ss) \<and> (\<forall>j < n. (pre @ ss) ! (a + j) = 0)"
  using assms
proof (induction i l c ss arbitrary: pre rule: zero_run.induct)
  case (1 i l c)
  then show ?case by (cases l) auto
next
  case (2 i l c s ss)
  let ?cur = "if snd c = 0 then (i, 1) else (fst c, Suc (snd c))"
  let ?p = "pre @ [s]"
  show ?case
  proof (cases "s = 0")
    case True
    have cur: "fst ?cur + snd ?cur = Suc i" "\<forall>j < snd ?cur. (?p @ ss) ! (fst ?cur + j) = 0"
      using 2(4,7,8) True by (auto simp: less_Suc_eq nth_append)
    have "a + n \<le> length (?p @ ss) \<and> (\<forall>j < n. (?p @ ss) ! (a + j) = 0)"
    proof (rule 2(1) [OF True refl])
      show "zero_run (Suc i) (if snd l < snd ?cur then ?cur else l) ?cur ss = (a, n)"
        using 2(3) True by (simp add: Let_def)
    qed (use 2(4-6) cur in auto)
    then show ?thesis by simp
  next
    case False
    have "a + n \<le> length (?p @ ss) \<and> (\<forall>j < n. (?p @ ss) ! (a + j) = 0)"
    proof (rule 2(2) [OF False])
      show "zero_run (Suc i) l (0, 0) ss = (a, n)" using 2(3) False by simp
    qed (use 2(4-6) in auto)
    then show ?thesis by simp
  qed
qed

lemma zero_run_split:
  assumes "zero_run 0 (0, 0) (0, 0) ss = (a, n)"
  shows "a + n \<le> length ss \<and> ss = take a ss @ replicate n 0 @ drop (a + n) ss"
proof -
  have z: "a + n \<le> length ss" "\<forall>j < n. ss ! (a + j) = 0"
    using zero_run_spec [OF assms, of "[]"] by auto
  have "take n (drop a ss) = replicate n 0"
    using z by (intro nth_equalityI) auto
  moreover have "ss = take a ss @ take n (drop a ss) @ drop (a + n) ss"
    by (metis append_take_drop_id drop_drop add.commute)
  ultimately show ?thesis using z(1) by simp
qed

lemma read_groups_front:
  "to_digit 10 c = None \<Longrightarrow> to_digit 16 c = None \<Longrightarrow> read_groups 0 k (c # s) = ([], False, c # s)"
  by (cases k) (simp_all add: read_sep_def read_ipv4_no_digit read_number_no_digit)

lemma read_groups_Suc:
  "0 < k \<Longrightarrow> read_sep i s = Some s' \<Longrightarrow> read_ipv4 s' = None \<Longrightarrow>
   read_number 16 (Some 4) True 65536 s' = Some (v, r) \<Longrightarrow>
   read_groups i (Suc k) s = (case read_groups (Suc i) k r of (gs, b, q) \<Rightarrow> (word_of_nat v # gs, b, q))"
  by simp

lemma read_groups_v4:
  "0 < k \<Longrightarrow> read_sep i s = Some s' \<Longrightarrow> read_ipv4 s' = Some (ip, r) \<Longrightarrow>
   read_groups i (Suc k) s = (be_segments (v4_octets ip), True, r)"
  by simp

lemma read_ipv6_mapped:
  assumes "r = [] \<or> hd r = CHR '']''"
  shows "read_ipv6 (''::ffff:'' @ v4_str v4 @ r) = Some (to_ipv6_mapped v4, r)"
proof -
  let ?t = "''ffff:'' @ v4_str v4 @ r"
  have ff: "hex_str 65535 = ''ffff''"
    by (simp add: hex_str_def radix_str.simps digit_char_def char_of_def bit_0)
  have h: "read_groups 0 8 (''::'' @ ?t) = ([], False, ''::'' @ ?t)"
    by (simp add: read_groups_front)
  have v4: "read_ipv4 (v4_str v4 @ r) = Some (v4, r)"
    using assms by (intro read_ipv4_str) auto
  have n: "read_number 16 (Some 4) True 65536 ?t = Some (65535, CHR '':'' # v4_str v4 @ r)"
    using read_number_hex [of "CHR '':'' # v4_str v4 @ r" "0xFFFF"] by (simp add: ff)
  have f: "read_ipv4 ?t = None"
    by (rule read_ipv4_no_digit) (simp add: to_digit_def)
  have t1: "read_groups (Suc 0) (Suc 5) (CHR '':'' # v4_str v4 @ r) =
      (be_segments (v4_octets v4), True, r)"
    using v4 by (intro read_groups_v4) (simp_all add: read_sep_def)
  have t: "read_groups 0 (Suc 6) ?t = (65535 # be_segments (v4_octets v4), True, r)"
    using read_groups_Suc [OF _ _ f n, of 6 0 ?t] t1 by (simp add: read_sep_def)
  have "replicate 5 (0 :: u16) = [0, 0, 0, 0, 0]"
    by (simp add: numeral_eq_Suc)
  with h t show ?thesis
    by (cases v4) (simp add: read_ipv6_def)
qed

lemma read_ipv6_str:
  assumes "r = [] \<or> hd r = CHR '']''" "CHR ''.'' \<notin> set r"
  shows "read_ipv6 (v6_str ip @ r) = Some (ip, r)"
proof (cases "to_ipv4_mapped ip")
  case (Some v4)
  then have "to_ipv6_mapped v4 = ip"
    by (cases ip) (auto simp: u16_to_be_def u16_be_parts split: if_splits)
  with read_ipv6_mapped [OF assms(1), of v4] Some show ?thesis by (simp add: v6_str_def)
next
  case None
  have stop: "group_stop r" using assms by (auto simp: group_stop_def)
  obtain a n where z: "zero_run 0 (0, 0) (0, 0) (segments ip) = (a, n)" by fastforce
  let ?hd = "take a (segments ip)" and ?tl = "drop (a + n) (segments ip)"
  note split = zero_run_split [OF z]
  show ?thesis
  proof (cases "1 < n")
    case False
    have "read_groups 0 8 (segs_str (segments ip) @ r) = (segments ip, False, r)"
      using stop by (intro read_groups_segs) simp_all
    with False None z show ?thesis by (simp add: v6_str_def read_ipv6_def)
  next
    case True
    have la: "a + n \<le> 8" using split by simp
    have stop2: "group_stop (''::'' @ segs_str ?tl @ r)"
      using assms(2) by (simp add: group_stop_def)
    have h: "read_groups 0 8 (segs_str ?hd @ ''::'' @ segs_str ?tl @ r) =
        (?hd, False, ''::'' @ segs_str ?tl @ r)"
      using stop2 by (intro read_groups_segs) simp_all
    have t: "read_groups 0 (8 - (a + 1)) (segs_str ?tl @ r) = (?tl, False, r)"
      using stop la True by (intro read_groups_segs) simp_all
    have "?hd @ replicate (8 - a - (8 - (a + n))) 0 @ ?tl = segments ip"
      using split la by simp
    then have "v6_of_segments (?hd @ replicate (8 - a - (8 - (a + n))) 0 @ ?tl) = ip"
      by simp
    with h t None z True la show ?thesis
      by (simp add: v6_str_def read_ipv6_def Let_def min_absorb2)
  qed
qed

lemma parse_ipv6_str [simp]: "parse_ipv6 (v6_str ip) = Some ip"
  using read_ipv6_str [of "[]" ip] by (simp add: parse_ipv6_def parse_all_def)

lemma read_ipv4_v6_str:
  assumes "CHR ''.'' \<notin> set r"
  shows "read_ipv4 (v6_str ip @ r) = None"
proof (cases "to_ipv4_mapped ip")
  case (Some v4)
  then show ?thesis by (simp add: v6_str_def read_ipv4_no_digit)
next
  case None
  then show ?thesis
    using assms by (intro read_ipv4_no_dot) (auto simp: v6_str_def Let_def)
qed

lemma parse_ip_str [simp]: "parse_ip (ip_str ip) = Some ip"
proof (cases ip)
  case (IpV4 v4)
  then show ?thesis
    using read_ipv4_str [of "[]" v4] by (simp add: parse_ip_def parse_all_def)
next
  case (IpV6 v6)
  then show ?thesis
    using read_ipv6_str [of "[]" v6] read_ipv4_v6_str [of "[]" v6]
    by (simp add: parse_ip_def parse_all_def)
qed

lemma read_port_str: "read_port ('':'' @ dec_str (unat p)) = Some (p, [])"
proof -
  have "read_digits 10 (dec_str (unat p)) 0 0 = (unat p, length (dec_str (unat p)), [])"
    using read_digits_radix_str [of 10 "[]" "unat p"] by (simp add: dec_str_def)
  moreover have "unat p < 65536" using unsigned_less [of p, where 'a = nat] by simp
  ultimately show ?thesis by (simp add: read_port_def read_number_def dec_str_def)
qed

text \<open>\<open>SocketAddr\<close>: what \<open>Display\<close> prints is parsed back to the same address.\<close>

lemma parse_sock_str [simp]: "parse_sock (sock_str a) = Some a"
proof (cases "sa_ip a")
  case (IpV4 ip)
  have "read_ipv4 (v4_str ip @ '':'' @ dec_str (unat (sa_port a))) =
      Some (ip, '':'' @ dec_str (unat (sa_port a)))"
    by (rule read_ipv4_str) simp
  with IpV4 read_port_str [of "sa_port a"] show ?thesis
    by (cases a) (simp add: sock_str_def parse_sock_def parse_all_def read_sock_v4_def)
next
  case (IpV6 ip)
  have "CHR ''.'' \<notin> set (dec_str n)" for n
    using dec_str_digits [of "CHR ''.''" n] by auto
  then have "read_ipv6 (v6_str ip @ '']:'' @ dec_str (unat (sa_port a))) =
      Some (ip, '']:'' @ dec_str (unat (sa_port a)))"
    by (intro read_ipv6_str) simp_all
  with IpV6 read_port_str [of "sa_port a"] show ?thesis
    by (cases a) (simp add: sock_str_def parse_sock_def parse_all_def read_sock_v4_def
        read_sock_v6_def read_scope_id_def read_given_char_def read_ipv4_no_digit to_digit_def)
qed

section \<open>The IPv4 parser accepts only the canonical text\<close>

lemma digit_char_to_digit: "to_digit 10 c = Some d \<Longrightarrow> digit_char d = c \<and> d < 10"
  by (auto simp: to_digit_def digit_char_def Let_def split: if_splits)

lemma fold_digits_pos:
  "0 < acc \<Longrightarrow> 0 < fold (\<lambda>c v. v * 10 + the (to_digit 10 c)) ds acc"
  by (induction ds arbitrary: acc) auto

lemma radix_str_of_value:
  assumes "ds \<noteq> []" "\<forall>c \<in> set ds. to_digit 10 c \<noteq> None" "length ds = 1 \<or> hd ds \<noteq> CHR ''0''"
  shows "dec_str (fold (\<lambda>c v. v * 10 + the (to_digit 10 c)) ds 0) = ds"
  using assms
proof (induction ds rule: rev_induct)
  case (snoc c ds)
  let ?v = "\<lambda>xs. fold (\<lambda>c v. v * 10 + the (to_digit 10 c)) xs 0"
  obtain d where d: "to_digit 10 c = Some d" using snoc.prems(2) by auto
  note dc = digit_char_to_digit [OF d]
  show ?case
  proof (cases "ds = []")
    case True
    with d dc show ?thesis by (simp add: dec_str_def radix_str.simps [of 10 d])
  next
    case False
    then obtain x xs where ds: "ds = x # xs" by (cases ds) auto
    have x0: "x \<noteq> CHR ''0''" using snoc.prems(3) ds by simp
    obtain e where e: "to_digit 10 x = Some e" using snoc.prems(2) ds by auto
    have "e \<noteq> 0" using digit_char_to_digit [OF e] x0 by (auto simp: digit_char_def char_of_def bit_0)
    then have pos: "0 < ?v ds" using e by (simp add: ds fold_digits_pos)
    have IH: "dec_str (?v ds) = ds"
      using snoc False x0 ds by auto
    have "dec_str (?v ds * 10 + d) = dec_str (?v ds) @ [digit_char d]"
      using pos dc by (simp add: dec_str_def radix_str.simps [of 10 "?v ds * 10 + d"])
    with IH d dc show ?thesis by simp
  qed
qed simp

lemma read_digits_split:
  "read_digits r s acc n = (v, m, rest) \<Longrightarrow>
   \<exists>ds. s = ds @ rest \<and> (\<forall>c \<in> set ds. to_digit r c \<noteq> None) \<and> m = n + length ds \<and>
     v = fold (\<lambda>c v. v * r + the (to_digit r c)) ds acc"
proof (induction r s acc n arbitrary: v m rest rule: read_digits.induct)
  case (1 r acc n)
  then show ?case by auto
next
  case (2 r c cs acc n)
  show ?case
  proof (cases "to_digit r c")
    case None
    with 2 show ?thesis by (intro exI [of _ "[]"]) auto
  next
    case (Some d)
    with 2 obtain ds where "cs = ds @ rest" "\<forall>c \<in> set ds. to_digit r c \<noteq> None"
      "m = Suc n + length ds" "v = fold (\<lambda>c v. v * r + the (to_digit r c)) ds (acc * r + d)"
      by fastforce
    with Some show ?thesis by (intro exI [of _ "c # ds"]) auto
  qed
qed

lemma read_octet_canonical: "read_octet s = Some (b, rest) \<Longrightarrow> s = dec_str (unat b) @ rest"
proof -
  assume "read_octet s = Some (b, rest)"
  then obtain v where "read_number 10 (Some 3) False 256 s = Some (v, rest)" and b: "b = word_of_nat v"
    by (auto simp: read_octet_def)
  then obtain n where rd: "read_digits 10 s 0 0 = (v, n, rest)" "n \<noteq> 0" "v < 256"
    "\<not> (starts_with ''0'' s \<and> 1 < n)"
    by (auto simp: read_number_def split: prod.splits if_splits)
  from read_digits_split [OF rd(1)] obtain ds where s: "s = ds @ rest"
    and ds: "\<forall>c \<in> set ds. to_digit 10 c \<noteq> None" "n = length ds"
      "v = fold (\<lambda>c v. v * 10 + the (to_digit 10 c)) ds 0"
    by auto
  have "length ds = 1 \<or> hd ds \<noteq> CHR ''0''"
    using rd(2,4) ds(2) by (cases ds) (auto simp: s starts_with_def)
  then have "dec_str v = ds" using rd(2) ds by (simp add: radix_str_of_value)
  with s b rd(3) show ?thesis by (simp add: unat_of_nat)
qed

lemma read_given_char_Some: "read_given_char c s = Some r \<longleftrightarrow> s = c # r"
  by (cases s) (auto simp: read_given_char_def)

lemma parse_ipv4_canonical: "parse_ipv4 s = Some ip \<Longrightarrow> v4_str ip = s"
proof -
  assume "parse_ipv4 s = Some ip"
  then have "read_ipv4 s = Some (ip, [])"
    by (auto simp: parse_ipv4_def parse_all_def split: if_splits option.splits list.splits)
  then show ?thesis
    by (auto simp: read_ipv4_def read_given_char_Some bind_eq_Some_conv dest!: read_octet_canonical)
qed

lemma parse_ipv4_no_colon: "parse_ipv4 s = Some ip \<Longrightarrow> CHR '':'' \<notin> set s"
  using parse_ipv4_canonical [of s ip] v4_str_no_colon [of ip] by simp

lemma colon_in_v6_str [simp]: "CHR '':'' \<in> set (v6_str ip)"
proof (cases "to_ipv4_mapped ip")
  case None
  then show ?thesis by (cases ip) (simp add: v6_str_def Let_def segs_str_Cons)
qed (simp add: v6_str_def)

lemma rust_str_ascii: "\<forall>c \<in> set s. (of_char c :: nat) < 128 \<Longrightarrow> rust_str s"
  unfolding rust_str_def
  by (intro utf8_valid_ascii) (auto simp: str_bytes_def word_le_nat_alt)

text \<open>An IPv6 literal has a colon.\<close>

lemma read_given_char_notin: "c \<notin> set s \<Longrightarrow> read_given_char c s = None"
  by (cases s) (auto simp: read_given_char_def)

lemma read_groups_no_colon: "CHR '':'' \<notin> set s \<Longrightarrow> read_groups (Suc i) k s = ([], False, s)"
  by (cases k) (simp_all add: read_sep_def read_given_char_notin)

lemma read_number_suffix: "read_number r m z lim s = Some (v, rest) \<Longrightarrow> set rest \<subseteq> set s"
  by (auto simp: read_number_def split: prod.splits if_splits dest: read_digits_suffix)

lemma parse_ipv6_no_colon:
  assumes nc: "CHR '':'' \<notin> set s"
  shows "parse_ipv6 s = None"
proof -
  have suf: "read_groups (Suc 0) k r = ([], False, r)"
    if "read_number 16 (Some 4) True 65536 s = Some (v, r)" for v r k
    using nc read_number_suffix [OF that] by (intro read_groups_no_colon) auto
  have nc': "read_given_char (CHR '':'') r = None"
    if "read_number 16 (Some 4) True 65536 s = Some (v, r)" for v r
    using nc read_number_suffix [OF that] by (intro read_given_char_notin) auto
  have "read_groups 0 (Suc k) s =
      (case read_ipv4 s of Some (ip, r) \<Rightarrow> (be_segments (v4_octets ip), True, r)
       | None \<Rightarrow> (case read_number 16 (Some 4) True 65536 s of
           Some (v, r) \<Rightarrow> ([word_of_nat v], False, r) | None \<Rightarrow> ([], False, s)))" if "0 < k" for k
    using that by (auto simp: read_sep_def suf split: option.splits)
  note g = this [of 7, simplified]
  have "length (be_segments (v4_octets ip)) = 2" for ip by (cases ip) simp
  then have "read_ipv6 s = None"
    unfolding read_ipv6_def using g nc
    by (auto simp: read_given_char_notin nc' split: option.splits)
  then show ?thesis by (simp add: parse_ipv6_def parse_all_def)
qed

text \<open>Printed addresses are ASCII.\<close>

lemma hex_str_ascii: "c \<in> set (hex_str n) \<Longrightarrow> (of_char c :: nat) < 128"
  using radix_str_digits [of 16 n] by (auto simp: hex_str_def to_digit_def Let_def split: if_splits)

lemma segs_str_ascii: "c \<in> set (segs_str ss) \<Longrightarrow> (of_char c :: nat) < 128"
  unfolding segs_str_def by (induction ss rule: induct_list012) (auto dest: hex_str_ascii)

lemma rust_str_ip_str [simp]: "rust_str (ip_str ip)"
proof (rule rust_str_ascii, rule ballI)
  have v4: "(of_char c :: nat) < 128" if "c \<in> set (v4_str a)" for c a
    using v4_str_chars [OF that] by auto
  fix c assume "c \<in> set (ip_str ip)"
  then show "(of_char c :: nat) < 128"
    using v4 by (cases ip)
      (auto simp: v6_str_def Let_def split: option.splits if_splits dest: segs_str_ascii)
qed

lemma v6_str_notin:
  assumes "to_digit 16 x = None" "x \<noteq> CHR '':''" "x \<noteq> CHR ''.''"
  shows "x \<notin> set (v6_str ip)"
proof -
  have h: "x \<notin> set (hex_str n)" for n
    using radix_str_digits [of 16 n] assms(1) by (auto simp: hex_str_def)
  have "x \<notin> set (segs_str ss)" for ss
    unfolding segs_str_def using h assms(2) by (induction ss rule: induct_list012) auto
  moreover have "x \<notin> set (v4_str a)" for a
    using v4_str_chars [of x a] assms(1,3) by (auto simp: to_digit_def Let_def split: if_splits)
  moreover have "x \<noteq> CHR ''f''" using assms(1) by (auto simp: to_digit_def)
  ultimately show ?thesis using assms(2) by (auto simp: v6_str_def Let_def split: option.splits)
qed

lemma v6_str_no_bracket:
  "CHR ''['' \<notin> set (v6_str ip)" "CHR '']'' \<notin> set (v6_str ip)" "CHR ''/'' \<notin> set (v6_str ip)" "CHR ''@'' \<notin> set (v6_str ip)"
  by (rule v6_str_notin; simp add: to_digit_def)+

lemma parse_ipv6_bracket: "parse_ipv6 (CHR ''['' # s) = None"
proof -
  have d: "to_digit r (CHR ''['') = None" if "r \<le> 16" for r using that by (simp add: to_digit_def)
  have "read_number 16 m z lim (CHR ''['' # s) = None" for m z lim
    using d [of 16] by (intro read_number_no_digit) simp
  moreover have "read_ipv4 (CHR ''['' # s) = None" using d [of 10] by (intro read_ipv4_no_digit) simp
  ultimately have "read_groups 0 8 (CHR ''['' # s) = ([], False, CHR ''['' # s)"
    by (simp add: eval_nat_numeral read_sep_def)
  then show ?thesis by (simp add: parse_ipv6_def parse_all_def read_ipv6_def read_given_char_def)
qed

text \<open>Text that starts neither like an IPv4 address nor with a bracket is no socket address.\<close>

lemma parse_sock_None:
  "read_ipv4 s = None \<Longrightarrow> s = [] \<or> hd s \<noteq> CHR ''['' \<Longrightarrow> parse_sock s = None"
  by (cases s) (auto simp: parse_sock_def parse_all_def read_sock_v4_def read_sock_v6_def read_given_char_def)

end
