(* ===== verification/Config.thy ===== *)
theory Config
  imports Rust_Net Consts
begin

text \<open>
  \<open>common/src/config.rs\<close>, \<open>common/src/link.rs\<close> and \<open>common/src/cert.rs\<close>: the configuration, its
  checks and exports, share links, and the choice of a domain from a certificate.

  Parameters: \<open>uuid_ok\<close> (\<open>Uuid::parse_str\<close> succeeds), \<open>exists_file\<close> (\<open>Path::exists\<close>) and
  \<open>serialize\<close> (\<open>form_urlencoded::Serializer\<close>: what \<open>append_pair("", v).finish()\<close> returns).  A
  \<open>serde_json::Map\<close> is the list of its insertions; printing it as text is left to
  \<open>serde_json\<close>.
\<close>

section \<open>Configuration\<close>

record config =
  cf_server :: string
  cf_uuid :: string
  cf_password :: string
  cf_sni :: string
  cf_allow_insecure :: bool
  cf_pinned_certchain_sha256 :: string
  cf_protect_path :: string
  cf_forward :: "(string, string) hashmap"
  cf_fwmark :: "u32 option"
  cf_users :: "(string, string) hashmap"
  cf_certificate :: string
  cf_private_key :: string
  cf_send_through :: string
  cf_dialer_link :: string
  cf_disable_outbound_udp443 :: bool
  cf_listen :: string
  cf_congestion_control :: string
  cf_log_level :: string
  cf_initial_rtt :: "u64 option"
  cf_keep_alive_interval :: "u64 option"
  cf_underlay_evict_timeout :: "u64 option"
  cf_enable_0rtt :: "bool option"

definition config_default :: config where
  "config_default = \<lparr>
     cf_server = [], cf_uuid = [], cf_password = [], cf_sni = [], cf_allow_insecure = False,
     cf_pinned_certchain_sha256 = [], cf_protect_path = [], cf_forward = [], cf_fwmark = None,
     cf_users = [], cf_certificate = [], cf_private_key = [], cf_send_through = [], cf_dialer_link = [],
     cf_disable_outbound_udp443 = False, cf_listen = [], cf_congestion_control = ''bbr'',
     cf_log_level = ''info'', cf_initial_rtt = None, cf_keep_alive_interval = None,
     cf_underlay_evict_timeout = None, cf_enable_0rtt = None\<rparr>"

datatype config_error =
    Required string
  | NotHostPort string
  | InvalidUuid string
  | InvalidUserUuid string
  | UserPasswordRequired string
  | FileNotFound string
  | NoUsers

definition ensure :: "bool \<Rightarrow> 'e \<Rightarrow> 'e + unit" where
  "ensure b e = (if b then Inr () else Inl e)"

definition validate_for_client :: "(string \<Rightarrow> bool) \<Rightarrow> config \<Rightarrow> config_error + unit" where
  "validate_for_client uuid_ok c =
     and_then (ensure (cf_server c \<noteq> []) (Required ''server'')) (\<lambda>_.
     and_then (ensure (contains_char (CHR '':'') (cf_server c)) (NotHostPort ''server'')) (\<lambda>_.
     and_then (ensure (cf_uuid c \<noteq> []) (Required ''uuid'')) (\<lambda>_.
     and_then (ensure (uuid_ok (cf_uuid c)) (InvalidUuid (cf_uuid c))) (\<lambda>_.
     and_then (ensure (cf_password c \<noteq> []) (Required ''password'')) (\<lambda>_.
     and_then (ensure (\<not> (cf_listen c = [] \<and> cf_forward c = [])) (Required ''listen'')) (\<lambda>_.
       ensure (\<not> (cf_listen c \<noteq> [] \<and> \<not> contains_char (CHR '':'') (cf_listen c))) (NotHostPort ''listen'')))))))"

fun validate_users :: "(string \<Rightarrow> bool) \<Rightarrow> (string \<times> string) list \<Rightarrow> config_error + unit" where
  "validate_users uuid_ok [] = Inr ()"
| "validate_users uuid_ok ((uid, pw) # us) =
     and_then (ensure (uuid_ok uid) (InvalidUserUuid uid)) (\<lambda>_.
     and_then (ensure (pw \<noteq> []) (UserPasswordRequired uid)) (\<lambda>_. validate_users uuid_ok us))"

definition validate_for_server :: "(string \<Rightarrow> bool) \<Rightarrow> (string \<Rightarrow> bool) \<Rightarrow> config \<Rightarrow> config_error + unit" where
  "validate_for_server uuid_ok exists_file c =
     and_then (ensure (cf_listen c \<noteq> []) (Required ''listen'')) (\<lambda>_.
     and_then (ensure (contains_char (CHR '':'') (cf_listen c)) (NotHostPort ''listen'')) (\<lambda>_.
     and_then (ensure (cf_users c \<noteq> []) (Required ''users'')) (\<lambda>_.
     and_then (validate_users uuid_ok (cf_users c)) (\<lambda>_.
     and_then (ensure (cf_certificate c \<noteq> []) (Required ''certificate'')) (\<lambda>_.
     and_then (ensure (exists_file (cf_certificate c)) (FileNotFound (cf_certificate c))) (\<lambda>_.
     and_then (ensure (cf_private_key c \<noteq> []) (Required ''private_key'')) (\<lambda>_.
       ensure (exists_file (cf_private_key c)) (FileNotFound (cf_private_key c)))))))))"

section \<open>JSON exports\<close>

datatype json = JStr string | JBool bool | JNum nat | JMap "(string \<times> string) list"

definition opt_fwmark :: "config \<Rightarrow> (string \<times> json) list" where
  "opt_fwmark c = (case cf_fwmark c of Some m \<Rightarrow> [(''fwmark'', JNum (unat m))] | None \<Rightarrow> [])"

definition opt_str :: "string \<Rightarrow> string \<Rightarrow> (string \<times> json) list" where
  "opt_str key v = (if v \<noteq> [] then [(key, JStr v)] else [])"

definition opt_true :: "string \<Rightarrow> bool \<Rightarrow> (string \<times> json) list" where
  "opt_true key b = (if b then [(key, JBool True)] else [])"

definition to_server_json :: "config \<Rightarrow> (string \<times> json) list" where
  "to_server_json c =
     [(''listen'', JStr (cf_listen c)), (''users'', JMap (cf_users c)),
      (''certificate'', JStr (cf_certificate c)), (''private_key'', JStr (cf_private_key c)),
      (''congestion_control'', JStr (cf_congestion_control c)), (''log_level'', JStr (cf_log_level c))]
     @ opt_fwmark c @ opt_str ''send_through'' (cf_send_through c) @ opt_str ''dialer_link'' (cf_dialer_link c)
     @ opt_true ''disable_outbound_udp443'' (cf_disable_outbound_udp443 c)"

definition to_client_json :: "config \<Rightarrow> (string \<times> json) list" where
  "to_client_json c =
     [(''server'', JStr (cf_server c)), (''uuid'', JStr (cf_uuid c)), (''password'', JStr (cf_password c))]
     @ opt_str ''sni'' (cf_sni c) @ opt_true ''allow_insecure'' (cf_allow_insecure c)
     @ opt_str ''pinned_certchain_sha256'' (cf_pinned_certchain_sha256 c)
     @ [(''congestion_control'', JStr (cf_congestion_control c))]
     @ opt_str ''listen'' (cf_listen c)
     @ (if cf_forward c \<noteq> [] then [(''forward'', JMap (cf_forward c))] else [])
     @ opt_fwmark c @ [(''log_level'', JStr (cf_log_level c))]"

definition to_client_json_from_server :: "u16 \<Rightarrow> config \<Rightarrow> config_error + (string \<times> json) list" where
  "to_client_json_from_server socks_port c =
     (case cf_users c of
        [] \<Rightarrow> Inl NoUsers
      | (uid, pw) # _ \<Rightarrow> Inr (
          [(''server'', JStr (cf_listen c)), (''uuid'', JStr uid), (''password'', JStr pw)]
          @ opt_str ''sni'' (cf_sni c) @ opt_true ''allow_insecure'' (cf_allow_insecure c)
          @ opt_str ''pinned_certchain_sha256'' (cf_pinned_certchain_sha256 c)
          @ [(''congestion_control'', JStr (cf_congestion_control c)),
             (''listen'', JStr (''[::]:'' @ dec_str (unat socks_port)))]
          @ opt_fwmark c @ [(''log_level'', JStr (cf_log_level c))]))"

section \<open>Share links\<close>

datatype link_error = NoCredentials | InvalidPort string | InvalidIpv6 string | NotHostPortAddr string

text \<open>\<open>is_ascii_digit\<close> on every byte; a multi-byte character has none.\<close>

definition all_digits :: "string \<Rightarrow> bool" where
  "all_digits s = (\<forall>c \<in> set s. 48 \<le> (of_char c :: nat) \<and> (of_char c :: nat) \<le> 57)"

definition parse_host_port :: "string \<Rightarrow> link_error + (string \<times> u16)" where
  "parse_host_port addr =
     (if starts_with ''['' addr then
        (case find_char (CHR '']'') addr of
           Some close_bracket \<Rightarrow>
             if close_bracket + 1 < length addr \<and> addr ! (close_bracket + 1) = CHR '':''
             then (case parse_u16 (drop (close_bracket + 2) addr) of
                     Some port \<Rightarrow> Inr (drop 1 (take close_bracket addr), port)
                   | None \<Rightarrow> Inl (InvalidPort addr))
             else Inl (InvalidIpv6 addr)
         | None \<Rightarrow> Inl (InvalidIpv6 addr))
      else
        (case rfind_char (CHR '':'') addr of
           Some colon_pos \<Rightarrow>
             let port_str = drop (colon_pos + 1) addr in
             if port_str = [] \<or> \<not> all_digits port_str then Inl (InvalidPort addr)
             else (case parse_u16 port_str of
                     Some port \<Rightarrow> Inr (take colon_pos addr, port)
                   | None \<Rightarrow> Inl (InvalidPort addr))
         | None \<Rightarrow> Inl (NotHostPortAddr addr)))"

definition url_encode_param :: "(string \<Rightarrow> string) \<Rightarrow> string \<Rightarrow> string" where
  "url_encode_param serialize v =
     (case strip_prefix ''='' (serialize v) of Some r \<Rightarrow> r | None \<Rightarrow> [])"

text \<open>The same for \<open>uuid\<close> and \<open>password\<close>, which keep the text when there is no leading \<open>=\<close>.\<close>

definition encode_credential :: "(string \<Rightarrow> string) \<Rightarrow> string \<Rightarrow> string" where
  "encode_credential serialize v =
     (let e = serialize v in case strip_prefix ''='' e of Some r \<Rightarrow> r | None \<Rightarrow> e)"

definition link_credentials :: "config \<Rightarrow> link_error + (string \<times> string)" where
  "link_credentials c =
     (if cf_uuid c \<noteq> [] \<and> cf_password c \<noteq> [] then Inr (cf_uuid c, cf_password c)
      else case cf_users c of (uid, pw) # _ \<Rightarrow> Inr (uid, pw) | [] \<Rightarrow> Inl NoCredentials)"

definition non_empty :: "string \<Rightarrow> string option" where
  "non_empty s = (if s \<noteq> [] then Some s else None)"

fun or_else :: "'a option \<Rightarrow> 'a option \<Rightarrow> 'a option" where
  "or_else (Some a) b = Some a"
| "or_else None b = b"

definition link_query :: "(string \<Rightarrow> string) \<Rightarrow> config \<Rightarrow> string \<Rightarrow> string option \<Rightarrow> string option \<Rightarrow> string list" where
  "link_query serialize c host sni_override cert_sha256_override =
     (let enc = url_encode_param serialize;
          the_sni = (case or_else sni_override (non_empty (cf_sni c)) of Some s \<Rightarrow> s | None \<Rightarrow> host);
          cert_sha256 = or_else (case cert_sha256_override of Some s \<Rightarrow> non_empty s | None \<Rightarrow> None)
                          (non_empty (cf_pinned_certchain_sha256 c))
      in [''sni='' @ enc the_sni]
         @ (if cf_congestion_control c \<noteq> [] then [''congestion_control='' @ enc (cf_congestion_control c)] else [])
         @ [''allow_insecure='' @ (if cf_allow_insecure c then ''1'' else ''0'')]
         @ (case cert_sha256 of Some h \<Rightarrow> [''pinned_certchain_sha256='' @ enc h] | None \<Rightarrow> []))"

definition generate_share_link :: "(string \<Rightarrow> string) \<Rightarrow> config \<Rightarrow> string option \<Rightarrow> string option \<Rightarrow>
    string option \<Rightarrow> link_error + string" where
  "generate_share_link serialize c host_override sni_override cert_sha256_override =
     and_then (link_credentials c) (\<lambda>(uid, pw).
     and_then (parse_host_port (if cf_server c \<noteq> [] then cf_server c else cf_listen c)) (\<lambda>(base_host, port).
       let host = (case host_override of Some h \<Rightarrow> h | None \<Rightarrow> base_host) in
       Inr (''juicity://'' @ encode_credential serialize uid @ '':'' @ encode_credential serialize pw
            @ ''@'' @ host @ '':'' @ dec_str (unat port) @ ''?''
            @ join ''&'' (link_query serialize c host sni_override cert_sha256_override))))"

section \<open>Certificate domains\<close>

record cert_domains =
  cd_cn :: "string option"
  cd_sans :: "string list"
  cd_is_wildcard :: bool

definition is_wildcard_name :: "string \<Rightarrow> bool" where
  "is_wildcard_name name = starts_with ''*.'' name"

text \<open>The last step of \<open>parse_cert_domains\<close>; the certificate is read by other crates.\<close>

definition cert_domains_of :: "string option \<Rightarrow> string list \<Rightarrow> cert_domains" where
  "cert_domains_of name alts = \<lparr>cd_cn = name, cd_sans = alts,
     cd_is_wildcard = (case name of Some n \<Rightarrow> is_wildcard_name n | None \<Rightarrow> False)
       \<or> list_ex is_wildcard_name alts\<rparr>"

definition pick_preferred_domain :: "cert_domains \<Rightarrow> string option \<Rightarrow> string option" where
  "pick_preferred_domain d user_domain =
     (case user_domain of
        Some u \<Rightarrow> Some u
      | None \<Rightarrow>
          (case cd_cn d of
             Some name \<Rightarrow> if \<not> is_wildcard_name name then Some name
                          else find (\<lambda>s. \<not> is_wildcard_name s) (cd_sans d)
           | None \<Rightarrow> find (\<lambda>s. \<not> is_wildcard_name s) (cd_sans d)))"

section \<open>Addresses\<close>

lemma all_digits_dec_str: "all_digits (dec_str n)"
  unfolding all_digits_def using dec_str_digits by blast

lemma starts_with_Cons [simp]:
  "starts_with [c] [] = False" "starts_with [c] (x # xs) = (x = c)"
  by (auto simp: starts_with_def)

lemma dec_str_not_Nil [simp]: "dec_str n \<noteq> []"
  by (simp add: dec_str_def)

lemma dec_str_no_char: "c \<in> set (dec_str n) \<Longrightarrow> c \<noteq> CHR '':'' \<and> c \<noteq> CHR '']''"
  using dec_str_digits [of c n] by auto

lemma parse_host_port_plain:
  assumes "\<not> starts_with ''['' host"
  shows "parse_host_port (host @ '':'' @ dec_str (unat (port :: u16))) = Inr (host, port)"
proof -
  let ?a = "host @ CHR '':'' # dec_str (unat port)"
  have "\<not> starts_with ''['' ?a" using assms by (cases host) auto
  moreover have "rfind_char (CHR '':'') ?a = Some (length host)"
    using dec_str_no_char by (intro rfind_char_append) blast
  ultimately show ?thesis
    by (simp add: parse_host_port_def all_digits_dec_str parse_u16_dec_str)
qed

lemma parse_host_port_bracket:
  assumes "CHR '']'' \<notin> set host"
  shows "parse_host_port (''['' @ host @ '']:'' @ dec_str (unat (port :: u16))) = Inr (host, port)"
proof -
  let ?r = "CHR '':'' # dec_str (unat port)"
  have "find_char (CHR '']'') ((CHR ''['' # host) @ CHR '']'' # ?r) = Some (length (CHR ''['' # host))"
    using assms by (intro find_char_append) simp
  then show ?thesis
    by (simp add: parse_host_port_def parse_u16_dec_str nth_append)
qed

end
