(* ===== verification/Protocol.thy ===== *)
theory Protocol
  imports Rust_Net Consts
begin

text \<open>
  \<open>common/src/protocol.rs\<close>: the wire format shared by client and server.  Every reader takes
  the bytes still to come and returns the decoded value with the rest of the stream, every
  writer returns the bytes it puts on the stream.

  The main facts are the round trips: what a writer produced is read back as the same
  address, and the readers never look past the message they decode.
\<close>

section \<open>Data\<close>

datatype proto_error =
    UnexpectedEof
  | InvalidPskLen nat
  | UnderlayHostTooLong nat
  | UnderlayDomainZero
  | UnderlayMsgUnsupported
  | UnknownUnderlayType byte
  | UnknownAddrType byte
  | ProxyHostTooLong nat
  | AddrParseError
  | InvalidCachedHost
  | TrojancDomainZero
  | UnknownTrojancType byte
  | ExportKeyingFailed

datatype network = Tcp | Udp

definition NETWORK_TCP :: byte where "NETWORK_TCP = 1"
definition NETWORK_UDP :: byte where "NETWORK_UDP = 3"

fun network_to_wire_byte :: "network \<Rightarrow> byte" where
  "network_to_wire_byte Tcp = NETWORK_TCP"
| "network_to_wire_byte Udp = NETWORK_UDP"

definition network_from_wire_byte :: "byte \<Rightarrow> network option" where
  "network_from_wire_byte b =
     (if b = NETWORK_TCP then Some Tcp else if b = NETWORK_UDP then Some Udp else None)"

text \<open>A \<open>Uuid\<close> is its 16 bytes.\<close>

type_synonym uuid = bytes

definition uuid_nil :: uuid where "uuid_nil = replicate 16 0"

record proxy_metadata =
  pm_network :: network
  pm_hostname :: string
  pm_port :: u16
  pm_uuid :: uuid

definition target_addr :: "proxy_metadata \<Rightarrow> string" where
  "target_addr m = pm_hostname m @ '':'' @ dec_str (unat (pm_port m))"

record underlay_auth =
  ua_iv :: bytes
  ua_psk :: bytes
  ua_metadata :: proxy_metadata
  ua_uuid :: uuid

definition AUTHENTICATE_TYPE :: byte where "AUTHENTICATE_TYPE = 0"
definition PROTOCOL_VERSION :: byte where "PROTOCOL_VERSION = 0"
definition ADDR_TYPE_IPV4 :: byte where "ADDR_TYPE_IPV4 = 1"
definition ADDR_TYPE_IPV6 :: byte where "ADDR_TYPE_IPV6 = 4"
definition ADDR_TYPE_DOMAIN :: byte where "ADDR_TYPE_DOMAIN = 3"
definition ADDR_TYPE_NONE :: byte where "ADDR_TYPE_NONE = 255"
definition TROJAN_METADATA_TYPE_MSG :: byte where "TROJAN_METADATA_TYPE_MSG = 2"
definition UNDERLAY_PSK_LEN :: nat where "UNDERLAY_PSK_LEN = 32"

lemmas wire_consts = NETWORK_TCP_def NETWORK_UDP_def ADDR_TYPE_IPV4_def ADDR_TYPE_IPV6_def
  ADDR_TYPE_DOMAIN_def ADDR_TYPE_NONE_def TROJAN_METADATA_TYPE_MSG_def AUTHENTICATE_TYPE_def
  PROTOCOL_VERSION_def UNDERLAY_PSK_LEN_def

datatype addr_type = AddrV4 | AddrV6 | AddrDomain

definition addr_type_from_host :: "string \<Rightarrow> addr_type" where
  "addr_type_from_host host =
     (if contains_char (CHR '':'') host then AddrV6
      else if parse_ipv4 host \<noteq> None then AddrV4
      else AddrDomain)"

fun addr_type_to_wire_byte :: "addr_type \<Rightarrow> byte" where
  "addr_type_to_wire_byte AddrV4 = ADDR_TYPE_IPV4"
| "addr_type_to_wire_byte AddrV6 = ADDR_TYPE_IPV6"
| "addr_type_to_wire_byte AddrDomain = ADDR_TYPE_DOMAIN"

text \<open>\<open>host_bytes\<close> is the array \<open>[u8; 255]\<close>, \<open>host_len\<close> how much of it is used; a length of
  zero marks an invalid host.\<close>

record cached_addr =
  ca_addr_type :: addr_type
  ca_host_bytes :: bytes
  ca_host_len :: byte
  ca_port :: u16

text \<open>\<open>host_bytes[..n].copy_from_slice(src)\<close> on the zeroed array.\<close>

definition fill255 :: "bytes \<Rightarrow> bytes" where
  "fill255 src = src @ replicate (255 - length src) 0"

definition from_host_port :: "string \<Rightarrow> u16 \<Rightarrow> cached_addr" where
  "from_host_port host port =
     (let at = addr_type_from_host host;
          (hb, hl) =
            (case at of
               AddrV4 \<Rightarrow> (case parse_ipv4 host of Some ip \<Rightarrow> (v4_octets ip, 4) | None \<Rightarrow> ([], 0))
             | AddrV6 \<Rightarrow> (case parse_ipv6 host of Some ip \<Rightarrow> (v6_octets ip, 16) | None \<Rightarrow> ([], 0))
             | AddrDomain \<Rightarrow>
                 (case u8_try_from (length host) of
                    Some len \<Rightarrow> if 0 < len then (str_bytes host, len) else ([], 0)
                  | None \<Rightarrow> ([], 0)))
      in \<lparr>ca_addr_type = at, ca_host_bytes = fill255 hb, ca_host_len = hl, ca_port = port\<rparr>)"

definition from_socket_addr :: "socket_addr \<Rightarrow> cached_addr" where
  "from_socket_addr a =
     (case sa_ip a of
        IpV4 ip \<Rightarrow> \<lparr>ca_addr_type = AddrV4, ca_host_bytes = fill255 (v4_octets ip),
                    ca_host_len = 4, ca_port = sa_port a\<rparr>
      | IpV6 ip \<Rightarrow> \<lparr>ca_addr_type = AddrV6, ca_host_bytes = fill255 (v6_octets ip),
                    ca_host_len = 16, ca_port = sa_port a\<rparr>)"

section \<open>Reading\<close>

definition read_exact :: "nat \<Rightarrow> bytes \<Rightarrow> proto_error + (bytes \<times> bytes)" where
  "read_exact n bs = ok_or UnexpectedEof (take_exact n bs)"

definition read_command_head :: "bytes \<Rightarrow> proto_error + ((byte \<times> byte) \<times> bytes)" where
  "read_command_head bs =
     and_then (read_exact 2 bs) (\<lambda>(buf, bs). Inr ((buf ! 0, buf ! 1), bs))"

definition read_command_head_async :: "bytes \<Rightarrow> proto_error + ((byte \<times> byte) \<times> bytes)" where
  "read_command_head_async bs =
     and_then (read_exact 2 bs) (\<lambda>(buf, bs). Inr ((buf ! 0, buf ! 1), bs))"

definition read_authenticate :: "bytes \<Rightarrow> proto_error + ((uuid \<times> bytes) \<times> bytes)" where
  "read_authenticate bs =
     and_then (read_exact 16 bs) (\<lambda>(uuid, bs).
     and_then (read_exact 32 bs) (\<lambda>(token, bs). Inr ((uuid, token), bs)))"

definition read_authenticate_async :: "bytes \<Rightarrow> proto_error + ((uuid \<times> bytes) \<times> bytes)" where
  "read_authenticate_async bs =
     and_then (read_exact 16 bs) (\<lambda>(uuid, bs).
     and_then (read_exact 32 bs) (\<lambda>(token, bs). Inr ((uuid, token), bs)))"

definition read_underlay_metadata_async :: "bytes \<Rightarrow> proto_error + ((string \<times> u16) \<times> bytes)" where
  "read_underlay_metadata_async bs =
     and_then (read_exact 1 bs) (\<lambda>(typ, bs).
       if typ ! 0 = ADDR_TYPE_IPV4 then
         and_then (read_exact 6 bs) (\<lambda>(raw, bs).
           Inr ((v4_str (v4_of_octets (take 4 raw)), u16_of_be (raw ! 4) (raw ! 5)), bs))
       else if typ ! 0 = ADDR_TYPE_IPV6 then
         and_then (read_exact 18 bs) (\<lambda>(raw, bs).
           Inr ((v6_str (v6_of_octets (take 16 raw)), u16_of_be (raw ! 16) (raw ! 17)), bs))
       else if typ ! 0 = ADDR_TYPE_DOMAIN then
         and_then (read_exact 1 bs) (\<lambda>(lb, bs).
           let dlen = unat (lb ! 0) in
           if dlen = 0 then Inl UnderlayDomainZero
           else and_then (read_exact (dlen + 2) bs) (\<lambda>(domain, bs).
             Inr ((lossy_string (take dlen domain),
                   u16_of_be (domain ! dlen) (domain ! (dlen + 1))), bs)))
       else if typ ! 0 = TROJAN_METADATA_TYPE_MSG then
         and_then (read_exact 1 bs) (\<lambda>_. Inl UnderlayMsgUnsupported)
       else Inl (UnknownUnderlayType (typ ! 0)))"

definition read_underlay_auth_async :: "bytes \<Rightarrow> proto_error + (underlay_auth \<times> bytes)" where
  "read_underlay_auth_async bs =
     and_then (read_exact 32 bs) (\<lambda>(iv, bs).
     and_then (read_exact UNDERLAY_PSK_LEN bs) (\<lambda>(psk, bs).
     and_then (read_underlay_metadata_async bs) (\<lambda>((hostname, port), bs).
       Inr (\<lparr>ua_iv = iv, ua_psk = psk,
             ua_metadata = \<lparr>pm_network = Udp, pm_hostname = hostname, pm_port = port,
                            pm_uuid = uuid_nil\<rparr>,
             ua_uuid = uuid_nil\<rparr>, bs))))"

definition read_proxy_header_async :: "bytes \<Rightarrow> proto_error + ((byte \<times> string \<times> u16) \<times> bytes)" where
  "read_proxy_header_async bs =
     and_then (read_exact 2 bs) (\<lambda>(buf, bs).
       let network = buf ! 0; addr_type = buf ! 1 in
       and_then
         (if addr_type = ADDR_TYPE_IPV4 then
            and_then (read_exact 4 bs) (\<lambda>(ip, bs). Inr (v4_str (v4_of_octets ip), bs))
          else if addr_type = ADDR_TYPE_IPV6 then
            and_then (read_exact 16 bs) (\<lambda>(ip, bs). Inr (v6_str (v6_of_octets ip), bs))
          else if addr_type = ADDR_TYPE_DOMAIN then
            and_then (read_exact 1 bs) (\<lambda>(lb, bs).
            and_then (read_exact (unat (lb ! 0)) bs) (\<lambda>(domain, bs). Inr (lossy_string domain, bs)))
          else if addr_type = ADDR_TYPE_NONE then Inr ([], bs)
          else Inl (UnknownAddrType addr_type)) (\<lambda>(addr, bs).
       if addr_type \<noteq> ADDR_TYPE_NONE then
         and_then (read_exact 2 bs) (\<lambda>(pb, bs).
           Inr ((network, addr, u16_of_be (pb ! 0) (pb ! 1)), bs))
       else Inr ((network, addr, 0), bs)))"

text \<open>The synchronous reader has the same body.\<close>

definition read_proxy_header :: "bytes \<Rightarrow> proto_error + ((byte \<times> string \<times> u16) \<times> bytes)" where
  "read_proxy_header bs =
     and_then (read_exact 2 bs) (\<lambda>(buf, bs).
       let network = buf ! 0; addr_type = buf ! 1 in
       and_then
         (if addr_type = ADDR_TYPE_IPV4 then
            and_then (read_exact 4 bs) (\<lambda>(ip, bs). Inr (v4_str (v4_of_octets ip), bs))
          else if addr_type = ADDR_TYPE_IPV6 then
            and_then (read_exact 16 bs) (\<lambda>(ip, bs). Inr (v6_str (v6_of_octets ip), bs))
          else if addr_type = ADDR_TYPE_DOMAIN then
            and_then (read_exact 1 bs) (\<lambda>(lb, bs).
            and_then (read_exact (unat (lb ! 0)) bs) (\<lambda>(domain, bs). Inr (lossy_string domain, bs)))
          else if addr_type = ADDR_TYPE_NONE then Inr ([], bs)
          else Inl (UnknownAddrType addr_type)) (\<lambda>(addr, bs).
       if addr_type \<noteq> ADDR_TYPE_NONE then
         and_then (read_exact 2 bs) (\<lambda>(pb, bs).
           Inr ((network, addr, u16_of_be (pb ! 0) (pb ! 1)), bs))
       else Inr ((network, addr, 0), bs)))"

definition read_trojanc_addr_async :: "bytes \<Rightarrow> proto_error + ((string \<times> u16) \<times> bytes)" where
  "read_trojanc_addr_async bs =
     and_then (read_exact 1 bs) (\<lambda>(tb, bs).
       let addr_type = tb ! 0 in
       and_then
         (if addr_type = ADDR_TYPE_IPV4 then
            and_then (read_exact 4 bs) (\<lambda>(ip, bs). Inr (v4_str (v4_of_octets ip), bs))
          else if addr_type = ADDR_TYPE_IPV6 then
            and_then (read_exact 16 bs) (\<lambda>(ip, bs). Inr (v6_str (v6_of_octets ip), bs))
          else if addr_type = ADDR_TYPE_DOMAIN then
            and_then (read_exact 1 bs) (\<lambda>(lb, bs).
              if unat (lb ! 0) = 0 then Inl TrojancDomainZero
              else and_then (read_exact (unat (lb ! 0)) bs) (\<lambda>(domain, bs).
                Inr (lossy_string domain, bs)))
          else Inl (UnknownTrojancType addr_type)) (\<lambda>(addr, bs).
       and_then (read_exact 2 bs) (\<lambda>(pb, bs).
         Inr ((addr, u16_of_be (pb ! 0) (pb ! 1)), bs))))"

text \<open>The variant that decodes into a caller's \<open>String\<close>: the buffer afterwards, also when the
  call fails, with the result.\<close>

definition read_trojanc_addr_into_async ::
  "string \<Rightarrow> bytes \<Rightarrow> string \<times> (proto_error + (u16 \<times> bytes))" where
  "read_trojanc_addr_into_async host bs =
     (case read_exact 1 bs of
        Inl e \<Rightarrow> (host, Inl e)
      | Inr (tb, bs) \<Rightarrow>
          (let addr_type = tb ! 0;
               addr =
                 (if addr_type = ADDR_TYPE_IPV4 then
                    and_then (read_exact 4 bs) (\<lambda>(ip, bs). Inr (v4_str (v4_of_octets ip), bs))
                  else if addr_type = ADDR_TYPE_IPV6 then
                    and_then (read_exact 16 bs) (\<lambda>(ip, bs). Inr (v6_str (v6_of_octets ip), bs))
                  else if addr_type = ADDR_TYPE_DOMAIN then
                    and_then (read_exact 1 bs) (\<lambda>(lb, bs).
                      if unat (lb ! 0) = 0 then Inl TrojancDomainZero
                      else and_then (read_exact (unat (lb ! 0)) bs) (\<lambda>(domain, bs).
                        Inr (lossy_string domain, bs)))
                  else Inl (UnknownTrojancType addr_type))
           in case addr of
                Inl e \<Rightarrow> (host, Inl e)
              | Inr (host', bs) \<Rightarrow>
                  (host', and_then (read_exact 2 bs) (\<lambda>(pb, bs).
                     Inr (u16_of_be (pb ! 0) (pb ! 1), bs)))))"

section \<open>Writing\<close>

text \<open>The writers into a stream return the bytes that reached it, also when they fail
  half-way, and the result.\<close>

definition write_underlay_metadata_async :: "proxy_metadata \<Rightarrow> bytes \<times> (proto_error + unit)" where
  "write_underlay_metadata_async m =
     (case parse_ipv4 (pm_hostname m) of
        Some ip \<Rightarrow> ([ADDR_TYPE_IPV4] @ v4_octets ip @ u16_to_be (pm_port m), Inr ())
      | None \<Rightarrow>
     (case parse_ipv6 (pm_hostname m) of
        Some ip \<Rightarrow> ([ADDR_TYPE_IPV6] @ v6_octets ip @ u16_to_be (pm_port m), Inr ())
      | None \<Rightarrow>
     (case u8_try_from (length (str_bytes (pm_hostname m))) of
        None \<Rightarrow> ([], Inl (UnderlayHostTooLong (length (str_bytes (pm_hostname m)))))
      | Some host_len \<Rightarrow>
          ([ADDR_TYPE_DOMAIN] @ [host_len] @ str_bytes (pm_hostname m) @ u16_to_be (pm_port m),
           Inr ()))))"

definition write_underlay_auth_async :: "underlay_auth \<Rightarrow> bytes \<times> (proto_error + unit)" where
  "write_underlay_auth_async auth =
     (if length (ua_psk auth) \<noteq> UNDERLAY_PSK_LEN
      then (ua_iv auth, Inl (InvalidPskLen (length (ua_psk auth))))
      else (case write_underlay_metadata_async (ua_metadata auth) of
              (bs, r) \<Rightarrow> (ua_iv auth @ ua_psk auth @ bs, r)))"

definition build_proxy_header :: "byte \<Rightarrow> string \<Rightarrow> u16 \<Rightarrow> proto_error + bytes" where
  "build_proxy_header network addr port =
     (let addr_type =
            (if addr = [] then ADDR_TYPE_NONE
             else if contains_char (CHR '':'') addr then ADDR_TYPE_IPV6
             else if parse_ipv4 addr \<noteq> None then ADDR_TYPE_IPV4
             else ADDR_TYPE_DOMAIN)
      in and_then
           (if addr_type = ADDR_TYPE_IPV4 then
              map_err (\<lambda>_. AddrParseError) (and_then (ok_or () (parse_ipv4 addr)) (\<lambda>ip. Inr (v4_octets ip)))
            else if addr_type = ADDR_TYPE_IPV6 then
              map_err (\<lambda>_. AddrParseError) (and_then (ok_or () (parse_ipv6 addr)) (\<lambda>ip. Inr (v6_octets ip)))
            else if addr_type = ADDR_TYPE_DOMAIN then
              and_then (ok_or (ProxyHostTooLong (length (str_bytes addr))) (u8_try_from (length (str_bytes addr))))
                (\<lambda>len. Inr (len # str_bytes addr))
            else if addr_type = ADDR_TYPE_NONE then Inr []
            else Inl (UnknownAddrType addr_type)) (\<lambda>body.
         Inr ([network, addr_type] @ body
              @ (if addr_type \<noteq> ADDR_TYPE_NONE then u16_to_be port else []))))"

text \<open>\<open>export_keying_material\<close> belongs to the TLS connection: a parameter from the label and the
  context to 32 bytes, or an error.\<close>

definition gen_token_via_connection ::
  "(bytes \<Rightarrow> bytes \<Rightarrow> bytes option) \<Rightarrow> uuid \<Rightarrow> string \<Rightarrow> proto_error + bytes" where
  "gen_token_via_connection export_keying uuid password =
     ok_or ExportKeyingFailed (export_keying uuid (str_bytes password))"

definition build_trojanc_addr_cached :: "bytes \<Rightarrow> cached_addr \<Rightarrow> bytes \<times> (proto_error + unit)" where
  "build_trojanc_addr_cached buf c =
     (if \<not> (case ca_addr_type c of
               AddrV4 \<Rightarrow> ca_host_len c = 4
             | AddrV6 \<Rightarrow> ca_host_len c = 16
             | AddrDomain \<Rightarrow> 0 < ca_host_len c)
      then (buf, Inl InvalidCachedHost)
      else (buf @ [addr_type_to_wire_byte (ca_addr_type c)]
            @ (case ca_addr_type c of
                 AddrV4 \<Rightarrow> take 4 (ca_host_bytes c)
               | AddrV6 \<Rightarrow> take 16 (ca_host_bytes c)
               | AddrDomain \<Rightarrow> ca_host_len c # take (unat (ca_host_len c)) (ca_host_bytes c))
            @ u16_to_be (ca_port c), Inr ()))"

definition build_trojanc_addr :: "string \<Rightarrow> u16 \<Rightarrow> proto_error + bytes" where
  "build_trojanc_addr addr port =
     (case build_trojanc_addr_cached [] (from_host_port addr port) of
        (buf, Inl e) \<Rightarrow> Inl e
      | (buf, Inr _) \<Rightarrow> Inr buf)"

section \<open>Addresses on the wire\<close>

text \<open>What the reader reports for a host the writer accepted: an IPv6 literal comes back in
  the canonical text of \<open>Ipv6Addr\<close>, everything else unchanged.\<close>

definition canonical_host :: "string \<Rightarrow> string" where
  "canonical_host host =
     (if contains_char (CHR '':'') host
      then (case parse_ipv6 host of Some ip \<Rightarrow> v6_str ip | None \<Rightarrow> host)
      else host)"

text \<open>The hosts that have an encoding in a datagram header.\<close>

definition encodable_host :: "string \<Rightarrow> bool" where
  "encodable_host host =
     (if contains_char (CHR '':'') host then parse_ipv6 host \<noteq> None
      else 0 < length host \<and> length host \<le> 255)"

text \<open>The encoded address: type byte and body, without the port.\<close>

definition wire_addr :: "string \<Rightarrow> bytes" where
  "wire_addr host =
     (if contains_char (CHR '':'') host
      then ADDR_TYPE_IPV6 # (case parse_ipv6 host of Some ip \<Rightarrow> v6_octets ip | None \<Rightarrow> [])
      else case parse_ipv4 host of
             Some ip \<Rightarrow> ADDR_TYPE_IPV4 # v4_octets ip
           | None \<Rightarrow> ADDR_TYPE_DOMAIN # word_of_nat (length host) # str_bytes host)"

lemma read_exact_append [simp]: "length xs = n \<Longrightarrow> read_exact n (xs @ ys) = Inr (xs, ys)"
  by (simp add: read_exact_def)

lemma read_exact_Cons [simp]:
  "read_exact (Suc 0) (x # xs) = Inr ([x], xs)" "read_exact 2 (x # y # xs) = Inr ([x, y], xs)"
  by (simp_all add: read_exact_def)

lemma read_exact_0 [simp]: "read_exact 0 xs = Inr ([], xs)"
  by (simp add: read_exact_def take_exact_def)

lemma fill255_take [simp]: "length xs = n \<Longrightarrow> take n (fill255 xs) = xs"
  by (simp add: fill255_def)

lemma contains_colon_v4: "parse_ipv4 host = Some ip \<Longrightarrow> \<not> contains_char (CHR '':'') host"
  by (simp add: contains_char_def parse_ipv4_no_colon)

lemma parse_ipv4_length:
  assumes "parse_ipv4 host = Some ip"
  shows "0 < length host" "length host \<le> 255"
  using parse_ipv4_canonical [OF assms] length_v4_str [of ip] v4_str_not_Nil [of ip] by auto

lemma build_trojanc_addr_cached_eq:
  "build_trojanc_addr_cached buf (from_host_port host port) =
     (if encodable_host host then (buf @ wire_addr host @ u16_to_be port, Inr ())
      else (buf, Inl InvalidCachedHost))"
proof (cases "contains_char (CHR '':'') host")
  case True
  then show ?thesis
    by (auto simp: build_trojanc_addr_cached_def from_host_port_def addr_type_from_host_def
        encodable_host_def wire_addr_def split: option.split)
next
  case nc: False
  show ?thesis
  proof (cases "parse_ipv4 host")
    case (Some ip)
    then show ?thesis
      using nc parse_ipv4_length [OF Some]
      by (simp add: build_trojanc_addr_cached_def from_host_port_def addr_type_from_host_def
          encodable_host_def wire_addr_def)
  next
    case None
    then show ?thesis
      using nc
      by (auto simp: build_trojanc_addr_cached_def from_host_port_def addr_type_from_host_def
          encodable_host_def wire_addr_def u8_try_from_def word_less_nat_alt unat_of_nat)
  qed
qed

lemma build_trojanc_addr_eq:
  "build_trojanc_addr host port =
     (if encodable_host host then Inr (wire_addr host @ u16_to_be port) else Inl InvalidCachedHost)"
  by (simp add: build_trojanc_addr_def build_trojanc_addr_cached_eq)

lemma build_proxy_header_eq:
  "host \<noteq> [] \<Longrightarrow> encodable_host host \<Longrightarrow>
   build_proxy_header n host port = Inr (n # wire_addr host @ u16_to_be port)"
  using parse_ipv4_length [of host] contains_colon_v4 [of host]
  by (auto simp: build_proxy_header_def encodable_host_def wire_addr_def wire_consts
      u8_try_from_def Let_def split: option.splits if_splits)

text \<open>Reading an encoded address with its port.\<close>

lemma read_trojanc_wire [wire]:
  assumes "rust_str host" "encodable_host host"
  shows "read_trojanc_addr_async (wire_addr host @ u16_to_be port @ rest) =
     Inr ((canonical_host host, port), rest)"
proof (cases "contains_char (CHR '':'') host")
  case True
  then obtain ip where ip: "parse_ipv6 host = Some ip"
    using assms(2) by (auto simp: encodable_host_def)
  with True show ?thesis
    by (simp add: wire_addr_def canonical_host_def read_trojanc_addr_async_def wire_consts Let_def)
next
  case nc: False
  show ?thesis
  proof (cases "parse_ipv4 host")
    case (Some ip)
    with nc show ?thesis
      using parse_ipv4_canonical [OF Some]
      by (simp add: wire_addr_def canonical_host_def read_trojanc_addr_async_def wire_consts Let_def)
  next
    case None
    have len: "unat (word_of_nat (length host) :: byte) = length host"
      "0 < length host"
      using nc assms(2) by (simp_all add: encodable_host_def unat_of_nat)
    with nc None show ?thesis
      by (simp add: wire_addr_def canonical_host_def read_trojanc_addr_async_def wire_consts
          Let_def lossy_string_rust_str [OF assms(1)])
  qed
qed

lemma read_proxy_header_wire [wire]:
  assumes "rust_str host" "encodable_host host"
  shows "read_proxy_header_async (n # wire_addr host @ u16_to_be port @ rest) =
     Inr ((n, canonical_host host, port), rest)"
proof (cases "contains_char (CHR '':'') host")
  case True
  then obtain ip where ip: "parse_ipv6 host = Some ip"
    using assms(2) by (auto simp: encodable_host_def)
  with True show ?thesis
    by (simp add: wire_addr_def canonical_host_def read_proxy_header_async_def wire_consts Let_def)
next
  case nc: False
  show ?thesis
  proof (cases "parse_ipv4 host")
    case (Some ip)
    with nc show ?thesis
      using parse_ipv4_canonical [OF Some]
      by (simp add: wire_addr_def canonical_host_def read_proxy_header_async_def wire_consts Let_def)
  next
    case None
    have len: "unat (word_of_nat (length host) :: byte) = length host"
      using nc assms(2) by (simp_all add: encodable_host_def unat_of_nat)
    with nc None show ?thesis
      by (simp add: wire_addr_def canonical_host_def read_proxy_header_async_def wire_consts
          Let_def lossy_string_rust_str [OF assms(1)])
  qed
qed

text \<open>Datagram headers are frames: concatenated on a stream they are read back one by one.\<close>

interpretation trojanc: framing
  "\<lambda>(h, p). build_trojanc_addr h p" read_trojanc_addr_async "\<lambda>(h, p). rust_str h"
  "\<lambda>(h, p). (canonical_host h, p)"
  by unfold_locales (auto simp: build_trojanc_addr_eq read_trojanc_wire split: if_splits)

text \<open>A datagram header that \<open>build_trojanc_addr\<close> produced is decoded by
  \<open>read_trojanc_addr_async\<close> to the same port and to the same host (an IPv6 literal in its
  canonical text), and the reader leaves exactly what followed the header on the stream.\<close>

lemma trojanc_addr_roundtrip:
  assumes "rust_str host" "build_trojanc_addr host port = Inr bs"
  shows "read_trojanc_addr_async (bs @ rest) = Inr ((canonical_host host, port), rest)"
  using trojanc.dec_enc [of "(host, port)" bs rest] assms by simp

text \<open>Encoding a datagram header succeeds exactly for the hosts that have an
  encoding (an IPv6 literal that parses, or a name of 1 to 255 bytes); when it fails the
  caller's buffer is left as it was.\<close>

lemma build_trojanc_addr_cached_total:
  "build_trojanc_addr_cached buf (from_host_port host port) =
     (if (if CHR '':'' \<in> set host then parse_ipv6 host \<noteq> None
          else host \<noteq> [] \<and> length host \<le> 255)
      then (buf @ wire_addr host @ u16_to_be port, Inr ())
      else (buf, Inl InvalidCachedHost))"
  by (auto simp: build_trojanc_addr_cached_eq encodable_host_def contains_char_def)

lemma from_socket_addr_eq:
  "from_socket_addr a = from_host_port (ip_str (sa_ip a)) (sa_port a)"
  by (cases "sa_ip a")
    (simp_all add: from_socket_addr_def from_host_port_def addr_type_from_host_def contains_char_def)

lemma ip_str_host:
  "encodable_host (ip_str ip)" "canonical_host (ip_str ip) = ip_str ip"
proof -
  have "length (v4_str a) \<le> 255" for a using length_v4_str [of a] by simp
  then show "encodable_host (ip_str ip)" "canonical_host (ip_str ip) = ip_str ip"
    by (cases ip; simp add: encodable_host_def canonical_host_def contains_char_def)+
qed

text \<open>The cached address made from a socket address without any text is the one
  that parsing the printed IP address would give, for IPv4 and IPv6.\<close>

lemma from_socket_addr_agrees:
  "from_socket_addr a = from_host_port (ip_str (sa_ip a)) (sa_port a)"
  by (rule from_socket_addr_eq)

lemma build_proxy_header_encodable:
  "build_proxy_header n host port = Inr bs \<Longrightarrow> host = [] \<or> encodable_host host"
proof (rule ccontr)
  assume b: "build_proxy_header n host port = Inr bs" and "\<not> (host = [] \<or> encodable_host host)"
  then have ne: "host \<noteq> []" and enc: "\<not> encodable_host host" by auto
  show False
  proof (cases "contains_char (CHR '':'') host")
    case True
    with ne enc b show False
      by (simp add: build_proxy_header_def encodable_host_def wire_consts)
  next
    case False
    with ne enc have len: "\<not> length host < 256" by (simp add: encodable_host_def)
    then have "parse_ipv4 host = None"
      using parse_ipv4_length [of host] by (cases "parse_ipv4 host") auto
    with False ne len b show False
      by (simp add: build_proxy_header_def wire_consts u8_try_from_def)
  qed
qed

text \<open>\<^bold>\<open>C21.\<close>  A proxy header written for a host is read back with the same network byte,
  the same host (IPv6 in canonical text) and the same port; for the empty host the header
  has no port and the reader reports port 0.\<close>

theorem proxy_header_roundtrip:
  assumes "rust_str host" "build_proxy_header n host port = Inr bs"
  shows "read_proxy_header_async (bs @ rest) =
    Inr ((n, canonical_host host, if host = [] then 0 else port), rest)"
proof (cases "host = []")
  case True
  with assms(2) show ?thesis
    by (auto simp: build_proxy_header_def read_proxy_header_async_def wire_consts
        canonical_host_def contains_char_def)
next
  case False
  with assms(2) have e: "encodable_host host" by (blast dest: build_proxy_header_encodable)
  with False assms(2) have "bs = n # wire_addr host @ u16_to_be port"
    by (simp add: build_proxy_header_eq)
  with False read_proxy_header_wire [OF assms(1) e, of n port rest] show ?thesis by simp
qed

theorem proxy_header_roundtrip_witness:
  "read_proxy_header_async ([1, 1, 10, 0, 0, 1, 0, 80] @ [9, 9]) =
     Inr ((1, v4_str (Ipv4 10 0 0 1), 80), [9, 9])"
proof -
  let ?h = "v4_str (Ipv4 10 0 0 1)"
  have r: "rust_str ?h"
    using v4_str_chars [of _ "Ipv4 10 0 0 1"] by (intro rust_str_ascii) fastforce
  have nc: "CHR '':'' \<notin> set ?h" by (rule v4_str_no_colon)
  have ne: "?h \<noteq> []" by (rule v4_str_not_Nil)
  have p: "parse_ipv4 ?h = Some (Ipv4 10 0 0 1)" by (rule parse_ipv4_str)
  have e: "encodable_host ?h"
    using nc parse_ipv4_length [OF p]
    unfolding encodable_host_def contains_char_def by simp
  have w: "wire_addr ?h = [1, 10, 0, 0, 1]"
    using nc p unfolding wire_addr_def contains_char_def by (simp add: wire_consts)
  have b: "build_proxy_header 1 ?h 80 = Inr [1, 1, 10, 0, 0, 1, 0, 80]"
    using build_proxy_header_eq [OF ne e, of 1 80] w by (simp add: u16_to_be_def)
  have "canonical_host ?h = ?h"
    using nc unfolding canonical_host_def contains_char_def by simp
  with proxy_header_roundtrip [OF r b, of "[9, 9]"] ne show ?thesis by simp
qed

lemma read_into_cases:
  "case read_trojanc_addr_async bs of
     Inr ((host', port), rest) \<Rightarrow> read_trojanc_addr_into_async host bs = (host', Inr (port, rest))
   | Inl e \<Rightarrow> snd (read_trojanc_addr_into_async host bs) = Inl e"
  by (cases "read_exact 1 bs")
    (auto simp: read_trojanc_addr_into_async_def read_trojanc_addr_async_def Let_def
      and_then_eq_Inr and_then_eq_Inl split: sum.splits prod.splits if_splits)

text \<open>Decoding into a reused buffer is the same as decoding into a fresh string:
  the same port and rest or the same error, and the decoded host in the buffer on success.\<close>

lemma read_trojanc_addr_into_agrees:
  "case read_trojanc_addr_async bs of
     Inr ((host', port), rest) \<Rightarrow> read_trojanc_addr_into_async host bs = (host', Inr (port, rest))
   | Inl e \<Rightarrow> snd (read_trojanc_addr_into_async host bs) = Inl e"
  by (rule read_into_cases)

lemma read_into_Inr:
  "read_trojanc_addr_async bs = Inr ((host', port), rest) \<Longrightarrow>
   read_trojanc_addr_into_async host bs = (host', Inr (port, rest))"
  using read_into_cases [where bs = bs and host = host] by simp

lemma read_into_length:
  "read_trojanc_addr_into_async host bs = (host', Inr (port, rest)) \<Longrightarrow> length rest < length bs"
  by (auto simp: read_trojanc_addr_into_async_def Let_def and_then_eq_Inr read_exact_def
      take_exact_def split: sum.splits prod.splits if_splits elim!: ok_or.elims)

section \<open>Underlay authentication messages\<close>

text \<open>The metadata writer tries IPv4, then IPv6, then a name.\<close>

definition metadata_host :: "string \<Rightarrow> string" where
  "metadata_host host =
     (case parse_ipv4 host of Some ip \<Rightarrow> host
      | None \<Rightarrow> (case parse_ipv6 host of Some ip \<Rightarrow> v6_str ip | None \<Rightarrow> host))"

lemma metadata_host_eq: "metadata_host host = canonical_host host"
  using contains_colon_v4 [of host] parse_ipv6_no_colon [of host]
  by (auto simp: metadata_host_def canonical_host_def contains_char_def split: option.splits)

lemma nth_append_be [simp]:
  "length xs = n \<Longrightarrow> (xs @ u16_to_be p) ! n = u16_to_be p ! 0"
  "length xs = n \<Longrightarrow> (xs @ u16_to_be p) ! Suc n = u16_to_be p ! Suc 0"
  by (auto simp: nth_append)

lemma read_underlay_metadata_write:
  assumes "rust_str (pm_hostname m)" "pm_hostname m \<noteq> []"
    "write_underlay_metadata_async m = (bs, Inr ())"
  shows "read_underlay_metadata_async (bs @ rest) =
    Inr ((metadata_host (pm_hostname m), pm_port m), rest)"
proof (cases "parse_ipv4 (pm_hostname m)")
  case (Some ip)
  let ?raw = "v4_octets ip @ u16_to_be (pm_port m)"
  have nth: "?raw ! 4 = u16_to_be (pm_port m) ! 0" "?raw ! 5 = u16_to_be (pm_port m) ! Suc 0"
    by (simp_all add: nth_append)
  have bs: "bs @ rest = ADDR_TYPE_IPV4 # ?raw @ rest"
    using Some assms(3) by (auto simp: write_underlay_metadata_async_def)
  have "read_exact 6 (?raw @ rest) = Inr (?raw, rest)"
    by (rule read_exact_append) simp
  then show ?thesis
    unfolding bs read_underlay_metadata_async_def
    using nth parse_ipv4_canonical [OF Some] Some
    by (simp add: metadata_host_def del: append_assoc)
next
  case n4: None
  show ?thesis
  proof (cases "parse_ipv6 (pm_hostname m)")
    case (Some ip)
    let ?raw = "v6_octets ip @ u16_to_be (pm_port m)"
    have nth: "?raw ! 16 = u16_to_be (pm_port m) ! 0" "?raw ! 17 = u16_to_be (pm_port m) ! Suc 0"
      by (simp_all add: nth_append)
    have bs: "bs @ rest = ADDR_TYPE_IPV6 # ?raw @ rest"
      using n4 Some assms(3) by (auto simp: write_underlay_metadata_async_def)
    have "read_exact 18 (?raw @ rest) = Inr (?raw, rest)"
      by (rule read_exact_append) simp
    then show ?thesis
      unfolding bs read_underlay_metadata_async_def
      using nth n4 Some by (simp add: wire_consts metadata_host_def del: append_assoc)
  next
    case None
    let ?h = "pm_hostname m" and ?raw = "str_bytes (pm_hostname m) @ u16_to_be (pm_port m)"
    obtain len where len: "u8_try_from (length ?h) = Some len"
      and bs: "bs @ rest = ADDR_TYPE_DOMAIN # len # ?raw @ rest"
      using n4 None assms(3)
      by (auto simp: write_underlay_metadata_async_def split: option.splits)
    have l: "unat len = length ?h" using len by (rule u8_try_from_unat)
    have "read_exact (length ?h + 2) (?raw @ rest) = Inr (?raw, rest)"
      by (rule read_exact_append) simp
    then show ?thesis
      unfolding bs read_underlay_metadata_async_def
      using l assms(2) n4 None
      by (simp add: wire_consts metadata_host_def lossy_string_rust_str [OF assms(1)] Let_def
          del: append_assoc)
  qed
qed

text \<open>What the server sees of a message: the UUIDs are not on the wire and read as nil.\<close>

definition auth_view :: "underlay_auth \<Rightarrow> underlay_auth" where
  "auth_view a = \<lparr>ua_iv = ua_iv a, ua_psk = ua_psk a,
     ua_metadata = \<lparr>pm_network = Udp, pm_hostname = canonical_host (pm_hostname (ua_metadata a)),
                    pm_port = pm_port (ua_metadata a), pm_uuid = uuid_nil\<rparr>,
     ua_uuid = uuid_nil\<rparr>"

definition auth_wf :: "underlay_auth \<Rightarrow> bool" where
  "auth_wf a = (length (ua_iv a) = 32 \<and> rust_str (pm_hostname (ua_metadata a))
     \<and> pm_hostname (ua_metadata a) \<noteq> [])"

definition auth_frame :: "underlay_auth \<Rightarrow> proto_error + bytes" where
  "auth_frame a = (case write_underlay_auth_async a of (bs, r) \<Rightarrow> and_then r (\<lambda>_. Inr bs))"

interpretation underlay_auth: framing
  auth_frame read_underlay_auth_async auth_wf auth_view
proof
  fix a bs rest
  assume wf: "auth_wf a" and enc: "auth_frame a = Inr bs"
  obtain ms where ms: "write_underlay_metadata_async (ua_metadata a) = (ms, Inr ())"
    and bs: "bs = ua_iv a @ ua_psk a @ ms" and psk: "length (ua_psk a) = 32"
    using enc by (auto simp: auth_frame_def write_underlay_auth_async_def and_then_eq_Inr
        wire_consts split: if_splits prod.splits)
  have "read_underlay_metadata_async (ms @ rest) =
      Inr ((metadata_host (pm_hostname (ua_metadata a)), pm_port (ua_metadata a)), rest)"
    using wf ms by (intro read_underlay_metadata_write) (simp_all add: auth_wf_def)
  then show "read_underlay_auth_async (bs @ rest) = Inr (auth_view a, rest)"
    using wf psk
    by (simp add: bs read_underlay_auth_async_def auth_view_def auth_wf_def wire_consts metadata_host_eq)
qed

text \<open>The authentication stream: any number of underlay authentications written one
  after the other are read back in order with their salts, keys, target hosts and ports.\<close>

lemma underlay_auth_stream_roundtrip:
  assumes "\<forall>a \<in> set as. auth_wf a" "enc_all auth_frame as = Inr bs"
  shows "dec_n read_underlay_auth_async (length as) (bs @ rest) = Some (map auth_view as, rest)"
  using assms by (rule underlay_auth.dec_n_enc_all)

definition sample_auth :: underlay_auth where
  "sample_auth = \<lparr>ua_iv = replicate 32 1, ua_psk = replicate 32 2,
     ua_metadata = \<lparr>pm_network = Udp, pm_hostname = ''ab'', pm_port = 53, pm_uuid = uuid_nil\<rparr>,
     ua_uuid = uuid_nil\<rparr>"

definition sample_frame :: bytes where
  "sample_frame = replicate 32 1 @ replicate 32 2 @ [3, 2, 0x61, 0x62, 0, 53]"

lemma sample_auth_frame: "auth_frame sample_auth = Inr sample_frame"
proof -
  have p: "parse_ipv4 ''ab'' = None"
    by (simp add: parse_ipv4_def parse_all_def read_ipv4_no_digit to_digit_def)
  have p6: "parse_ipv6 ''ab'' = None"
    by (rule parse_ipv6_no_colon) simp
  show ?thesis
    using p p6 by (simp add: auth_frame_def write_underlay_auth_async_def sample_auth_def sample_frame_def
        write_underlay_metadata_async_def wire_consts u8_try_from_def str_bytes_def u16_to_be_def)
qed

lemma sample_auth_wf: "auth_wf sample_auth"
  by (simp add: auth_wf_def sample_auth_def) (rule rust_str_ascii, simp)

lemma sample_auth_view: "auth_view sample_auth = sample_auth"
  by (simp add: auth_view_def sample_auth_def canonical_host_def contains_char_def)

lemma underlay_auth_stream_roundtrip_witness:
  "dec_n read_underlay_auth_async 2 ((sample_frame @ sample_frame) @ [5]) =
   Some ([sample_auth, sample_auth], [5])"
  using underlay_auth_stream_roundtrip [of "[sample_auth, sample_auth]" "sample_frame @ sample_frame" "[5]"]
  by (simp add: sample_auth_frame sample_auth_wf sample_auth_view numeral_2_eq_2)

text \<open>A key of the wrong length is refused, but only after the salt has been
  written: exactly the 32 salt bytes are on the stream, so the stream cannot be used again.\<close>

lemma write_underlay_auth_bad_psk:
  assumes "length (ua_psk auth) \<noteq> 32"
  shows "write_underlay_auth_async auth = (ua_iv auth, Inl (InvalidPskLen (length (ua_psk auth))))"
  using assms by (simp add: write_underlay_auth_async_def wire_consts)

end
