(* ===== verification/Crypto.thy ===== *)
theory Crypto
  imports Protocol
begin

text \<open>
  \<open>common/src/crypto.rs\<close>: the certificate chain hash and the encryption of underlay UDP
  packets.  The primitives come from other crates and are parameters: \<open>sha256\<close>, the HKDF
  expansions and a detached AEAD (\<open>seal\<close>/\<open>unseal\<close>), with their documented behaviour as the
  predicates \<open>sha256_ok\<close> and \<open>aead_ok\<close>.  What is proved is what this file adds: the packet
  layouts, the in-place variants against the allocating ones, and the chain construction.
\<close>

datatype crypto_error =
    TooShort nat
  | DecryptFailed
  | EncryptFailed
  | BadPskLen nat
  | HkdfFailed
  | SlicePanic

section \<open>Primitives\<close>

text \<open>Key, nonce, associated data and text; sealing yields the ciphertext and its tag.\<close>

record aead =
  seal :: "bytes \<Rightarrow> bytes \<Rightarrow> bytes \<Rightarrow> bytes \<Rightarrow> (bytes \<times> bytes) option"
  unseal :: "bytes \<Rightarrow> bytes \<Rightarrow> bytes \<Rightarrow> bytes \<Rightarrow> bytes \<Rightarrow> bytes option"

definition aead_ok :: "aead \<Rightarrow> bool" where
  "aead_ok A = (\<forall>k n a p c t. seal A k n a p = Some (c, t) \<longrightarrow>
     length c = length p \<and> length t = 16 \<and> unseal A k n a c t = Some p)"

definition sha256_ok :: "(bytes \<Rightarrow> bytes) \<Rightarrow> bool" where
  "sha256_ok sha = (\<forall>x. length (sha x) = 32)"

text \<open>HKDF: optional salt, key material, info and output length; \<open>None\<close> when the length is
  not available.\<close>

type_synonym hkdf = "bytes \<Rightarrow> bytes \<Rightarrow> bytes \<Rightarrow> nat \<Rightarrow> bytes option"

definition SALT_LEN :: nat where "SALT_LEN = 32"
definition KEY_LEN :: nat where "KEY_LEN = 32"
definition TAG_LEN :: nat where "TAG_LEN = 16"
definition REUSED_INFO :: bytes where "REUSED_INFO = str_bytes ''juicity-reused-info''"

definition zero_nonce :: bytes where "zero_nonce = replicate 12 0"

lemmas crypto_consts = SALT_LEN_def KEY_LEN_def TAG_LEN_def

section \<open>Certificate chain hash\<close>

definition chain_step :: "(bytes \<Rightarrow> bytes) \<Rightarrow> bytes \<Rightarrow> bytes option \<Rightarrow> bytes option" where
  "chain_step sha cert chain =
     (let cert_hash = sha cert in
      Some (case chain of None \<Rightarrow> cert_hash | Some prev \<Rightarrow> sha (prev @ cert_hash)))"

definition generate_cert_chain_hash :: "(bytes \<Rightarrow> bytes) \<Rightarrow> bytes list \<Rightarrow> bytes" where
  "generate_cert_chain_hash sha raw_certs =
     (case fold (chain_step sha) raw_certs None of None \<Rightarrow> [] | Some h \<Rightarrow> h)"

section \<open>AES-128-GCM helpers (\<open>mod aead\<close>)\<close>

text \<open>\<open>expect\<close> panics when the expansion fails: \<open>None\<close>.\<close>

definition derive_key :: "hkdf \<Rightarrow> bytes \<Rightarrow> bytes \<Rightarrow> bytes \<Rightarrow> bytes option" where
  "derive_key hkdf256 password salt info = hkdf256 salt password info 16"

text \<open>The buffer after a successful call and its length; the tag is appended.\<close>

definition aes_encrypt_in_place :: "aead \<Rightarrow> bytes \<Rightarrow> bytes \<Rightarrow> bytes \<Rightarrow> crypto_error + (bytes \<times> nat)" where
  "aes_encrypt_in_place A key buffer nonce =
     and_then (ok_or EncryptFailed (seal A key nonce [] buffer))
       (\<lambda>(c, t). Inr (c @ t, length (c @ t)))"

text \<open>\<open>AeadInPlace::decrypt_in_place\<close> fails on a buffer shorter than a tag.\<close>

definition aes_decrypt_in_place :: "aead \<Rightarrow> bytes \<Rightarrow> bytes \<Rightarrow> bytes \<Rightarrow> crypto_error + (bytes \<times> nat)" where
  "aes_decrypt_in_place A key buffer nonce =
     (if length buffer < 16 then Inl DecryptFailed
      else let n = length buffer - 16 in
        and_then (ok_or DecryptFailed (unseal A key nonce [] (take n buffer) (drop n buffer)))
          (\<lambda>p. Inr (p, length p)))"

definition aes_encrypt :: "aead \<Rightarrow> bytes \<Rightarrow> bytes \<Rightarrow> bytes \<Rightarrow> crypto_error + bytes" where
  "aes_encrypt A key plaintext nonce =
     and_then (aes_encrypt_in_place A key plaintext nonce) (\<lambda>(buffer, _). Inr buffer)"

definition aes_decrypt :: "aead \<Rightarrow> bytes \<Rightarrow> bytes \<Rightarrow> bytes \<Rightarrow> bytes option" where
  "aes_decrypt A key ciphertext nonce =
     (case aes_decrypt_in_place A key ciphertext nonce of
        Inl _ \<Rightarrow> None | Inr (buffer, _) \<Rightarrow> Some buffer)"

section \<open>Underlay cipher\<close>

text \<open>\<open>UnderlayCipher\<close> is the keyed ChaCha20-Poly1305 instance: its subkey.\<close>

record underlay_cipher =
  uc_subkey :: bytes

definition from_subkey :: "bytes \<Rightarrow> underlay_cipher" where
  "from_subkey subkey = \<lparr>uc_subkey = subkey\<rparr>"

text \<open>The packet after a successful call; after a failed one its contents are not used.\<close>

definition decrypt_in_place :: "aead \<Rightarrow> underlay_cipher \<Rightarrow> bytes \<Rightarrow> crypto_error + bytes" where
  "decrypt_in_place A c packet =
     (if length packet \<le> SALT_LEN + TAG_LEN then Inl (TooShort (length packet))
      else let ct_end = length packet - TAG_LEN;
               tag = drop ct_end packet
           in and_then (ok_or DecryptFailed
                (unseal A (uc_subkey c) zero_nonce [] (drop SALT_LEN (take ct_end packet)) tag))
              (\<lambda>plain. Inr (take SALT_LEN packet @ plain)))"

text \<open>\<open>plaintext[SALT_LEN..]\<close> panics on a buffer without the reserved prefix.\<close>

definition encrypt_in_place :: "aead \<Rightarrow> underlay_cipher \<Rightarrow> bytes \<Rightarrow> bytes \<Rightarrow> crypto_error + bytes" where
  "encrypt_in_place A c plaintext salt =
     (if length plaintext < SALT_LEN then Inl SlicePanic
      else and_then (ok_or EncryptFailed
             (seal A (uc_subkey c) zero_nonce [] (drop SALT_LEN plaintext)))
           (\<lambda>(ct, tag). Inr (salt @ ct @ tag)))"

section \<open>\<open>mod juicity_underlay\<close>\<close>

definition derive_subkey :: "hkdf \<Rightarrow> bytes \<Rightarrow> bytes \<Rightarrow> crypto_error + bytes" where
  "derive_subkey hkdf1 psk salt =
     (if length psk \<noteq> KEY_LEN then Inl (BadPskLen (length psk))
      else ok_or HkdfFailed (hkdf1 salt psk REUSED_INFO KEY_LEN))"

text \<open>The random source fills \<open>salt[2..]\<close>, 30 bytes.\<close>

definition generate_underlay_salt :: "bytes \<Rightarrow> bytes" where
  "generate_underlay_salt rnd = [0, 0] @ take 30 rnd"

definition decrypt_udp :: "aead \<Rightarrow> hkdf \<Rightarrow> bytes \<Rightarrow> bytes \<Rightarrow> crypto_error + bytes" where
  "decrypt_udp A hkdf1 psk packet =
     (if \<not> SALT_LEN + TAG_LEN \<le> length packet then Inl (TooShort (length packet))
      else let salt = take SALT_LEN packet;
               ciphertext = drop SALT_LEN packet;
               n = length ciphertext - TAG_LEN
           in and_then (derive_subkey hkdf1 psk salt) (\<lambda>subkey.
              ok_or DecryptFailed
                (unseal A subkey zero_nonce [] (take n ciphertext) (drop n ciphertext))))"

definition encrypt_udp :: "aead \<Rightarrow> hkdf \<Rightarrow> bytes \<Rightarrow> bytes \<Rightarrow> bytes \<Rightarrow> crypto_error + bytes" where
  "encrypt_udp A hkdf1 psk plaintext salt =
     and_then (derive_subkey hkdf1 psk salt) (\<lambda>subkey.
     and_then (ok_or EncryptFailed (seal A subkey zero_nonce [] plaintext)) (\<lambda>(ct, tag).
       Inr (salt @ ct @ tag)))"

section \<open>A concrete instance of the parameters\<close>

text \<open>A keyed byte mask with a constant-length checksum: enough structure to satisfy the
  documented behaviour of an AEAD, so that statements under \<open>aead_ok\<close> apply to something.\<close>

definition toy_tag :: "bytes \<Rightarrow> bytes \<Rightarrow> bytes" where
  "toy_tag k p = replicate 15 0 @ [sum_list (k @ p)]"

definition toy_aead :: aead where
  "toy_aead = \<lparr>
     seal = (\<lambda>k n a p. Some (map (\<lambda>b. b + sum_list k) p, toy_tag k p)),
     unseal = (\<lambda>k n a c t. let p = map (\<lambda>b. b - sum_list k) c in
        if t = toy_tag k p then Some p else None)\<rparr>"

lemma toy_aead_ok: "aead_ok toy_aead"
  by (simp add: aead_ok_def toy_aead_def toy_tag_def o_def Let_def)

definition toy_hkdf :: hkdf where
  "toy_hkdf salt ikm info n = Some (take n ikm)"

section \<open>Properties\<close>

text \<open>Encrypting in place and decrypting in place with the same subkey returns the
  payload behind the salt, for every payload of at least one byte.\<close>

lemma underlay_in_place_roundtrip:
  assumes "aead_ok A" "length reserved = 32" "length salt = 32" "payload \<noteq> []"
    and "encrypt_in_place A c (reserved @ payload) salt = Inr packet"
  shows "decrypt_in_place A c packet = Inr (salt @ payload)"
proof -
  obtain ct tag where s: "seal A (uc_subkey c) zero_nonce [] payload = Some (ct, tag)"
    and p: "packet = salt @ ct @ tag"
    using assms(2,5) by (auto simp: encrypt_in_place_def crypto_consts and_then_eq_Inr
        split: if_splits elim!: ok_or.elims)
  have k: "length ct = length payload" "length tag = 16"
    "unseal A (uc_subkey c) zero_nonce [] ct tag = Some payload"
    using assms(1) s by (auto simp: aead_ok_def)
  have "ct \<noteq> []" using k(1) assms(4) by auto
  then have "0 < length ct" by simp
  then show ?thesis
    using k assms(3) by (simp add: p decrypt_in_place_def crypto_consts Let_def)
qed

text \<open>\<^bold>\<open>C22.\<close>  The in-place cipher with the subkey of \<open>psk\<close> and the packet's salt computes what
  the allocating functions compute: the same packet on encryption, and on decryption of any
  packet with a non-empty payload the same plaintext (behind the salt) or the same error.\<close>

theorem in_place_agrees_with_udp:
  assumes "derive_subkey hkdf1 psk salt = Inr subkey" "length reserved = 32"
  shows "encrypt_in_place A (from_subkey subkey) (reserved @ payload) salt =
           encrypt_udp A hkdf1 psk payload salt
    \<and> (take 32 packet = salt \<and> 48 < length packet \<longrightarrow>
           decrypt_in_place A (from_subkey subkey) packet =
           and_then (decrypt_udp A hkdf1 psk packet) (\<lambda>plain. Inr (salt @ plain)))"
proof (intro conjI impI; (elim conjE)?)
  show "encrypt_in_place A (from_subkey subkey) (reserved @ payload) salt =
      encrypt_udp A hkdf1 psk payload salt"
    using assms by (simp add: encrypt_in_place_def encrypt_udp_def crypto_consts from_subkey_def)
next
  assume p: "take 32 packet = salt" "48 < length packet"
  have "drop 32 (take (length packet - 16) packet) = take (length packet - 48) (drop 32 packet)"
    by (simp add: drop_take)
  moreover have "drop (length packet - 48) (drop 32 packet) = drop (length packet - 16) packet"
    using p(2) by (simp add: drop_drop)
  ultimately show "decrypt_in_place A (from_subkey subkey) packet =
      and_then (decrypt_udp A hkdf1 psk packet) (\<lambda>plain. Inr (salt @ plain))"
    using assms p by (simp add: decrypt_in_place_def decrypt_udp_def crypto_consts Let_def from_subkey_def)
qed

theorem in_place_agrees_with_udp_witness:
  "encrypt_in_place toy_aead (from_subkey (replicate 32 3)) (replicate 32 9 @ [7]) (replicate 32 1) =
     encrypt_udp toy_aead toy_hkdf (replicate 32 3) [7] (replicate 32 1)
   \<and> decrypt_in_place toy_aead (from_subkey (replicate 32 3)) (replicate 32 1 @ replicate 17 4) =
     and_then (decrypt_udp toy_aead toy_hkdf (replicate 32 3) (replicate 32 1 @ replicate 17 4))
       (\<lambda>plain. Inr (replicate 32 1 @ plain))"
proof -
  have k: "derive_subkey toy_hkdf (replicate 32 3) (replicate 32 1) = Inr (replicate 32 3)"
    by (simp add: derive_subkey_def toy_hkdf_def crypto_consts)
  show ?thesis
    using in_place_agrees_with_udp [OF k, where reserved = "replicate 32 9" and A = toy_aead
        and payload = "[7]" and packet = "replicate 32 1 @ replicate 17 4"] by simp
qed

text \<open>They disagree on the empty payload: what \<open>encrypt_in_place\<close> or \<open>encrypt_udp\<close>
  makes of an empty datagram is refused by \<open>decrypt_in_place\<close> as too short, whatever the
  cipher, although \<open>decrypt_udp\<close> accepts it.\<close>

lemma empty_payload_refused:
  assumes "aead_ok A" "length salt = 32" "encrypt_udp A hkdf1 psk [] salt = Inr packet"
  shows "decrypt_in_place A c packet = Inl (TooShort 48) \<and> decrypt_udp A hkdf1 psk packet = Inr []"
proof -
  obtain subkey ct tag where k: "derive_subkey hkdf1 psk salt = Inr subkey"
    and s: "seal A subkey zero_nonce [] [] = Some (ct, tag)" and p: "packet = salt @ ct @ tag"
    using assms(3) by (auto simp: encrypt_udp_def and_then_eq_Inr elim!: ok_or.elims)
  have "length ct = length ([] :: bytes) \<and> length tag = 16
      \<and> unseal A subkey zero_nonce [] ct tag = Some []"
    using assms(1) s unfolding aead_ok_def by blast
  then show ?thesis
    using assms(2) k p by (auto simp: decrypt_in_place_def decrypt_udp_def crypto_consts Let_def)
qed

lemma chain_step_simps [simp]:
  "chain_step sha c None = Some (sha c)"
  "chain_step sha c (Some prev) = Some (sha (prev @ sha c))"
  by (simp_all add: chain_step_def)

lemma fold_chain_Some:
  "sha256_ok sha \<Longrightarrow> length h = 32 \<Longrightarrow>
   \<exists>h'. fold (chain_step sha) cs (Some h) = Some h' \<and> length h' = 32"
  by (induction cs arbitrary: h) (auto simp: sha256_ok_def)

text \<open>The texts that are hashed while the hash of a chain is computed, in order.\<close>

fun chain_inputs :: "(bytes \<Rightarrow> bytes) \<Rightarrow> bytes option \<Rightarrow> bytes list \<Rightarrow> bytes list" where
  "chain_inputs sha chain [] = []"
| "chain_inputs sha chain (cert # certs) =
     cert # (case chain of None \<Rightarrow> [] | Some prev \<Rightarrow> [prev @ sha cert]) @ chain_inputs sha (chain_step sha cert chain) certs"

definition chain_collision :: "(bytes \<Rightarrow> bytes) \<Rightarrow> bytes list \<Rightarrow> bytes list \<Rightarrow> bool" where
  "chain_collision sha cs ds \<longleftrightarrow>
     (\<exists>u \<in> set (chain_inputs sha None cs). \<exists>v \<in> set (chain_inputs sha None ds). u \<noteq> v \<and> sha u = sha v)"

lemma chain_inputs_append:
  "chain_inputs sha p (cs @ ds) = chain_inputs sha p cs @ chain_inputs sha (fold (chain_step sha) cs p) ds"
  by (induction cs arbitrary: p) simp_all

lemma chain_hash_snoc:
  "generate_cert_chain_hash sha (cs @ [c]) = sha (if cs = [] then c else generate_cert_chain_hash sha cs @ sha c)"
proof (cases "fold (chain_step sha) cs None")
  case None
  then have "cs = []" by (cases cs rule: rev_cases) (simp_all add: chain_step_def Let_def)
  then show ?thesis by (simp add: generate_cert_chain_hash_def)
next
  case (Some h)
  then have "cs \<noteq> []" by auto
  with Some show ?thesis by (simp add: generate_cert_chain_hash_def)
qed

lemma chain_inputs_snoc:
  "set (chain_inputs sha None (cs @ [c])) =
   set (chain_inputs sha None cs) \<union> {c, if cs = [] then c else generate_cert_chain_hash sha cs @ sha c}"
proof (cases "fold (chain_step sha) cs None")
  case None
  then have "cs = []" by (cases cs rule: rev_cases) (simp_all add: chain_step_def Let_def)
  then show ?thesis by simp
next
  case (Some h)
  then have "cs \<noteq> []" by auto
  with Some show ?thesis by (auto simp: generate_cert_chain_hash_def chain_inputs_append)
qed

lemma chain_hash_length:
  assumes "sha256_ok sha" "cs \<noteq> []"
  shows "length (generate_cert_chain_hash sha cs) = 32"
  using assms by (cases cs rule: rev_cases) (simp_all add: chain_hash_snoc sha256_ok_def)

text \<open>The chain hash binds the whole chain: two different chains with the same hash exhibit, among the
  very texts that were hashed for them, two that collide; unless the chains have different lengths
  and the first certificate of one of them is a text of 64 bytes, which no certificate is.\<close>

lemma cert_chain_hash_binding:
  assumes "sha256_ok sha"
  shows "cs \<noteq> [] \<Longrightarrow> ds \<noteq> [] \<Longrightarrow> cs \<noteq> ds \<Longrightarrow>
    generate_cert_chain_hash sha cs = generate_cert_chain_hash sha ds \<Longrightarrow>
    chain_collision sha cs ds \<or> length cs \<noteq> length ds \<and> (length (hd cs) = 64 \<or> length (hd ds) = 64)"
proof (induction cs arbitrary: ds rule: rev_induct)
  case (snoc c cs)
  obtain d ds' where ds: "ds = ds' @ [d]" using snoc.prems(2) by (cases ds rule: rev_cases) auto
  define x where "x = (if cs = [] then c else generate_cert_chain_hash sha cs @ sha c)"
  define y where "y = (if ds' = [] then d else generate_cert_chain_hash sha ds' @ sha d)"
  have xy: "sha x = sha y" using snoc.prems(4) by (simp add: ds chain_hash_snoc x_def y_def)
  have ins: "{x, c} \<subseteq> set (chain_inputs sha None (cs @ [c]))" "{y, d} \<subseteq> set (chain_inputs sha None ds)"
    by (auto simp: ds chain_inputs_snoc x_def y_def)
  have len: "length (sha z) = 32" for z using assms by (simp add: sha256_ok_def)
  show ?case
  proof (cases "x = y")
    case False
    then show ?thesis using ins xy unfolding chain_collision_def by blast
  next
    case True
    consider "cs = []" "ds' = []" | "cs = []" "ds' \<noteq> []" | "cs \<noteq> []" "ds' = []" | "cs \<noteq> []" "ds' \<noteq> []" by blast
    then show ?thesis
    proof cases
      case 1
      with True snoc.prems(3) show ?thesis by (simp add: x_def y_def ds)
    next
      case 2
      then have "c = generate_cert_chain_hash sha ds' @ sha d" using True by (simp add: x_def y_def)
      then have "length c = 64" using chain_hash_length [OF assms 2(2)] len by simp
      with 2 show ?thesis by (simp add: ds)
    next
      case 3
      then have "d = generate_cert_chain_hash sha cs @ sha c" using True by (simp add: x_def y_def)
      then have "length d = 64" using chain_hash_length [OF assms 3(1)] len by simp
      with 3 show ?thesis by (simp add: ds)
    next
      case 4
      have h: "generate_cert_chain_hash sha cs = generate_cert_chain_hash sha ds'" "sha c = sha d"
        using True 4 chain_hash_length [OF assms 4(1)] chain_hash_length [OF assms 4(2)] by (simp_all add: x_def y_def)
      show ?thesis
      proof (cases "c = d")
        case False
        then show ?thesis using ins h(2) unfolding chain_collision_def by blast
      next
        case eq: True
        then have "cs \<noteq> ds'" using snoc.prems(3) ds by simp
        from snoc.IH [OF 4 this h(1)] 4 show ?thesis
          unfolding ds chain_collision_def chain_inputs_snoc by auto
      qed
    qed
  qed
qed simp

end
