(* ===== verification/Inflight.thy ===== *)
theory Inflight
  imports Protocol Consts
begin

text \<open>
  \<open>server/src/inflight.rs\<close>: the table that matches non-QUIC packets with the authentication
  received on the QUIC stream.

  \<^item> \<open>inflight\<close> is \<open>InFlightUnderlayKey\<close> with its mutex-protected state.  A \<open>Notify\<close> is an
    identity; \<open>notified\<close> holds the identities whose \<open>notify_waiters\<close> was called.  An entry
    leaves the \<open>waiting\<close> map together with that call, and a packet only registers through the
    map, so a registered packet is woken exactly when its identity is in \<open>notified\<close>.
  \<^item> \<open>store\<close>, \<open>cleanup\<close> and the three critical sections of \<open>evict\<close> (\<open>evict_claim\<close>,
    \<open>evict_verify\<close>, \<open>evict_register\<close>) are functions on the table.  Clock readings are
    arguments, in any order: nothing below depends on the clock being monotone.
  \<^item> \<open>istep\<close> interleaves any number of \<open>evict\<close> calls with \<open>store\<close> and \<open>cleanup\<close>, one critical
    section at a time; the two lists of keys in \<open>isys\<close> are history, read by no step.
\<close>

section \<open>The table\<close>

type_synonym inflight_key = bytes

record inflight =
  ttl :: nat
  evict_timeout :: nat
  auths :: "(inflight_key, underlay_auth \<times> nat) hashmap"
  waiting :: "(inflight_key, nat \<times> nat) hashmap"
  next_notify :: nat
  notified :: "nat list"

definition inflight_new :: "nat \<Rightarrow> nat \<Rightarrow> inflight" where
  "inflight_new ttl_ms evict_ms = \<lparr>ttl = ttl_ms, evict_timeout = evict_ms, auths = [], waiting = [],
     next_notify = 0, notified = []\<rparr>"

text \<open>The two \<open>retain\<close> calls; a dropped waiter is notified.\<close>

definition retain_auths :: "nat \<Rightarrow> inflight \<Rightarrow> inflight" where
  "retain_auths now t = t\<lparr>auths := hm_retain (\<lambda>_ (_, inserted_at). now - inserted_at \<le> ttl t) (auths t)\<rparr>"

definition retain_waiting :: "nat \<Rightarrow> inflight \<Rightarrow> inflight" where
  "retain_waiting now t =
     (let keep = (\<lambda>(_ :: inflight_key) (_ :: nat, inserted_at). now - inserted_at \<le> evict_timeout t) in
      t\<lparr>waiting := hm_retain keep (waiting t),
        notified := map (fst \<circ> snd) (hm_retain (\<lambda>k v. \<not> keep k v) (waiting t)) @ notified t\<rparr>)"

definition insert_auth :: "nat \<Rightarrow> inflight_key \<Rightarrow> underlay_auth \<Rightarrow> inflight \<Rightarrow> inflight" where
  "insert_auth now key auth t =
     (let t1 = t\<lparr>auths := hm_insert key (auth, now) (auths t)\<rparr> in
      case hm_get (waiting t1) key of
        Some (notify, _) \<Rightarrow> t1\<lparr>waiting := hm_remove key (waiting t1), notified := notify # notified t1\<rparr>
      | None \<Rightarrow> t1)"

definition store :: "nat \<Rightarrow> inflight_key \<Rightarrow> underlay_auth \<Rightarrow> inflight \<Rightarrow> inflight" where
  "store now key auth t =
     (if \<not> hm_contains (auths t) key \<and> max_in_flight_underlay_entries \<le> length (auths t)
      then let t1 = retain_auths now t in
           if max_in_flight_underlay_entries \<le> length (auths t1) then t1
           else insert_auth now key auth t1
      else insert_auth now key auth t)"

definition cleanup :: "nat \<Rightarrow> inflight \<Rightarrow> inflight" where
  "cleanup now t = retain_waiting now (retain_auths now t)"

section \<open>One call of \<open>evict\<close>\<close>

datatype 'a evict_pc =
    Claim
  | Verify underlay_auth nat
  | Register
  | Waiting nat
  | Done "(underlay_auth \<times> 'a) option"

definition evict_claim :: "inflight \<Rightarrow> inflight_key \<Rightarrow> 'a evict_pc" where
  "evict_claim t key = (case hm_get (auths t) key of
     Some (auth, inserted_at) \<Rightarrow> Verify auth inserted_at | None \<Rightarrow> Register)"

definition evict_verify ::
  "inflight \<Rightarrow> inflight_key \<Rightarrow> (underlay_auth \<Rightarrow> 'a option) \<Rightarrow> underlay_auth \<Rightarrow> nat \<Rightarrow> inflight \<times> 'a evict_pc" where
  "evict_verify t key authenticate auth inserted_at =
     (case authenticate auth of
        None \<Rightarrow> (t, Done None)
      | Some verified \<Rightarrow>
          (case hm_get (auths t) key of
             Some (_, stored_at) \<Rightarrow>
               if stored_at = inserted_at
               then (t\<lparr>auths := hm_remove key (auths t)\<rparr>, Done (Some (auth, verified)))
               else (t, Done None)
           | None \<Rightarrow> (t, Done None)))"

definition waiter_entry :: "nat \<Rightarrow> inflight \<Rightarrow> inflight_key \<Rightarrow> inflight \<times> 'a evict_pc" where
  "waiter_entry now t key =
     (case hm_get (waiting t) key of
        Some (notify, _) \<Rightarrow> (t, Waiting notify)
      | None \<Rightarrow> (t\<lparr>waiting := hm_insert key (next_notify t, now) (waiting t),
                  next_notify := Suc (next_notify t)\<rparr>, Waiting (next_notify t)))"

definition evict_register :: "nat \<Rightarrow> nat \<Rightarrow> inflight \<Rightarrow> inflight_key \<Rightarrow> inflight \<times> 'a evict_pc" where
  "evict_register now now' t key =
     (if hm_contains (auths t) key then (t, Claim)
      else if \<not> hm_contains (waiting t) key \<and> max_in_flight_underlay_entries \<le> length (waiting t)
      then let t1 = retain_waiting now t in
           if max_in_flight_underlay_entries \<le> length (waiting t1) then (t1, Done None)
           else waiter_entry now' t1 key
      else waiter_entry now' t key)"

section \<open>Interleaving\<close>

record 'a evict_task =
  et_key :: inflight_key
  et_check :: "underlay_auth \<Rightarrow> 'a option"
  et_pc :: "'a evict_pc"

record 'a isys =
  table :: inflight
  tasks :: "(nat, 'a evict_task) hashmap"
  stored :: "(inflight_key \<times> underlay_auth) list"
  consumed :: "inflight_key list"

definition set_task :: "nat \<Rightarrow> 'a evict_task \<Rightarrow> 'a evict_pc \<Rightarrow> inflight \<Rightarrow> 'a isys \<Rightarrow> 'a isys" where
  "set_task i p pc t s = s\<lparr>table := t, tasks := hm_insert i (p\<lparr>et_pc := pc\<rparr>) (tasks s)\<rparr>"

inductive istep :: "'a isys \<Rightarrow> 'a isys \<Rightarrow> bool" where
  Store: "istep s (s\<lparr>table := store now key auth (table s), stored :=
      (if hm_contains (auths (store now key auth (table s))) key then [(key, auth)] else []) @ stored s\<rparr>)"
| Cleanup: "istep s (s\<lparr>table := cleanup now (table s)\<rparr>)"
| Spawn: "hm_get (tasks s) i = None \<Longrightarrow>
    istep s (s\<lparr>tasks := hm_insert i \<lparr>et_key = key, et_check = check, et_pc = Claim\<rparr> (tasks s)\<rparr>)"
| Claim_step: "\<lbrakk>hm_get (tasks s) i = Some p; et_pc p = Claim\<rbrakk> \<Longrightarrow>
    istep s (set_task i p (evict_claim (table s) (et_key p)) (table s) s)"
| Verify_step: "\<lbrakk>hm_get (tasks s) i = Some p; et_pc p = Verify auth at;
      evict_verify (table s) (et_key p) (et_check p) auth at = (t, pc)\<rbrakk> \<Longrightarrow>
    istep s ((set_task i p pc t s)
      \<lparr>consumed := (if pc = Done None then consumed s else et_key p # consumed s)\<rparr>)"
| Register_step: "\<lbrakk>hm_get (tasks s) i = Some p; et_pc p = Register;
      evict_register now now' (table s) (et_key p) = (t, pc)\<rbrakk> \<Longrightarrow>
    istep s (set_task i p pc t s)"
| Wake: "\<lbrakk>hm_get (tasks s) i = Some p; et_pc p = Waiting n; n \<in> set (notified (table s))\<rbrakk> \<Longrightarrow>
    istep s (set_task i p Claim (table s) s)"
| Timeout: "\<lbrakk>hm_get (tasks s) i = Some p; et_pc p = Waiting n\<rbrakk> \<Longrightarrow>
    istep s (set_task i p (Done None) (table s) s)"

definition isys_init :: "'a isys \<Rightarrow> bool" where
  "isys_init s = ((\<exists>a b. table s = inflight_new a b) \<and> tasks s = [] \<and> stored s = [] \<and> consumed s = [])"

section \<open>The table invariant\<close>

definition inflight_wf :: "inflight \<Rightarrow> bool" where
  "inflight_wf t = (hm_wf (auths t) \<and> hm_wf (waiting t)
     \<and> length (auths t) \<le> max_in_flight_underlay_entries
     \<and> length (waiting t) \<le> max_in_flight_underlay_entries
     \<and> (\<forall>k. \<not> (hm_contains (auths t) k \<and> hm_contains (waiting t) k)))"


lemmas inflight_defs = inflight_wf_def retain_auths_def retain_waiting_def insert_auth_def waiter_entry_def

lemma hm_contains_retain: "hm_wf m \<Longrightarrow> hm_contains (hm_retain P m) k \<Longrightarrow> hm_contains m k"
  by (auto simp: hm_contains_def hm_get_retain split: option.splits)

lemma hm_contains_simps [simp]:
  "hm_contains (hm_insert k v m) k' \<longleftrightarrow> k' = k \<or> hm_contains m k'"
  "hm_contains (hm_remove k m) k' \<longleftrightarrow> k' \<noteq> k \<and> hm_contains m k'"
  by (auto simp: hm_contains_def)

lemma retain_auths_wf: "inflight_wf t \<Longrightarrow> inflight_wf (retain_auths now t)"
  unfolding inflight_defs
  by (auto dest: hm_contains_retain intro: order_trans [OF length_hm_retain])

lemma retain_waiting_wf: "inflight_wf t \<Longrightarrow> inflight_wf (retain_waiting now t)"
  unfolding inflight_defs Let_def
  by (auto dest: hm_contains_retain intro: order_trans [OF length_hm_retain])

lemma insert_auth_wf:
  assumes "inflight_wf t" "hm_contains (auths t) key \<or> length (auths t) < max_in_flight_underlay_entries"
  shows "inflight_wf (insert_auth now key auth t)"
  using assms length_hm_remove [of key "waiting t"] unfolding inflight_defs Let_def
  by (auto simp: length_hm_insert hm_contains_def split: option.splits)

lemma waiter_entry_wf:
  assumes "inflight_wf t" "\<not> hm_contains (auths t) key"
    "hm_contains (waiting t) key \<or> length (waiting t) < max_in_flight_underlay_entries"
    "waiter_entry now t key = (t', pc)"
  shows "inflight_wf t'"
proof (cases "hm_get (waiting t) key")
  case None
  then have "\<not> hm_contains (waiting t) key" by (simp add: hm_contains_def)
  with None assms show ?thesis by (auto simp: inflight_wf_def waiter_entry_def length_hm_insert)
qed (use assms in \<open>auto simp: waiter_entry_def\<close>)

lemma store_wf: "inflight_wf t \<Longrightarrow> inflight_wf (store now key auth t)"
  by (auto simp: store_def Let_def not_le intro!: insert_auth_wf retain_auths_wf)

lemma cleanup_wf: "inflight_wf t \<Longrightarrow> inflight_wf (cleanup now t)"
  by (simp add: cleanup_def retain_auths_wf retain_waiting_wf)

lemma evict_verify_wf:
  "inflight_wf t \<Longrightarrow> evict_verify t key check auth at = (t', pc) \<Longrightarrow> inflight_wf t'"
  using length_hm_remove [of key "auths t"]
  by (auto simp: evict_verify_def inflight_wf_def split: option.splits if_splits)

lemma auths_retain_waiting [simp]: "auths (retain_waiting now t) = auths t"
  by (simp add: retain_waiting_def Let_def)

lemma evict_register_wf:
  "inflight_wf t \<Longrightarrow> evict_register now now' t key = (t', pc) \<Longrightarrow> inflight_wf t'"
  by (auto simp: evict_register_def Let_def not_le split: if_splits
      intro: retain_waiting_wf waiter_entry_wf elim!: waiter_entry_wf [rotated 3])

section \<open>Waiters are never lost\<close>

text \<open>A registered waiter either stays registered or has been notified.\<close>

definition waiters_kept :: "inflight \<Rightarrow> inflight \<Rightarrow> bool" where
  "waiters_kept t t' = (set (notified t) \<subseteq> set (notified t')
     \<and> (\<forall>k n at. hm_get (waiting t) k = Some (n, at) \<longrightarrow>
          hm_get (waiting t') k = Some (n, at) \<or> n \<in> set (notified t')))"

lemma waiters_kept_refl [simp]: "waiters_kept t t"
  by (simp add: waiters_kept_def)

lemma waiters_kept_trans: "waiters_kept t u \<Longrightarrow> waiters_kept u v \<Longrightarrow> waiters_kept t v"
  unfolding waiters_kept_def by (meson subset_iff)

lemma waiters_kept_auths [simp]: "waiters_kept t (t\<lparr>auths := m\<rparr>)"
  by (simp add: waiters_kept_def)

lemma retain_auths_kept [simp]: "waiters_kept t (retain_auths now t)"
  by (simp add: retain_auths_def)

lemma retain_waiting_kept:
  assumes "inflight_wf t"
  shows "waiters_kept t (retain_waiting now t)"
proof -
  have "hm_get (waiting (retain_waiting now t)) k = Some (n, at) \<or> n \<in> set (notified (retain_waiting now t))"
    if g: "hm_get (waiting t) k = Some (n, at)" for k n at
  proof (cases "now - at \<le> evict_timeout t")
    case True
    then show ?thesis
      using assms g by (simp add: inflight_wf_def retain_waiting_def Let_def hm_get_retain)
  next
    case False
    have "(k, n, at) \<in> set (waiting t)" using g by (simp add: hm_get_def map_of_SomeD)
    with False show ?thesis
      by (force simp: retain_waiting_def Let_def hm_retain_def)
  qed
  then show ?thesis by (auto simp: waiters_kept_def) (simp add: retain_waiting_def Let_def)
qed

lemma insert_auth_kept: "waiters_kept t (insert_auth now key auth t)"
  by (auto simp: waiters_kept_def insert_auth_def Let_def split: option.splits)

lemma store_kept: "waiters_kept t (store now key auth t)"
  by (auto simp: store_def Let_def intro: insert_auth_kept waiters_kept_trans [OF retain_auths_kept])

lemma cleanup_kept: "inflight_wf t \<Longrightarrow> waiters_kept t (cleanup now t)"
  unfolding cleanup_def
  by (rule waiters_kept_trans [OF retain_auths_kept [of t now]])
    (simp add: retain_auths_wf retain_waiting_kept)

lemma waiter_entry_kept:
  "waiter_entry now t key = (t', pc) \<Longrightarrow>
   waiters_kept t t' \<and> (\<exists>n at. pc = Waiting n \<and> hm_get (waiting t') key = Some (n, at))"
  by (auto simp: waiters_kept_def waiter_entry_def split: option.splits)

lemma evict_register_kept:
  assumes "inflight_wf t" "evict_register now now' t key = (t', pc)"
  shows "waiters_kept t t' \<and> (pc = Claim \<or> pc = Done None
    \<or> (\<exists>n at. pc = Waiting n \<and> hm_get (waiting t') key = Some (n, at)))"
  using assms(2) retain_waiting_kept [OF assms(1), of now]
  by (auto simp: evict_register_def Let_def split: if_splits
      dest!: waiter_entry_kept intro: waiters_kept_trans)


section \<open>The system invariant\<close>

fun task_ok :: "inflight \<Rightarrow> (inflight_key \<times> underlay_auth) list \<Rightarrow> 'a evict_task \<Rightarrow> bool" where
  "task_ok t hist p = (case et_pc p of
     Verify auth _ \<Rightarrow> (et_key p, auth) \<in> set hist
   | Waiting n \<Rightarrow> n \<in> set (notified t) \<or> (\<exists>at. hm_get (waiting t) (et_key p) = Some (n, at))
   | Done (Some (auth, v)) \<Rightarrow> (et_key p, auth) \<in> set hist \<and> et_check p auth = Some v
   | _ \<Rightarrow> True)"

declare task_ok.simps [simp del]

definition history_ok :: "inflight \<Rightarrow> (inflight_key \<times> underlay_auth) list \<Rightarrow> inflight_key list \<Rightarrow> bool" where
  "history_ok t hist cons = (\<forall>k.
     count_list cons k + (if hm_contains (auths t) k then 1 else 0) \<le> count_list (map fst hist) k
     \<and> (\<forall>a at. hm_get (auths t) k = Some (a, at) \<longrightarrow> (k, a) \<in> set hist))"

definition isys_inv :: "'a isys \<Rightarrow> bool" where
  "isys_inv s = (inflight_wf (table s) \<and> history_ok (table s) (stored s) (consumed s)
     \<and> (\<forall>i p. hm_get (tasks s) i = Some p \<longrightarrow> task_ok (table s) (stored s) p))"

lemma task_ok_mono:
  "task_ok t hist p \<Longrightarrow> waiters_kept t t' \<Longrightarrow> set hist \<subseteq> set hist' \<Longrightarrow> task_ok t' hist' p"
  unfolding waiters_kept_def task_ok.simps
  by (auto split: evict_pc.splits option.splits) blast

text \<open>What each table operation does to the authentications.\<close>

definition auths_shrink :: "inflight \<Rightarrow> inflight \<Rightarrow> bool" where
  "auths_shrink t t' = (\<forall>k v. hm_get (auths t') k = Some v \<longrightarrow> hm_get (auths t) k = Some v)"

lemma history_ok_shrink:
  assumes "history_ok t hist cons" "auths_shrink t t'"
  shows "history_ok t' hist cons"
proof -
  have "hm_contains (auths t') k \<Longrightarrow> hm_contains (auths t) k" for k
    using assms(2) unfolding auths_shrink_def hm_contains_def by (metis option.exhaust option.distinct(1))
  then show ?thesis
    using assms unfolding history_ok_def auths_shrink_def
    by (smt (verit, best) add_le_mono dual_order.refl dual_order.trans zero_le)
qed

lemma retain_auths_shrink: "inflight_wf t \<Longrightarrow> auths_shrink t (retain_auths now t)"
  by (auto simp: auths_shrink_def retain_auths_def inflight_wf_def hm_get_retain
      split: option.splits if_splits)

lemma auths_insert_auth [simp]: "auths (insert_auth now key auth t) = hm_insert key (auth, now) (auths t)"
  by (auto simp: insert_auth_def Let_def split: option.splits)

lemma auths_waiter_entry: "waiter_entry now t key = (t', pc) \<Longrightarrow> auths t' = auths t"
  by (auto simp: waiter_entry_def split: option.splits)

lemma auths_evict_register: "evict_register now now' t key = (t', pc) \<Longrightarrow> auths t' = auths t"
  by (auto simp: evict_register_def Let_def split: if_splits dest!: auths_waiter_entry)

lemma history_ok_insert:
  "history_ok t hist cons \<Longrightarrow> history_ok (insert_auth now key auth t) ((key, auth) # hist) cons"
  unfolding history_ok_def by (intro allI, drule spec) (auto split: if_splits)

lemma store_history:
  assumes "inflight_wf t" "history_ok t hist cons"
  shows "history_ok (store now key auth t)
    ((if hm_contains (auths (store now key auth t)) key then [(key, auth)] else []) @ hist) cons"
proof -
  have r: "history_ok (retain_auths now t) hist cons"
    by (rule history_ok_shrink [OF assms(2) retain_auths_shrink [OF assms(1)]])
  have "hm_contains (auths (retain_auths now t)) key \<Longrightarrow> hm_contains (auths t) key"
    using assms(1) by (auto simp: retain_auths_def inflight_wf_def dest: hm_contains_retain)
  then show ?thesis
    using assms(2) r by (auto simp: store_def Let_def history_ok_insert)
qed

lemma verify_history:
  assumes "history_ok t hist cons" "evict_verify t key check auth at = (t', pc)"
  shows "history_ok t' hist (if pc = Done None then cons else key # cons)"
  using assms by (auto simp: evict_verify_def history_ok_def hm_contains_def
      split: option.splits if_splits) force+

lemma hm_get_set_task [simp]:
  "hm_get (tasks (set_task i p pc t s)) j = (if j = i then Some (p\<lparr>et_pc := pc\<rparr>) else hm_get (tasks s) j)"
  "table (set_task i p pc t s) = t" "stored (set_task i p pc t s) = stored s"
  "consumed (set_task i p pc t s) = consumed s"
  by (simp_all add: set_task_def)

text \<open>A step of one task keeps the invariant when it keeps the other waiters, the table and
  the history, and leaves its own task in order.\<close>

lemma isys_inv_task:
  assumes "isys_inv s" "inflight_wf t" "waiters_kept (table s) t" "history_ok t (stored s) cons"
    and "task_ok t (stored s) (p\<lparr>et_pc := pc\<rparr>)"
  shows "isys_inv ((set_task i p pc t s)\<lparr>consumed := cons\<rparr>)"
  using assms unfolding isys_inv_def by (auto intro: task_ok_mono)


lemma set_task_consumed: "set_task i p pc t s = (set_task i p pc t s)\<lparr>consumed := consumed s\<rparr>"
  by (simp add: set_task_def)

lemma evict_claim_ok:
  "history_ok t hist cons \<Longrightarrow> task_ok t hist (p\<lparr>et_pc := evict_claim t (et_key p)\<rparr>)"
  by (auto simp: evict_claim_def history_ok_def task_ok.simps split: option.split)

lemma evict_verify_ok:
  assumes "task_ok t hist p" "et_pc p = Verify auth at"
    and "evict_verify t (et_key p) (et_check p) auth at = (t', pc)"
  shows "task_ok t' hist (p\<lparr>et_pc := pc\<rparr>) \<and> waiters_kept t t'"
  using assms by (auto simp: evict_verify_def task_ok.simps split: option.splits if_splits)

lemma history_ok_auths: "history_ok t hist cons \<Longrightarrow> auths t' = auths t \<Longrightarrow> history_ok t' hist cons"
  by (simp add: history_ok_def)

lemma evict_register_ok:
  assumes "inflight_wf t" "evict_register now now' t (et_key p) = (t', pc)"
  shows "task_ok t' hist (p\<lparr>et_pc := pc\<rparr>)"
  using evict_register_kept [OF assms] by (auto simp: task_ok.simps)

lemma isys_invD:
  assumes "isys_inv s"
  shows "inflight_wf (table s)" "history_ok (table s) (stored s) (consumed s)"
    "hm_get (tasks s) i = Some p \<Longrightarrow> task_ok (table s) (stored s) p"
  using assms by (auto simp: isys_inv_def)

lemma isys_inv_step: "istep s s' \<Longrightarrow> isys_inv s \<Longrightarrow> isys_inv s'"
proof (induction rule: istep.induct)
  case (Store s now key auth)
  then show ?case
    by (auto simp: isys_inv_def store_wf store_history intro!: task_ok_mono [OF _ store_kept])
next
  case (Cleanup s now)
  have "auths_shrink (table s) (cleanup now (table s))"
    using Cleanup retain_auths_shrink by (simp add: cleanup_def auths_shrink_def isys_inv_def)
  with Cleanup show ?case
    by (auto simp: isys_inv_def cleanup_wf intro: history_ok_shrink task_ok_mono [OF _ cleanup_kept])
next
  case (Spawn s i key check)
  then show ?case by (auto simp: isys_inv_def task_ok.simps)
next
  case (Claim_step s i p)
  then show ?case
    by (subst set_task_consumed) (auto intro!: isys_inv_task evict_claim_ok simp: isys_inv_def)
next
  case (Verify_step s i p auth at t pc)
  note inv = isys_invD [OF Verify_step.prems]
  note ok = evict_verify_ok [OF inv(3) [OF Verify_step.hyps(1)] Verify_step.hyps(2,3)]
  show ?case
    using ok by (intro isys_inv_task [OF Verify_step.prems evict_verify_wf [OF inv(1)]]
        verify_history [OF inv(2)]) (auto intro: Verify_step.hyps(3))
next
  case (Register_step s i p now now' t pc)
  note inv = isys_invD [OF Register_step.prems]
  note reg = Register_step.hyps(3)
  have "isys_inv ((set_task i p pc t s)\<lparr>consumed := consumed s\<rparr>)"
    using evict_register_kept [OF inv(1) reg]
    by (intro isys_inv_task [OF Register_step.prems evict_register_wf [OF inv(1) reg]]
        history_ok_auths [OF inv(2) auths_evict_register [OF reg]] evict_register_ok [OF inv(1) reg]) blast
  then show ?case by (simp flip: set_task_consumed)
next
  case (Wake s i p n)
  then show ?case
    by (subst set_task_consumed) (auto intro!: isys_inv_task simp: isys_inv_def task_ok.simps)
next
  case (Timeout s i p n)
  then show ?case
    by (subst set_task_consumed) (auto intro!: isys_inv_task simp: isys_inv_def task_ok.simps)
qed

lemma isys_inv_init: "isys_init s \<Longrightarrow> isys_inv s"
  by (auto simp: isys_init_def isys_inv_def inflight_new_def inflight_wf_def history_ok_def
      hm_contains_def)

interpretation inflight_table: invariant_system isys_init istep isys_inv
  by unfold_locales (auto intro: isys_inv_init isys_inv_step)


section \<open>A concrete run\<close>

text \<open>A packet arrives before its authentication, waits, is notified by \<open>store\<close> and consumes
  the entry.\<close>

definition demo_table :: "(inflight_key, underlay_auth \<times> nat) hashmap \<Rightarrow>
    (inflight_key, nat \<times> nat) hashmap \<Rightarrow> nat \<Rightarrow> nat list \<Rightarrow> inflight" where
  "demo_table a w n ns = \<lparr>ttl = 10000, evict_timeout = 100, auths = a, waiting = w,
     next_notify = n, notified = ns\<rparr>"

definition demo_task :: "unit evict_pc \<Rightarrow> (nat, unit evict_task) hashmap" where
  "demo_task pc = [(0, \<lparr>et_key = [7], et_check = (\<lambda>_. Some ()), et_pc = pc\<rparr>)]"

definition demo_waiting :: "unit isys" where
  "demo_waiting = \<lparr>table = demo_table [([7], sample_auth, 5)] [] 1 [0], tasks = demo_task (Waiting 0),
     stored = [([7], sample_auth)], consumed = []\<rparr>"

definition demo_done :: "unit isys" where
  "demo_done = \<lparr>table = demo_table [] [] 1 [0], tasks = demo_task (Done (Some (sample_auth, ()))),
     stored = [([7], sample_auth)], consumed = [[7]]\<rparr>"

lemmas demo_defs = demo_table_def demo_task_def demo_waiting_def demo_done_def set_task_def
  hm_get_def hm_contains_def hm_insert_def hm_remove_def max_in_flight_underlay_entries_def

lemma demo_waiting_reach: "reach isys_init istep demo_waiting"
proof -
  let ?s = "\<lambda>w n p. \<lparr>table = demo_table [] w n [], tasks = p, stored = [], consumed = []\<rparr> :: unit isys"
  have "reach isys_init istep (?s [] 0 [])"
    by (rule reach_init) (auto simp: isys_init_def inflight_new_def demo_table_def)
  moreover have "istep (?s [] 0 []) (?s [] 0 (demo_task Claim))"
    using Spawn [of "?s [] 0 []" 0 "[7]" "\<lambda>_. Some ()"] by (simp add: demo_defs)
  moreover have "istep (?s [] 0 (demo_task Claim)) (?s [] 0 (demo_task Register))"
    using Claim_step [of "?s [] 0 (demo_task Claim)" 0] by (simp add: demo_defs evict_claim_def)
  moreover have "istep (?s [] 0 (demo_task Register)) (?s [([7], 0, 3)] 1 (demo_task (Waiting 0)))"
    using Register_step [OF _ _ surjective_pairing, of "?s [] 0 (demo_task Register)" 0
        "snd (hd (demo_task Register))" 3 3]
    by (simp add: demo_defs evict_register_def waiter_entry_def)
  moreover have "istep (?s [([7], 0, 3)] 1 (demo_task (Waiting 0))) demo_waiting"
    using Store [of "?s [([7], 0, 3)] 1 (demo_task (Waiting 0))" 5 "[7]" sample_auth]
    by (simp add: demo_defs store_def insert_auth_def)
  ultimately show ?thesis by (blast intro: reach_step)
qed

lemma demo_done_reach: "reach isys_init istep demo_done"
proof -
  let ?s = "\<lambda>pc. demo_waiting\<lparr>tasks := demo_task pc\<rparr>"
  have "istep demo_waiting (?s Claim)"
    using Wake [of demo_waiting 0 _ 0] by (simp add: demo_defs)
  moreover have "istep (?s Claim) (?s (Verify sample_auth 5))"
    using Claim_step [of "?s Claim" 0] by (simp add: demo_defs evict_claim_def)
  moreover have "istep (?s (Verify sample_auth 5)) demo_done"
    using Verify_step [OF _ _ surjective_pairing, of "?s (Verify sample_auth 5)" 0
        "snd (hd (demo_task (Verify sample_auth 5)))" sample_auth 5]
    by (simp add: demo_defs evict_verify_def)
  ultimately show ?thesis using demo_waiting_reach by (blast intro: reach_step)
qed

section \<open>Properties\<close>

text \<open>\<^bold>\<open>C8.\<close>  However \<open>store\<close>, \<open>cleanup\<close> and any number of \<open>evict\<close> calls are interleaved, an
  authentication is used at most once: per salt, the successful \<open>evict\<close> calls and the entry
  still in the table are together at most the accepted \<open>store\<close> calls.\<close>

theorem inflight_single_use:
  assumes "reach isys_init istep s"
  shows "count_list (consumed s) k + (if hm_contains (auths (table s)) k then 1 else 0)
    \<le> count_list (map fst (stored s)) k"
  using inflight_table.reach_inv [OF assms] unfolding isys_inv_def history_ok_def by blast

theorem inflight_single_use_witness:
  "count_list (consumed demo_done) [7] = 1 \<and> count_list (map fst (stored demo_done)) [7] = 1
   \<and> \<not> hm_contains (auths (table demo_done)) [7]"
  using inflight_single_use [OF demo_done_reach, of "[7]"]
  by (simp add: demo_done_def split: if_splits)

text \<open>\<^bold>\<open>C9.\<close>  A packet is only accepted with an authentication that was stored for its salt
  and that its own check accepted, with the value the check returned.\<close>

theorem inflight_authentic:
  assumes "reach isys_init istep s" "hm_get (tasks s) i = Some p" "et_pc p = Done (Some (auth, v))"
  shows "(et_key p, auth) \<in> set (stored s) \<and> et_check p auth = Some v"
  using isys_invD(3) [OF inflight_table.reach_inv [OF assms(1)] assms(2)] assms(3)
  by (simp add: task_ok.simps)

theorem inflight_authentic_witness:
  "([7], sample_auth) \<in> set (stored demo_done)"
  using inflight_authentic [OF demo_done_reach, of 0 _ sample_auth "()"] by (simp add: demo_defs)

text \<open>\<^bold>\<open>C10.\<close>  No wake-up is lost: whenever the authentication of a waiting packet is in the
  table, the packet has been notified, and its next two steps bring it to the check of an
  authentication from the table.\<close>

theorem inflight_no_lost_wakeup:
  assumes "reach isys_init istep s" "hm_get (tasks s) i = Some p" "et_pc p = Waiting n"
    and "hm_get (auths (table s)) (et_key p) = Some (auth, at)"
  shows "n \<in> set (notified (table s)) \<and> (\<exists>s' s''. istep s s' \<and> istep s' s''
    \<and> hm_get (tasks s'') i = Some (p\<lparr>et_pc := Verify auth at\<rparr>))"
proof -
  note inv = isys_invD [OF inflight_table.reach_inv [OF assms(1)]]
  have "\<not> hm_contains (waiting (table s)) (et_key p)"
    using inv(1) assms(4) by (auto simp: inflight_wf_def hm_contains_def)
  then have n: "n \<in> set (notified (table s))"
    using inv(3) [OF assms(2)] assms(3) by (auto simp: task_ok.simps hm_contains_def)
  let ?s' = "set_task i p Claim (table s) s"
  let ?p = "p\<lparr>et_pc := Claim\<rparr>"
  let ?s'' = "set_task i ?p (evict_claim (table s) (et_key p)) (table s) ?s'"
  have "istep s ?s'" by (rule Wake [OF assms(2,3) n])
  moreover have "istep ?s' ?s''" using Claim_step [of ?s' i ?p] by simp
  moreover have "hm_get (tasks ?s'') i = Some (p\<lparr>et_pc := Verify auth at\<rparr>)"
    using assms(4) by (simp add: evict_claim_def)
  ultimately show ?thesis using n by blast
qed

theorem inflight_no_lost_wakeup_witness:
  "0 \<in> set (notified (table demo_waiting)) \<and> (\<exists>s' s''. istep demo_waiting s' \<and> istep s' s''
    \<and> (\<exists>p. hm_get (tasks s'') 0 = Some p \<and> et_pc p = Verify sample_auth 5))"
  using inflight_no_lost_wakeup [OF demo_waiting_reach, of 0 _ 0 sample_auth 5]
  by (force simp: demo_waiting_def demo_table_def demo_task_def hm_get_def)

text \<open>Both tables keep distinct keys and at most \<open>MAX_IN_FLIGHT_UNDERLAY_ENTRIES\<close>
  entries in every reachable state, and no salt is both authenticated and waited for.\<close>

lemma inflight_bounded:
  assumes "reach isys_init istep s"
  shows "length (auths (table s)) \<le> 10000 \<and> length (waiting (table s)) \<le> 10000
    \<and> distinct (map fst (auths (table s)) @ map fst (waiting (table s)))"
  using isys_invD(1) [OF inflight_table.reach_inv [OF assms]]
  by (auto simp: inflight_wf_def max_in_flight_underlay_entries_def hm_wf_def hm_contains_iff)

lemma inflight_bounded_witness:
  "length (auths (table demo_waiting)) \<le> 10000
    \<and> distinct (map fst (auths (table demo_waiting)) @ map fst (waiting (table demo_waiting)))"
  using inflight_bounded [OF demo_waiting_reach] by blast

text \<open>The entry of \<open>k\<close> if it is not expired at \<open>now\<close>, and the condition on which \<open>store\<close> first
  makes room.\<close>

definition fresh_auth :: "nat \<Rightarrow> inflight \<Rightarrow> inflight_key \<Rightarrow> (underlay_auth \<times> nat) option" where
  "fresh_auth now t k = (case hm_get (auths t) k of None \<Rightarrow> None
    | Some (a, at) \<Rightarrow> if now - at \<le> ttl t then Some (a, at) else None)"

definition needs_room :: "inflight \<Rightarrow> inflight_key \<Rightarrow> bool" where
  "needs_room t key = (\<not> hm_contains (auths t) key \<and> 10000 \<le> length (auths t))"

text \<open>What a lookup finds after \<open>store\<close> and after \<open>cleanup\<close>: \<open>store\<close> makes the new
  entry visible unless the table is full of other, unexpired entries, and touches an existing
  entry only by dropping expired ones when the table was full; \<open>cleanup\<close> drops exactly the
  authentications older than the time to live.\<close>

lemma inflight_lookup:
  assumes "inflight_wf t"
  shows "hm_get (auths (cleanup now t)) k = fresh_auth now t k
    \<and> (k \<noteq> key \<longrightarrow> hm_get (auths (store now key auth t)) k =
         (if needs_room t key then fresh_auth now t k else hm_get (auths t) k))
    \<and> hm_get (auths (store now key auth t)) key =
        (if needs_room t key \<and> 10000 \<le> length (auths (cleanup now t)) then None else Some (auth, now))"
proof -
  have r: "hm_get (auths (retain_auths now t)) k' = fresh_auth now t k'" for k'
    using assms(1) by (auto simp: retain_auths_def hm_get_retain inflight_wf_def fresh_auth_def
        split: option.splits)
  have "fresh_auth now t key = None" if "needs_room t key"
    using that by (auto simp: needs_room_def hm_contains_def fresh_auth_def split: option.split)
  with r show ?thesis
    by (auto simp: store_def cleanup_def needs_room_def Let_def max_in_flight_underlay_entries_def)
qed

end
