(* ===== verification/Tcp_Relay.thy ===== *)
theory Tcp_Relay
  imports Rust_Net Consts
begin

text \<open>
  \<open>server/src/tcp.rs\<close>: relaying a TCP connection with half-close and a shared idle deadline.

  \<open>copy_direction\<close> is run against the completions of its \<open>await\<close>s: a list of read completions
  and a list of write completions, each with the elapsed milliseconds at which it happened.
  Running out of completions is a copy that is still waiting (\<open>None\<close> as result).
  \<open>idle\<close> is run against the progress times that the two copies record.
\<close>

datatype io_error = ReadFailed | WriteFailed | WriteZero | ShutdownFailed | TimedOut | SliceIndex

datatype read_done = ReadErr | ReadBytes bytes
datatype write_done = WriteErr | Wrote nat

text \<open>What the other side has seen: the bytes written, whether the write side was shut down,
  and the shared activity stamp.\<close>

record copy =
  sent :: bytes
  shut :: bool
  activity :: nat

type_synonym io_result = "io_error + unit"

text \<open>The inner \<open>while\<close> loop on \<open>remaining\<close>.\<close>

fun write_remaining :: "(nat \<times> write_done) list \<Rightarrow> bytes \<Rightarrow> copy \<Rightarrow>
    copy \<times> (nat \<times> write_done) list \<times> io_result option" where
  "write_remaining ws [] c = (c, ws, Some (Inr ()))"
| "write_remaining [] (b # bs) c = (c, [], None)"
| "write_remaining ((t, WriteErr) # ws) (b # bs) c = (c, ws, Some (Inl WriteFailed))"
| "write_remaining ((t, Wrote written) # ws) (b # bs) c =
     (if written = 0 then (c, ws, Some (Inl WriteZero))
      else if length (b # bs) < written then (c, ws, Some (Inl SliceIndex))
      else write_remaining ws (drop written (b # bs))
             (c\<lparr>sent := sent c @ take written (b # bs), activity := t + 1\<rparr>))"

text \<open>\<open>down\<close> is the outcome of \<open>writer.shutdown()\<close>.\<close>

fun copy_direction :: "(nat \<times> read_done) list \<Rightarrow> (nat \<times> write_done) list \<Rightarrow> io_result \<Rightarrow> copy \<Rightarrow>
    copy \<times> io_result option" where
  "copy_direction [] ws down c = (c, None)"
| "copy_direction ((t, ReadErr) # rs) ws down c = (c, Some (Inl ReadFailed))"
| "copy_direction ((t, ReadBytes bs) # rs) ws down c =
     (if bs = [] then (c\<lparr>shut := True\<rparr>, Some down)
      else (case write_remaining ws bs (c\<lparr>activity := t + 1\<rparr>) of
              (c', ws', Some (Inr _)) \<Rightarrow> copy_direction rs ws' down c'
            | (c', ws', r) \<Rightarrow> (c', r)))"

text \<open>\<open>tokio::try_join!\<close>: the first error, or both done.\<close>

fun try_join :: "io_result option \<Rightarrow> io_result option \<Rightarrow> io_result option" where
  "try_join (Some (Inl e)) r = Some (Inl e)"
| "try_join r (Some (Inl e)) = Some (Inl e)"
| "try_join (Some (Inr _)) (Some (Inr _)) = Some (Inr ())"
| "try_join _ _ = None"

text \<open>The stamp that \<open>activity.load\<close> returns at time \<open>d\<close>, after progress at the given times.\<close>

definition activity_at :: "nat list \<Rightarrow> nat \<Rightarrow> nat" where
  "activity_at progress d = (let ps = filter (\<lambda>t. t \<le> d) progress in if ps = [] then 1 else Max (set ps) + 1)"

text \<open>The stamps that can be observed: the initial one and those of the recorded progress.\<close>

definition stamps :: "nat list \<Rightarrow> nat set" where
  "stamps progress = insert 1 (Suc ` set progress)"

lemma activity_at_stamp: "activity_at ps d \<in> stamps ps"
proof (cases "filter (\<lambda>t. t \<le> d) ps = []")
  case False
  then have "Max (set (filter (\<lambda>t. t \<le> d) ps)) \<in> set (filter (\<lambda>t. t \<le> d) ps)"
    by (intro Max_in finite_set) (simp only: set_empty not_False_eq_True)
  with False show ?thesis by (auto simp: activity_at_def stamps_def Let_def)
qed (simp add: activity_at_def stamps_def Let_def)

lemma activity_at_ge: "t \<in> set ps \<Longrightarrow> t \<le> d \<Longrightarrow> t < activity_at ps d"
proof -
  assume t: "t \<in> set ps" "t \<le> d"
  then have "t \<le> Max (set (filter (\<lambda>t. t \<le> d) ps))" by (intro Max_ge) auto
  moreover have "filter (\<lambda>t. t \<le> d) ps \<noteq> []" using t by (auto simp: filter_empty_conv)
  ultimately show ?thesis by (simp add: activity_at_def Let_def)
qed

lemma activity_at_pos: "1 \<le> activity_at ps d"
  by (simp add: activity_at_def Let_def)

lemma stamp_kept: "seen \<in> stamps ps \<Longrightarrow> seen \<le> activity_at ps (seen + T)"
  using activity_at_pos [of ps "seen + T"] activity_at_ge [of "seen - 1" ps "seen + T"]
  by (auto simp: stamps_def)

lemma later_stamps_decrease:
  assumes "activity_at ps (seen + T) \<noteq> seen"
  defines "later \<equiv> \<lambda>s. if s \<in> stamps ps then card {x \<in> stamps ps. s < x} else Suc (card (stamps ps))"
  shows "later (activity_at ps (seen + T)) < later seen"
proof -
  let ?c = "activity_at ps (seen + T)"
  have fin: "finite (stamps ps)" by (simp add: stamps_def)
  have c: "?c \<in> stamps ps" by (rule activity_at_stamp)
  show ?thesis
  proof (cases "seen \<in> stamps ps")
    case True
    then have "seen < ?c" using assms(1) stamp_kept [of seen ps T] by simp
    then have "{x \<in> stamps ps. ?c < x} \<subset> {x \<in> stamps ps. seen < x}" using c by auto
    then show ?thesis using True c fin by (simp add: later_def psubset_card_mono)
  next
    case False
    have "card {x \<in> stamps ps. ?c < x} \<le> card (stamps ps)" using fin by (intro card_mono) auto
    with False c show ?thesis by (simp add: later_def)
  qed
qed

text \<open>The idle loop: the time at which it breaks.\<close>

function idle_loop :: "nat list \<Rightarrow> nat \<Rightarrow> nat \<Rightarrow> nat" where
  "idle_loop progress idle_timeout seen =
     (let deadline = seen + idle_timeout;
          current = activity_at progress deadline
      in if current = seen then deadline else idle_loop progress idle_timeout current)"
  by pat_completeness auto
termination
proof (relation "measure (\<lambda>(ps, T, seen). if seen \<in> stamps ps then card {x \<in> stamps ps. seen < x}
    else Suc (card (stamps ps)))", goal_cases)
  case (2 ps T seen)
  then show ?case using later_stamps_decrease [of ps seen T] by simp
qed simp

declare idle_loop.simps [simp del]

text \<open>The first look is at the stamp at the start.\<close>

definition idle :: "nat list \<Rightarrow> nat \<Rightarrow> nat" where
  "idle progress idle_timeout = idle_loop progress idle_timeout (activity_at progress 0)"

text \<open>\<open>tokio::select!\<close> in \<open>relay\<close>: the copies, or the idle timer at time \<open>now\<close>.\<close>

definition relay_poll :: "io_result option \<Rightarrow> io_result option \<Rightarrow> nat list \<Rightarrow> nat \<Rightarrow> nat \<Rightarrow> io_result option" where
  "relay_poll up down progress idle_timeout now =
     (case try_join up down of
        Some r \<Rightarrow> Some r
      | None \<Rightarrow> if idle progress idle_timeout \<le> now then Some (Inl TimedOut) else None)"

section \<open>Copying\<close>

text \<open>What a direction owes, stated over the read completions alone: the bytes read, and how
  the reading ended.\<close>

datatype reader_end = AtEof | AtError | StillReading

fun read_bytes :: "(nat \<times> read_done) list \<Rightarrow> bytes" where
  "read_bytes [] = []"
| "read_bytes ((t, ReadErr) # rs) = []"
| "read_bytes ((t, ReadBytes bs) # rs) = (if bs = [] then [] else bs @ read_bytes rs)"

fun read_end :: "(nat \<times> read_done) list \<Rightarrow> reader_end" where
  "read_end [] = StillReading"
| "read_end ((t, ReadErr) # rs) = AtError"
| "read_end ((t, ReadBytes bs) # rs) = (if bs = [] then AtEof else read_end rs)"

text \<open>The end of a direction that has written everything it read.\<close>

fun drained :: "reader_end \<Rightarrow> io_result \<Rightarrow> bool \<times> io_result option" where
  "drained AtEof down = (True, Some down)"
| "drained AtError down = (False, Some (Inl ReadFailed))"
| "drained StillReading down = (False, None)"

text \<open>The end of a direction that is stuck in the write loop: waiting, or a failed write.\<close>

definition write_stuck :: "io_result option \<Rightarrow> bool" where
  "write_stuck r \<longleftrightarrow> r = None \<or> (\<exists>e \<in> {WriteFailed, WriteZero, SliceIndex}. r = Some (Inl e))"

lemma drained_shut [simp]: "fst (drained e down) \<longleftrightarrow> e = AtEof"
  by (cases e) simp_all

lemma write_remaining_sent:
  "write_remaining ws bs c = (c', ws', r) \<Longrightarrow>
   shut c' = shut c \<and>
   (if r = Some (Inr ()) then sent c' = sent c @ bs
    else write_stuck r \<and> (\<exists>n < length bs. sent c' = sent c @ take n bs))"
proof (induction ws bs c rule: write_remaining.induct)
  case (3 t ws b bs c)
  then show ?case by (auto simp: write_stuck_def intro: exI [of _ 0])
next
  case (4 t written ws b bs c)
  show ?case
  proof (cases "written = 0 \<or> length (b # bs) < written")
    case True
    with "4.prems" show ?thesis by (auto simp: write_stuck_def split: if_splits intro!: exI [of _ 0])
  next
    case False
    let ?c = "c\<lparr>sent := sent c @ take written (b # bs), activity := t + 1\<rparr>"
    let ?rest = "drop written (b # bs)"
    have w: "write_remaining ws ?rest ?c = (c', ws', r)" using "4.prems" False by simp
    have IH: "shut c' = shut c" "if r = Some (Inr ()) then sent c' = sent ?c @ ?rest
        else write_stuck r \<and> (\<exists>n < length ?rest. sent c' = sent ?c @ take n ?rest)"
      using "4.IH" [OF _ _ w] False by auto
    have more: "take (written + n) (b # bs) = take written (b # bs) @ take n ?rest" for n
      by (simp add: take_add)
    show ?thesis
    proof (cases "r = Some (Inr ())")
      case True
      then show ?thesis using IH by (simp del: take_Cons drop_Cons)
    next
      case no: False
      then obtain n where n: "write_stuck r" "n < length ?rest" "sent c' = sent ?c @ take n ?rest"
        using IH(2) by auto
      have "written + n < length (b # bs)" using n(2) False by simp
      moreover have "sent c' = sent c @ take (written + n) (b # bs)" using n(3) more [of n] by simp
      ultimately show ?thesis using no n(1) IH(1) by auto
    qed
  qed
qed (auto simp: write_stuck_def intro: exI [of _ 0])

lemma copy_direction_owes:
  "copy_direction rs ws down c = (c', r) \<Longrightarrow> \<not> shut c \<Longrightarrow>
   (sent c' = sent c @ read_bytes rs \<and> (shut c', r) = drained (read_end rs) down)
   \<or> (\<exists>n < length (read_bytes rs). sent c' = sent c @ take n (read_bytes rs) \<and> \<not> shut c' \<and> write_stuck r)"
proof (induction rs ws down c rule: copy_direction.induct)
  case (3 t bs rs ws down c)
  show ?case
  proof (cases "bs = []")
    case True
    with "3.prems" show ?thesis by auto
  next
    case ne: False
    obtain c1 ws1 r1 where w: "write_remaining ws bs (c\<lparr>activity := t + 1\<rparr>) = (c1, ws1, r1)"
      by (metis prod_cases3)
    note W = write_remaining_sent [OF w]
    show ?thesis
    proof (cases "r1 = Some (Inr ())")
      case True
      then have c1: "sent c1 = sent c @ bs" "\<not> shut c1" using W "3.prems"(2) by simp_all
      have "copy_direction rs ws1 down c1 = (c', r)" using "3.prems"(1) ne w True by simp
      from "3.IH" [OF ne w [symmetric] refl True refl this c1(2)]
      consider "sent c' = sent c1 @ read_bytes rs" "(shut c', r) = drained (read_end rs) down"
        | n where "n < length (read_bytes rs)" "sent c' = sent c1 @ take n (read_bytes rs)" "\<not> shut c'" "write_stuck r"
        by auto
      then show ?thesis
      proof cases
        case 1
        then show ?thesis using ne c1 by simp
      next
        case (2 n)
        then have "length bs + n < length (read_bytes ((t, ReadBytes bs) # rs))"
          "sent c' = sent c @ take (length bs + n) (read_bytes ((t, ReadBytes bs) # rs))"
          using ne c1 by simp_all
        with 2 show ?thesis by blast
      qed
    next
      case False
      have cr: "c' = c1 \<and> r = r1"
        using "3.prems"(1) ne w False by (auto split: option.splits sum.splits)
      obtain n where n: "write_stuck r1" "n < length bs" "sent c1 = sent c @ take n bs" "\<not> shut c1"
        using W False "3.prems"(2) by auto
      then have "n < length (read_bytes ((t, ReadBytes bs) # rs))"
        "sent c1 = sent c @ take n (read_bytes ((t, ReadBytes bs) # rs))"
        using ne by simp_all
      with n cr show ?thesis by blast
    qed
  qed
qed auto


section \<open>Properties\<close>

text \<open>\<^bold>\<open>C20.\<close>  A copy never invents, reorders or loses bytes: what it has written is a prefix of what
  it read.  Once all of it is written, the copy ends as the reading ended: at end of file, and only
  then, it shuts the write side down and returns the outcome of the shutdown; a read error is
  returned and the write side stays open; else the copy waits for the next read.  While some of it is
  unwritten the write side is open, and the copy waits for the writer or returns a write error.\<close>

theorem copy_direction_faithful:
  assumes "copy_direction rs ws down \<lparr>sent = [], shut = False, activity = 1\<rparr> = (c, r)"
  shows "(\<exists>n. sent c = take n (read_bytes rs))
    \<and> (shut c \<longleftrightarrow> read_end rs = AtEof \<and> sent c = read_bytes rs)
    \<and> (sent c = read_bytes rs \<longrightarrow>
        r = (case read_end rs of AtEof \<Rightarrow> Some down | AtError \<Rightarrow> Some (Inl ReadFailed) | StillReading \<Rightarrow> None))
    \<and> (sent c \<noteq> read_bytes rs \<longrightarrow>
        r = None \<or> r = Some (Inl WriteFailed) \<or> r = Some (Inl WriteZero) \<or> r = Some (Inl SliceIndex))
    \<and> (r = Some (Inr ()) \<longrightarrow> shut c)"
proof -
  consider "sent c = read_bytes rs" "(shut c, r) = drained (read_end rs) down"
    | n where "n < length (read_bytes rs)" "sent c = take n (read_bytes rs)" "\<not> shut c" "write_stuck r"
    using copy_direction_owes [OF assms] by auto
  then show ?thesis
  proof cases
    case 1
    then show ?thesis by (cases "read_end rs") (auto intro: exI [of _ "length (read_bytes rs)"])
  next
    case (2 n)
    then have "sent c \<noteq> read_bytes rs" by (metis length_take min.absorb4 nat_less_le)
    with 2 show ?thesis by (auto simp: write_stuck_def)
  qed
qed

theorem copy_direction_faithful_witness:
  "sent (fst (copy_direction [(3, ReadBytes [1, 2, 3]), (9, ReadBytes [4]), (20, ReadErr)]
      [(4, Wrote 2), (5, Wrote 1), (10, Wrote 1)] (Inr ()) \<lparr>sent = [], shut = False, activity = 1\<rparr>)) = [1, 2, 3, 4]
   \<and> \<not> shut (fst (copy_direction [(3, ReadBytes [1, 2, 3]), (9, ReadBytes [4]), (20, ReadErr)]
      [(4, Wrote 2), (5, Wrote 1), (10, Wrote 1)] (Inr ()) \<lparr>sent = [], shut = False, activity = 1\<rparr>))"
proof -
  let ?rs = "[(3, ReadBytes [1, 2, 3]), (9, ReadBytes [4]), (20, ReadErr)]"
  have r: "copy_direction ?rs [(4, Wrote 2), (5, Wrote 1), (10, Wrote 1)] (Inr ())
      \<lparr>sent = [], shut = False, activity = 1\<rparr> =
      (\<lparr>sent = [1, 2, 3, 4], shut = False, activity = 11\<rparr>, Some (Inl ReadFailed))"
    by simp
  from copy_direction_faithful [OF r] show ?thesis by (simp add: r)
qed

lemma idle_loop_spec:
  assumes "seen \<in> stamps ps"
  shows "\<exists>s. s \<in> stamps ps \<and> idle_loop ps T seen = s + T \<and> activity_at ps (s + T) = s \<and> seen \<le> s"
  using assms
proof (induction ps T seen rule: idle_loop.induct)
  case (1 ps T seen)
  show ?case
  proof (cases "activity_at ps (seen + T) = seen")
    case True
    then show ?thesis
      using "1.prems" by (subst idle_loop.simps) (auto simp: Let_def)
  next
    case False
    let ?c = "activity_at ps (seen + T)"
    obtain s where s: "s \<in> stamps ps" "idle_loop ps T ?c = s + T" "activity_at ps (s + T) = s" "?c \<le> s"
      using "1.IH" [OF refl refl False activity_at_stamp] by blast
    moreover have "seen \<le> ?c" by (rule stamp_kept [OF "1.prems"])
    moreover have "idle_loop ps T seen = idle_loop ps T ?c"
      using False by (subst idle_loop.simps) (simp add: Let_def)
    ultimately show ?thesis by (intro exI [of _ s]) auto
  qed
qed

text \<open>The idle timer ends, and never while data is moving: when it fires at \<open>d\<close>, no byte
  was read or written in the \<open>idle_timeout\<close> milliseconds up to \<open>d\<close>, and all earlier progress is
  at least that old.\<close>

lemma idle_only_after_silence:
  "idle_timeout < idle progress idle_timeout
   \<and> (\<forall>t \<in> set progress. t \<le> idle progress idle_timeout \<longrightarrow> t + idle_timeout < idle progress idle_timeout)"
proof -
  obtain s where s: "idle progress idle_timeout = s + idle_timeout" "activity_at progress (s + idle_timeout) = s"
    using idle_loop_spec [OF activity_at_stamp, of progress idle_timeout 0] by (auto simp: idle_def)
  have "1 \<le> s" using activity_at_pos [of progress "s + idle_timeout"] s(2) by simp
  moreover have "t < s" if "t \<in> set progress" "t \<le> s + idle_timeout" for t
    using activity_at_ge [OF that] s(2) by simp
  ultimately show ?thesis using s(1) by auto
qed

lemma idle_only_after_silence_witness:
  "idle [5, 590000, 1100000] 600000 = 1700001
   \<and> 5 + 600000 < (1700001 :: nat) \<and> 1100000 + 600000 < (1700001 :: nat)"
proof -
  have i: "idle [5, 590000, 1100000] 600000 = 1700001"
    by (simp add: idle_def activity_at_def Let_def idle_loop.simps)
  with idle_only_after_silence [of 600000 "[5, 590000, 1100000]"] show ?thesis by simp
qed

end
