(* ===== verification/Server_Session.thy ===== *)
theory Server_Session
  imports Config Crypto Inflight Tcp_Relay
begin

text \<open>
  \<open>server/src/server.rs\<close>, one client connection: authentication, the reader of underlay
  authentications, and the dispatch of streams; with \<open>server/src/dialer.rs\<close>, which opens the
  outbound TCP connection of a stream.

  A QUIC stream is the list of the bytes it delivers before it ends.  The exporter of the TLS
  connection is the parameter \<open>export_keying\<close>.
\<close>

section \<open>Authentication\<close>

datatype server_error =
    Proto proto_error
  | AcceptUniFailed
  | UnsupportedVersion byte
  | ExpectedAuthenticate byte
  | UnknownUser uuid
  | TokenMismatch uuid
  | HandshakeFailed
  | AuthTimeout
  | UnknownNetwork byte
  | DialFailed
  | Relay io_error

definition handle_auth :: "(bytes \<Rightarrow> bytes \<Rightarrow> bytes option) \<Rightarrow> (uuid, string) hashmap \<Rightarrow> bytes option \<Rightarrow>
    server_error + (uuid \<times> bytes)" where
  "handle_auth export_keying users uni =
     and_then (ok_or AcceptUniFailed uni) (\<lambda>bs.
     and_then (map_err Proto (read_command_head_async bs)) (\<lambda>((version, cmd_type), bs).
       if version \<noteq> PROTOCOL_VERSION then Inl (UnsupportedVersion version)
       else if cmd_type \<noteq> AUTHENTICATE_TYPE then Inl (ExpectedAuthenticate cmd_type)
       else
       and_then (map_err Proto (read_authenticate_async bs)) (\<lambda>((uuid, received_token), bs).
       and_then (ok_or (UnknownUser uuid) (hm_get users uuid)) (\<lambda>password.
       and_then (map_err Proto (gen_token_via_connection export_keying uuid password)) (\<lambda>expected_token.
         if expected_token = received_token then Inr (uuid, bs) else Inl (TokenMismatch uuid))))))"

text \<open>What the client writes first on its unidirectional stream (\<open>client.rs\<close>, \<open>connect_to_address\<close>).\<close>

definition auth_message :: "uuid \<Rightarrow> bytes \<Rightarrow> bytes" where
  "auth_message uuid token = [PROTOCOL_VERSION, AUTHENTICATE_TYPE] @ uuid @ token"

section \<open>A connection\<close>

text \<open>What \<open>handle_connection\<close> does before it serves streams: it goes on with the user and the
  rest of the authentication stream, or closes with a code and a reason and fails.\<close>

datatype auth_outcome =
    Established uuid bytes
  | Rejected "(u32 \<times> string) option" server_error

text \<open>\<open>timely\<close>: the authentication finished within \<open>AUTHENTICATE_TIMEOUT\<close>.\<close>

definition authenticate_connection ::
  "(bytes \<Rightarrow> bytes \<Rightarrow> bytes option) \<Rightarrow> (uuid, string) hashmap \<Rightarrow> bool \<Rightarrow> bool \<Rightarrow> bytes option \<Rightarrow> auth_outcome" where
  "authenticate_connection export_keying users handshake timely uni =
     (if \<not> handshake then Rejected None HandshakeFailed
      else if \<not> timely then Rejected (Some (0xfffffff2, ''authentication timeout'')) AuthTimeout
      else case handle_auth export_keying users uni of
        Inr (uuid, rest) \<Rightarrow> Established uuid rest
      | Inl e \<Rightarrow> Rejected (Some (0xfffffff1, ''authentication failed'')) e)"

lemma read_exact_length: "read_exact n bs = Inr (xs, ys) \<Longrightarrow> length bs = n + length ys \<and> length xs = n"
  by (auto simp: read_exact_def take_exact_def split: if_splits)

lemma read_metadata_length:
  "read_underlay_metadata_async bs = Inr (hp, rest) \<Longrightarrow> length rest \<le> length bs"
  by (auto simp: read_underlay_metadata_async_def and_then_eq_Inr Let_def
      split: if_splits dest!: read_exact_length)

lemma read_underlay_auth_length:
  "read_underlay_auth_async bs = Inr (a, rest) \<Longrightarrow>
   length rest < length bs \<and> length (ua_psk a) = 32 \<and> length (ua_iv a) = 32"
  by (auto simp: read_underlay_auth_async_def and_then_eq_Inr UNDERLAY_PSK_LEN_def
      dest!: read_exact_length read_metadata_length)

text \<open>The spawned reader of the authentication stream; \<open>clock i\<close> is the time of its \<open>i\<close>-th
  \<open>store\<close>.\<close>

function auth_reader :: "(nat \<Rightarrow> nat) \<Rightarrow> nat \<Rightarrow> bytes \<Rightarrow> inflight \<Rightarrow> inflight" where
  "auth_reader clock i bs t =
     (case read_underlay_auth_async bs of
        Inr (auth, rest) \<Rightarrow> auth_reader clock (Suc i) rest (store (clock i) (ua_iv auth) auth t)
      | Inl _ \<Rightarrow> t)"
  by pat_completeness auto
termination
  by (relation "measure (\<lambda>(c, i, bs, t). length bs)") (auto dest: read_underlay_auth_length)

declare auth_reader.simps [simp del]

text \<open>The accept loop: every accepted stream is handed to a task of its own, until the
  connection ends; all tasks are aborted then.\<close>

datatype accept_event = AcceptBi bytes | ApplicationClosed | AcceptError

fun accept_streams :: "accept_event list \<Rightarrow> bytes list" where
  "accept_streams [] = []"
| "accept_streams (AcceptBi s # es) = s # accept_streams es"
| "accept_streams (ApplicationClosed # es) = []"
| "accept_streams (AcceptError # es) = []"

section \<open>Streams\<close>

datatype stream_action = RelayTcp string bytes | RelayUdp bytes

definition handle_stream :: "bytes \<Rightarrow> server_error + stream_action" where
  "handle_stream bs =
     and_then (map_err Proto (read_proxy_header_async bs)) (\<lambda>((network, hostname, port), rest).
       let target = hostname @ '':'' @ dec_str (unat port) in
       if network = NETWORK_TCP then Inr (RelayTcp target rest)
       else if network = NETWORK_UDP then Inr (RelayUdp rest)
       else Inl (UnknownNetwork network))"

datatype dialer = DefaultDialer | BindDialer ip_addr

text \<open>What a dialer asks of the operating system: a connection to a text address that the
  resolver interprets, or from a bound address to a socket address.\<close>

datatype dial_plan = ConnectStr string | ConnectBound ip_addr socket_addr

datatype dial_error = AddrParse

definition dial_tcp :: "dialer \<Rightarrow> string \<Rightarrow> dial_error + dial_plan" where
  "dial_tcp d addr =
     (case d of
        DefaultDialer \<Rightarrow> Inr (ConnectStr addr)
      | BindDialer bind_addr \<Rightarrow>
          and_then (ok_or AddrParse (parse_sock addr)) (\<lambda>a. Inr (ConnectBound bind_addr a)))"

text \<open>The local address a UDP socket is bound to: the dual-stack wildcard, or the configured one.\<close>

definition dial_udp :: "dialer \<Rightarrow> socket_addr" where
  "dial_udp d =
     (case d of
        DefaultDialer \<Rightarrow> \<lparr>sa_ip = IpV6 (Ipv6 0 0 0 0 0 0 0 0), sa_port = 0\<rparr>
      | BindDialer bind_addr \<Rightarrow> \<lparr>sa_ip = bind_addr, sa_port = 0\<rparr>)"

text \<open>\<open>connect\<close> is the outcome of carrying out the plan, \<open>relayed\<close> that of \<open>tcp::relay\<close>.\<close>

definition handle_tcp_relay :: "dialer \<Rightarrow> string \<Rightarrow> (dial_plan \<Rightarrow> bool) \<Rightarrow> io_result \<Rightarrow> server_error + unit" where
  "handle_tcp_relay d target connect relayed =
     (case dial_tcp d target of
        Inl _ \<Rightarrow> Inl DialFailed
      | Inr plan \<Rightarrow> if connect plan then map_err Relay relayed else Inl DialFailed)"

section \<open>Authentication properties\<close>

lemma handle_auth_Inr:
  assumes "handle_auth export_keying users (Some bs) = Inr (u, rest)"
  shows "\<exists>pw token. bs = auth_message u token @ rest \<and> length u = 16 \<and> length token = 32
    \<and> hm_get users u = Some pw \<and> export_keying u (str_bytes pw) = Some token"
proof -
  obtain v c r1 where h: "read_command_head_async bs = Inr ((v, c), r1)" "v = PROTOCOL_VERSION"
    "c = AUTHENTICATE_TYPE"
    and "and_then (map_err Proto (read_authenticate_async r1)) (\<lambda>((uuid, received_token), bs).
       and_then (ok_or (UnknownUser uuid) (hm_get users uuid)) (\<lambda>password.
       and_then (map_err Proto (gen_token_via_connection export_keying uuid password)) (\<lambda>expected_token.
         if expected_token = received_token then Inr (uuid, bs) else Inl (TokenMismatch uuid)))) = Inr (u, rest)"
    using assms by (auto simp: handle_auth_def and_then_eq_Inr split: if_splits)
  then obtain token pw where a: "read_authenticate_async r1 = Inr ((u, token), rest)"
    and u: "hm_get users u = Some pw" and t: "export_keying u (str_bytes pw) = Some token"
    by (auto simp: and_then_eq_Inr gen_token_via_connection_def split: if_splits elim!: ok_or.elims)
  have "bs = [PROTOCOL_VERSION, AUTHENTICATE_TYPE] @ r1"
    using h by (auto simp: read_command_head_async_def and_then_eq_Inr read_exact_def take_exact_def
        numeral_2_eq_2 length_Suc_conv Suc_le_length_iff elim!: ok_or.elims split: if_splits)
  moreover have "r1 = u @ token @ rest" "length u = 16" "length token = 32"
    using a by (auto simp: read_authenticate_async_def and_then_eq_Inr read_exact_def
        elim!: ok_or.elims dest!: take_exact_SomeD)
  ultimately show ?thesis using u t by (auto simp: auth_message_def)
qed

lemma handle_auth_message:
  assumes "length u = 16" "length token = 32" "hm_get users u = Some pw"
    and "export_keying u (str_bytes pw) = Some token"
  shows "handle_auth export_keying users (Some (auth_message u token @ rest)) = Inr (u, rest)"
  using assms by (simp add: handle_auth_def auth_message_def read_command_head_async_def
      read_authenticate_async_def gen_token_via_connection_def)

text \<open>\<^bold>\<open>C7.\<close>  A connection gets past authentication exactly when its stream starts with the
  authentication command of a configured user carrying the token that the TLS exporter of this
  very connection yields for the user's password; what follows on the stream is left untouched.\<close>

theorem authenticated_iff:
  "authenticate_connection export_keying users handshake timely (Some bs) = Established u rest \<longleftrightarrow>
   handshake \<and> timely \<and> (\<exists>pw token. bs = auth_message u token @ rest \<and> length u = 16 \<and> length token = 32
     \<and> hm_get users u = Some pw \<and> export_keying u (str_bytes pw) = Some token)"
  using handle_auth_Inr [of export_keying users bs u rest] handle_auth_message [of u _ users _ export_keying rest]
  by (auto simp: authenticate_connection_def split: sum.splits)


section \<open>The authentication stream\<close>

fun store_all :: "(nat \<Rightarrow> nat) \<Rightarrow> nat \<Rightarrow> underlay_auth list \<Rightarrow> inflight \<Rightarrow> inflight" where
  "store_all clock i [] t = t"
| "store_all clock i (a # as) t = store_all clock (Suc i) as (store (clock i) (ua_iv a) a t)"

lemma auth_reader_frames:
  assumes "\<forall>a \<in> set as. auth_wf a" "enc_all auth_frame as = Inr bs"
  shows "auth_reader clock i (bs @ rest) t =
    auth_reader clock (i + length as) rest (store_all clock i (map auth_view as) t)"
  using assms
proof (induction as arbitrary: i bs t)
  case Nil
  then show ?case by simp
next
  case (Cons a as)
  then obtain x y where x: "auth_frame a = Inr x" and y: "enc_all auth_frame as = Inr y" "bs = x @ y"
    by (auto simp: and_then_eq_Inr)
  have "read_underlay_auth_async (x @ (y @ rest)) = Inr (auth_view a, y @ rest)"
    using Cons.prems(1) x by (intro underlay_auth.dec_enc) simp_all
  then have "auth_reader clock i (bs @ rest) t =
      auth_reader clock (Suc i) (y @ rest) (store (clock i) (ua_iv (auth_view a)) (auth_view a) t)"
    by (subst auth_reader.simps) (simp add: y)
  also have "\<dots> = auth_reader clock (Suc i + length as) rest (store_all clock (Suc i) (map auth_view as)
      (store (clock i) (ua_iv (auth_view a)) (auth_view a) t))"
    using Cons.prems(1) y(1) by (intro Cons.IH) simp_all
  finally show ?case by simp
qed

text \<open>The server's table after the client wrote any number of underlay authentications,
  possibly followed by an incomplete one, is the table with exactly these authentications
  stored one after the other, each under its own salt.\<close>

lemma auth_stream_fills_table:
  assumes "\<forall>a \<in> set as. auth_wf a" "enc_all auth_frame as = Inr bs"
    and "read_underlay_auth_async partial = Inl e"
  shows "auth_reader clock 0 (bs @ partial) t = store_all clock 0 (map auth_view as) t"
  using auth_reader_frames [OF assms(1,2), of clock 0 partial t] assms(3)
  by (simp add: auth_reader.simps [of clock "length as"])

text \<open>Every authentication from a stream has a key of the right length, so the \<open>expect\<close> on
  \<open>derive_subkey\<close> in the packet handler only depends on the key derivation itself.\<close>

lemma derive_subkey_of_stream_auth:
  assumes "read_underlay_auth_async bs = Inr (a, rest)" "hkdf1 salt (ua_psk a) REUSED_INFO 32 \<noteq> None"
  shows "\<exists>k. derive_subkey hkdf1 (ua_psk a) salt = Inr k"
  using read_underlay_auth_length [OF assms(1)] assms(2)
  by (auto simp: derive_subkey_def KEY_LEN_def)

section \<open>Outbound connections\<close>

text \<open>With \<open>send_through\<close> set, a TCP stream to an IPv4 literal is dialled to that address
  and port, but one to an IPv6 literal, and one to a name that does not start with a digit or
  a bracket, is always refused: the target is parsed as a socket address, while
  \<open>handle_stream\<close> writes IPv6 hosts without brackets and names unresolved.\<close>

lemma bind_dialer_only_ipv4:
  assumes "to_digit 10 c = None" "c \<noteq> CHR ''[''"
  shows "dial_tcp (BindDialer b) (v4_str ip4 @ '':'' @ dec_str (unat port)) =
      Inr (ConnectBound b \<lparr>sa_ip = IpV4 ip4, sa_port = port\<rparr>)
    \<and> dial_tcp (BindDialer b) (v6_str ip6 @ '':'' @ dec_str (unat (port :: u16))) = Inl AddrParse
    \<and> dial_tcp (BindDialer b) ((c # name) @ '':'' @ dec_str (unat port)) = Inl AddrParse"
proof (intro conjI)
  have "parse_sock (sock_str \<lparr>sa_ip = IpV4 ip4, sa_port = port\<rparr>) = Some \<lparr>sa_ip = IpV4 ip4, sa_port = port\<rparr>"
    by (rule parse_sock_str)
  then show "dial_tcp (BindDialer b) (v4_str ip4 @ '':'' @ dec_str (unat port)) =
      Inr (ConnectBound b \<lparr>sa_ip = IpV4 ip4, sa_port = port\<rparr>)"
    by (simp add: dial_tcp_def sock_str_def)
  have "CHR ''.'' \<notin> set ('':'' @ dec_str (unat port))"
    using dec_str_digits [of "CHR ''.''" "unat port"] by auto
  then have "read_ipv4 (v6_str ip6 @ '':'' @ dec_str (unat port)) = None" by (rule read_ipv4_v6_str)
  moreover have "v6_str ip6 \<noteq> []" using colon_in_v6_str [of ip6] by fastforce
  moreover from this have "hd (v6_str ip6) \<noteq> CHR ''[''"
    using v6_str_no_bracket(1) [of ip6] hd_in_set by fastforce
  ultimately have "parse_sock (v6_str ip6 @ '':'' @ dec_str (unat port)) = None"
    by (intro parse_sock_None) simp_all
  then show "dial_tcp (BindDialer b) (v6_str ip6 @ '':'' @ dec_str (unat port)) = Inl AddrParse"
    by (simp add: dial_tcp_def)
  have "parse_sock ((c # name) @ '':'' @ dec_str (unat port)) = None"
    using assms by (intro parse_sock_None read_ipv4_no_digit) simp_all
  then show "dial_tcp (BindDialer b) ((c # name) @ '':'' @ dec_str (unat port)) = Inl AddrParse"
    by (simp add: dial_tcp_def)
qed

lemma bind_dialer_only_ipv4_witness:
  "dial_tcp (BindDialer (IpV4 (Ipv4 10 0 0 2))) (''example.com'' @ '':'' @ dec_str (unat (443 :: u16))) = Inl AddrParse"
proof -
  have "to_digit 10 (CHR ''e'') = None" "CHR ''e'' \<noteq> CHR ''[''" by (simp_all add: to_digit_def)
  then show ?thesis
    using bind_dialer_only_ipv4 [of "CHR ''e''" "IpV4 (Ipv4 10 0 0 2)" _ 443 _ "''xample.com''"] by simp
qed

end
