(* ===== verification/Server_Setup.thy ===== *)
theory Server_Setup
  imports Server_Session
begin

text \<open>
  The life cycle of the server in \<open>server/src/server.rs\<close>: \<open>JuicityServer::new\<close>, the listening
  address and the shutdown of \<open>serve_with_shutdown\<close>, and the reloading certificate resolver.

  Parameters: \<open>parse_uuid\<close> (\<open>Uuid::parse_str\<close>); for the resolver the file system and the TLS
  library, as the modification times of the two files and the outcome of loading them.
\<close>

section \<open>Construction\<close>

datatype setup_error = SetupUuid string | SetupCertificate | SetupSendThrough string | SetupAddr string

fun build_users :: "(string \<Rightarrow> uuid option) \<Rightarrow> (string \<times> string) list \<Rightarrow> (uuid, string) hashmap \<Rightarrow>
    setup_error + (uuid, string) hashmap" where
  "build_users parse_uuid [] m = Inr m"
| "build_users parse_uuid ((uid, password) # us) m =
     (case parse_uuid uid of
        None \<Rightarrow> Inl (SetupUuid uid)
      | Some u \<Rightarrow> build_users parse_uuid us (hm_insert u password m))"

datatype congestion = Cubic | NewReno | Bbr nat

record transport =
  tr_initial_rtt :: "u64 option"
  tr_keep_alive :: "u64 option"
  tr_max_bidi :: nat
  tr_max_uni :: nat
  tr_max_idle :: nat
  tr_stream_window :: nat
  tr_receive_window :: nat
  tr_send_window :: nat
  tr_congestion :: congestion

text \<open>\<open>to_lowercase\<close> is Unicode-aware in the source; no non-ASCII character maps into one of the
  names below, so the ASCII mapping selects the same branch.\<close>

definition select_congestion :: "string \<Rightarrow> congestion" where
  "select_congestion s =
     (let l = to_lower s in
      if l = ''cubic'' then Cubic
      else if l = ''newreno'' \<or> l = ''new_reno'' then NewReno
      else Bbr (10 * ethernet_mtu))"

definition server_transport :: "config \<Rightarrow> transport" where
  "server_transport c =
     (let base = \<lparr>tr_initial_rtt = cf_initial_rtt c, tr_keep_alive = cf_keep_alive_interval c,
            tr_max_bidi = max_open_incoming_streams, tr_max_uni = max_open_incoming_streams,
            tr_max_idle = max_quic_idle_timeout,
            tr_stream_window = quic_stream_receive_window,
            tr_receive_window = quic_connection_receive_window,
            tr_send_window = quic_send_window,
            tr_congestion = select_congestion (cf_congestion_control c)\<rparr>
      in case cf_initial_rtt c of
           None \<Rightarrow> base
         | Some rtt_ms \<Rightarrow>
             if rtt_ms < 50 then base\<lparr>tr_stream_window := quic_stream_receive_window div 2,
                                      tr_receive_window := quic_connection_receive_window div 2\<rparr>
             else if rtt_ms > 200 then base\<lparr>tr_stream_window := quic_stream_receive_window * 2,
                                            tr_receive_window := quic_connection_receive_window * 2\<rparr>
             else base)"

definition select_dialer :: "config \<Rightarrow> setup_error + dialer" where
  "select_dialer c =
     (if cf_send_through c \<noteq> []
      then (case parse_ip (cf_send_through c) of
              Some a \<Rightarrow> Inr (BindDialer a) | None \<Rightarrow> Inl (SetupSendThrough (cf_send_through c)))
      else Inr DefaultDialer)"

record juicity_server =
  js_users :: "(uuid, string) hashmap"
  js_transport :: transport
  js_max_early_data :: nat
  js_dialer :: dialer
  js_in_flight :: inflight
  js_disable_443 :: bool

text \<open>\<open>cert_ok\<close>: the certificate and key could be loaded.\<close>

definition juicity_server_new :: "(string \<Rightarrow> uuid option) \<Rightarrow> bool \<Rightarrow> config \<Rightarrow> setup_error + juicity_server" where
  "juicity_server_new parse_uuid cert_ok c =
     and_then (build_users parse_uuid (cf_users c) []) (\<lambda>us.
       if \<not> cert_ok then Inl SetupCertificate
       else and_then (select_dialer c) (\<lambda>d. Inr \<lparr>
         js_users = us,
         js_transport = server_transport c,
         js_max_early_data = (if (case cf_enable_0rtt c of Some b \<Rightarrow> b | None \<Rightarrow> True) then 4294967295 else 0),
         js_dialer = d,
         js_in_flight = inflight_new in_flight_underlay_ttl
           (case cf_underlay_evict_timeout c of Some ms \<Rightarrow> unat ms | None \<Rightarrow> in_flight_underlay_evict_timeout),
         js_disable_443 = cf_disable_outbound_udp443 c\<rparr>))"

section \<open>Listening\<close>

definition listen_addr :: "string \<Rightarrow> setup_error + (socket_addr \<times> bool)" where
  "listen_addr addr =
     (if starts_with '':'' addr
      then and_then (ok_or (SetupAddr addr) (parse_sock (''[::]'' @ addr))) (\<lambda>a. Inr (a, True))
      else and_then (ok_or (SetupAddr addr) (parse_sock addr)) (\<lambda>a. Inr (a, False)))"

text \<open>The family of the socket of \<open>create_reuseport_socket\<close> and whether \<open>IPV6_V6ONLY\<close> is cleared.\<close>

datatype domain = DomainV4 | DomainV6

definition create_reuseport_socket :: "socket_addr \<Rightarrow> bool \<Rightarrow> domain \<times> bool" where
  "create_reuseport_socket a dual_stack =
     ((if dual_stack \<or> (case sa_ip a of IpV6 _ \<Rightarrow> True | IpV4 _ \<Rightarrow> False) then DomainV6 else DomainV4), dual_stack)"

section \<open>Shutdown\<close>

text \<open>Times are milliseconds after the shutdown was requested; \<open>finish\<close> are the times at which the
  connection handlers of an accept worker end on their own.  The worker drains them until all
  have ended or its deadline.\<close>

definition connection_drain_timeout :: nat where "connection_drain_timeout = 5000"
definition accept_stop_timeout :: nat where "accept_stop_timeout = 3000"

definition worker_end :: "nat list \<Rightarrow> nat" where
  "worker_end finish = min (fold max finish 0) connection_drain_timeout"

text \<open>The loop that polls the workers every 20 ms, then drops their guards.\<close>

function stop_poll :: "nat list \<Rightarrow> nat \<Rightarrow> nat" where
  "stop_poll worker_ends now =
     (if now < accept_stop_timeout \<and> \<not> list_all (\<lambda>e. e \<le> now) worker_ends
      then stop_poll worker_ends (now + 20) else now)"
  by pat_completeness auto
termination
  by (relation "measure (\<lambda>(es, now). accept_stop_timeout - now)") auto

declare stop_poll.simps [simp del]

text \<open>When the workers are aborted, and with them the handlers still running.\<close>

definition abort_time :: "nat list list \<Rightarrow> nat" where
  "abort_time handlers = stop_poll (map worker_end handlers) 0"

definition handler_completes :: "nat list list \<Rightarrow> nat \<Rightarrow> bool" where
  "handler_completes handlers f \<longleftrightarrow> f \<le> abort_time handlers \<and> f \<le> connection_drain_timeout"

section \<open>Certificates\<close>

record 'k resolver =
  cert_path :: string
  key_path :: string
  cached_key :: 'k
  cached_modified :: "nat \<times> nat"

datatype reload_error = MetadataFailed | LoadFailed

definition modified :: "(string \<Rightarrow> nat option) \<Rightarrow> string \<Rightarrow> string \<Rightarrow> reload_error + (nat \<times> nat)" where
  "modified mtime cert key =
     and_then (ok_or MetadataFailed (mtime cert)) (\<lambda>a.
     and_then (ok_or MetadataFailed (mtime key)) (\<lambda>b. Inr (a, b)))"

text \<open>\<open>load cert key\<close>: read both files and build a key pair that matches.\<close>

definition resolver_new :: "(string \<Rightarrow> nat option) \<Rightarrow> (string \<Rightarrow> string \<Rightarrow> 'k option) \<Rightarrow> string \<Rightarrow> string \<Rightarrow>
    reload_error + 'k resolver" where
  "resolver_new mtime load cert key =
     and_then (modified mtime cert key) (\<lambda>m.
     and_then (ok_or LoadFailed (load cert key)) (\<lambda>k.
       Inr \<lparr>cert_path = cert, key_path = key, cached_key = k, cached_modified = m\<rparr>))"

definition reload :: "(string \<Rightarrow> nat option) \<Rightarrow> (string \<Rightarrow> string \<Rightarrow> 'k option) \<Rightarrow> 'k resolver \<Rightarrow>
    'k resolver \<times> (reload_error + unit)" where
  "reload mtime load r =
     (case modified mtime (cert_path r) (key_path r) of
        Inl e \<Rightarrow> (r, Inl e)
      | Inr m \<Rightarrow>
          if cached_modified r = m then (r, Inr ())
          else (case load (cert_path r) (key_path r) of
                  None \<Rightarrow> (r, Inl LoadFailed)
                | Some k \<Rightarrow> (r\<lparr>cached_key := k, cached_modified := m\<rparr>, Inr ())))"

definition resolve_cert :: "'k resolver \<Rightarrow> 'k" where
  "resolve_cert r = cached_key r"

text \<open>\<open>load_private_key\<close> over the results of \<open>rustls_pemfile::read_one\<close>.  The second component
  is \<open>key_count\<close> at the end.\<close>

datatype pem_read = Pkcs1Key bytes | Pkcs8Key bytes | Sec1Key bytes | OtherItem | PemError

datatype private_key = Pkcs1 bytes | Pkcs8 bytes | Sec1 bytes

datatype key_error = KeyRead | NoPrivateKey

fun load_private_key :: "pem_read list \<Rightarrow> nat \<Rightarrow> (key_error + private_key) \<times> nat" where
  "load_private_key [] key_count = (Inl NoPrivateKey, key_count)"
| "load_private_key (PemError # is) key_count = (Inl KeyRead, key_count)"
| "load_private_key (OtherItem # is) key_count = load_private_key is key_count"
| "load_private_key (Pkcs1Key k # is) key_count =
     (if key_count + 1 = 1 then (Inr (Pkcs1 k), key_count + 1) else load_private_key is (key_count + 1))"
| "load_private_key (Pkcs8Key k # is) key_count =
     (if key_count + 1 = 1 then (Inr (Pkcs8 k), key_count + 1) else load_private_key is (key_count + 1))"
| "load_private_key (Sec1Key k # is) key_count =
     (if key_count + 1 = 1 then (Inr (Sec1 k), key_count + 1) else load_private_key is (key_count + 1))"

section \<open>Properties\<close>

lemma build_users_ok:
  assumes "validate_users (\<lambda>u. parse_uuid u \<noteq> None) us = Inr ()"
  shows "\<exists>m'. build_users parse_uuid us m = Inr m' \<and> (\<forall>u pw. hm_get m' u = Some pw \<longrightarrow>
     hm_get m u = Some pw \<or> pw \<noteq> [] \<and> (\<exists>uid. (uid, pw) \<in> set us \<and> parse_uuid uid = Some u))"
  using assms
proof (induction us arbitrary: m)
  case Nil
  then show ?case by simp
next
  case (Cons x us)
  obtain uid pw where x: "x = (uid, pw)" by fastforce
  from Cons.prems obtain u where u: "parse_uuid uid = Some u" "pw \<noteq> []"
    and v: "validate_users (\<lambda>u. parse_uuid u \<noteq> None) us = Inr ()"
    by (auto simp: x and_then_eq_Inr ensure_def split: if_splits)
  obtain m' where m': "build_users parse_uuid us (hm_insert u pw m) = Inr m'"
    "\<forall>u' pw'. hm_get m' u' = Some pw' \<longrightarrow> hm_get (hm_insert u pw m) u' = Some pw'
        \<or> pw' \<noteq> [] \<and> (\<exists>uid. (uid, pw') \<in> set us \<and> parse_uuid uid = Some u')"
    using Cons.IH [OF v] by blast
  have "hm_get m u' = Some pw' \<or> pw' \<noteq> [] \<and> (\<exists>uid. (uid, pw') \<in> set (x # us) \<and> parse_uuid uid = Some u')"
    if "hm_get m' u' = Some pw'" for u' pw'
    using m'(2) [rule_format, OF that] u by (cases "u' = u") (auto simp: x)
  with m'(1) u(1) show ?case by (intro exI [of _ m']) (simp add: x)
qed

text \<open>A configuration that passes \<open>validate_for_server\<close> never fails to build the user
  table; every user of the table comes from an entry of the configuration with that UUID and
  has its non-empty password.\<close>

lemma validated_users_load:
  assumes "validate_for_server (\<lambda>u. parse_uuid u \<noteq> None) exists_file c = Inr ()"
  shows "\<exists>m. build_users parse_uuid (cf_users c) [] = Inr m
    \<and> (\<forall>u pw. hm_get m u = Some pw \<longrightarrow> pw \<noteq> [] \<and> (\<exists>uid. (uid, pw) \<in> set (cf_users c) \<and> parse_uuid uid = Some u))"
proof -
  have "validate_users (\<lambda>u. parse_uuid u \<noteq> None) (cf_users c) = Inr ()"
    using assms by (auto simp: validate_for_server_def and_then_eq_Inr)
  from build_users_ok [OF this, of "[]"] show ?thesis by auto
qed

definition demo_uuid :: "string \<Rightarrow> uuid option" where
  "demo_uuid s = (if length s = 16 then Some (str_bytes s) else None)"

definition demo_config :: config where
  "demo_config = config_default\<lparr>cf_listen := '':443'', cf_users := [(''0123456789abcdef'', ''pw'')],
     cf_certificate := ''c.pem'', cf_private_key := ''k.pem''\<rparr>"

text \<open>Certificates are only ever replaced by a pair that loaded: after any \<open>reload\<close> the
  resolver serves the old pair or the one just loaded; a failed reload changes nothing, so the
  next one tries again; and after a successful one the next is idle until a file changes.\<close>

lemma reload_keeps_working_pair:
  "case reload mtime load r of
     (r', Inl _) \<Rightarrow> r' = r
   | (r', Inr _) \<Rightarrow>
       (resolve_cert r' = resolve_cert r \<or> Some (resolve_cert r') = load (cert_path r) (key_path r))
       \<and> modified mtime (cert_path r) (key_path r) = Inr (cached_modified r')
       \<and> reload mtime load' r' = (r', Inr ())"
  by (auto simp: reload_def resolve_cert_def split: sum.splits option.splits if_splits)

lemma stop_poll_bound: "now \<le> accept_stop_timeout + 19 \<Longrightarrow> stop_poll es now \<le> accept_stop_timeout + 19"
proof (induction es now rule: stop_poll.induct)
  case (1 es now)
  then show ?case by (subst stop_poll.simps) auto
qed

text \<open>The grace period of five seconds is never granted: a connection handler that needs
  at least 3020 ms after the shutdown request is aborted, although the workers would have
  drained it until 5000 ms.\<close>

lemma drain_cut_short:
  assumes "accept_stop_timeout + 20 \<le> f"
  shows "\<not> handler_completes handlers f"
proof -
  have "abort_time handlers \<le> accept_stop_timeout + 19"
    unfolding abort_time_def by (rule stop_poll_bound) simp
  with assms show ?thesis by (simp add: handler_completes_def)
qed

lemma drain_cut_short_witness:
  "worker_end [4000] = 4000 \<and> \<not> handler_completes [[4000]] 4000"
  using drain_cut_short [of 4000 "[[4000]]"]
  by (simp add: accept_stop_timeout_def worker_end_def connection_drain_timeout_def)

text \<open>The shorthand \<open>:port\<close> listens on the dual-stack wildcard.\<close>

lemma listen_addr_shorthand:
  "listen_addr ('':'' @ dec_str (unat port)) =
     Inr (\<lparr>sa_ip = IpV6 (Ipv6 0 0 0 0 0 0 0 0), sa_port = port\<rparr>, True)"
proof -
  let ?a = "\<lparr>sa_ip = IpV6 (Ipv6 0 0 0 0 0 0 0 0), sa_port = port\<rparr>"
  have "sock_str ?a = ''[::]:'' @ dec_str (unat port)"
    by (simp add: sock_str_def v6_str_def Let_def segs_str_def)
  then show ?thesis
    using parse_sock_str [of ?a] by (simp add: listen_addr_def)
qed

text \<open>The private key of a file is its first key, and the count that the warning about several
  keys tests is never above one.\<close>

lemma load_private_key_count:
  "load_private_key is 0 = (r, n) \<Longrightarrow> n \<le> 1 \<and> (n = 1 \<longleftrightarrow> (\<exists>k. r = Inr k))"
proof (induction "is" arbitrary: r n)
  case Nil
  then show ?case by auto
next
  case (Cons x "is")
  then show ?case by (cases x) auto
qed

end
