(* ===== verification/Client.thy ===== *)
theory Client
  imports Config Crypto Server_Setup
begin

text \<open>
  \<open>client/src/client.rs\<close> without the reconnect logic: addresses, the choice of the certificate
  verifier, the authentication message, and the bytes of TCP and UDP streams.

  Parameters: the base64 and hex decoders of other crates, \<open>sha256\<close>, the TLS exporter, and the
  outcomes of dialling.
\<close>

section \<open>Server address\<close>

datatype client_error =
    BadServer string
  | BadLink link_error
  | BadUuid
  | BadPin
  | PayloadTooLong
  | ClientProto proto_error
  | NoAddresses
  | DialTimeout
  | DialError nat
  | DnsLookupTimeout
  | DnsLookupFailed
  | NoAuthStream
  | EndpointFailed nat
  | Shared client_error

definition parse_server :: "string \<Rightarrow> string \<Rightarrow> client_error + (string \<times> u16 \<times> string)" where
  "parse_server srv sni =
     and_then
       (case parse_sock srv of
          Some addr \<Rightarrow> Inr (ip_str (sa_ip addr), sa_port addr)
        | None \<Rightarrow>
            and_then (map_err BadLink (parse_host_port srv)) (\<lambda>(host, port).
              if host = [] \<or> contains_char (CHR '':'') host \<or> starts_with ''['' srv
              then Inl (BadServer srv) else Inr (host, port)))
       (\<lambda>(host, port). Inr (host, port, if sni = [] then host else sni))"

text \<open>Seconds.  \<open>attempts\<close> is a \<open>u32\<close>, the shift is on \<open>u64\<close>.\<close>

definition reconnect_delay :: "u32 \<Rightarrow> nat" where
  "reconnect_delay attempts = min (unat (push_bit (min (unat attempts) 5) (1 :: u64))) 30"

datatype 'a dial_result = Dialled 'a | DialFailedWith nat | DialTimedOut

text \<open>One connection attempt after the other; the last error is reported.\<close>

fun try_addresses :: "socket_addr list \<Rightarrow> (socket_addr \<Rightarrow> 'a dial_result) \<Rightarrow> client_error option \<Rightarrow> client_error + 'a" where
  "try_addresses [] connect err = Inl (case err of Some e \<Rightarrow> e | None \<Rightarrow> NoAddresses)"
| "try_addresses (addr # addrs) connect err =
     (case connect addr of
        Dialled c \<Rightarrow> Inr c
      | DialFailedWith e \<Rightarrow> try_addresses addrs connect (Some (DialError e))
      | DialTimedOut \<Rightarrow> try_addresses addrs connect (Some DialTimeout))"

text \<open>\<open>None\<close>: the timeout elapsed first.\<close>

definition resolve_with_timeout :: "(unit + 'a) option \<Rightarrow> client_error + 'a" where
  "resolve_with_timeout lookup =
     (case lookup of None \<Rightarrow> Inl DnsLookupTimeout
      | Some (Inl _) \<Rightarrow> Inl DnsLookupFailed | Some (Inr a) \<Rightarrow> Inr a)"

definition udp_packet_len :: "bytes \<Rightarrow> client_error + bytes" where
  "udp_packet_len data = and_then (ok_or PayloadTooLong (u16_try_from (length data))) (\<lambda>n. Inr (u16_to_be n))"

section \<open>TLS\<close>

text \<open>The pinned hash: URL-safe base64, then standard base64, then hex.\<close>

definition decode_pin :: "(string \<Rightarrow> bytes option) \<Rightarrow> (string \<Rightarrow> bytes option) \<Rightarrow> (string \<Rightarrow> bytes option) \<Rightarrow>
    string \<Rightarrow> client_error + bytes" where
  "decode_pin b64_url b64_std hex pin =
     (if pin = [] then Inr []
      else case b64_url pin of
        Some h \<Rightarrow> Inr h
      | None \<Rightarrow> (case b64_std pin of Some h \<Rightarrow> Inr h | None \<Rightarrow> ok_or BadPin (hex pin)))"

datatype verifier = SkipVerify | PinVerify bytes | WebPki

record tls_config =
  tls_verifier :: verifier
  tls_alpn :: "string list"
  tls_early_data :: bool

definition build_tls_config :: "bool \<Rightarrow> bytes \<Rightarrow> bool \<Rightarrow> tls_config" where
  "build_tls_config allow_insecure pinned_hash enable_early_data =
     \<lparr>tls_verifier = (if allow_insecure then SkipVerify
                      else if pinned_hash \<noteq> [] then PinVerify pinned_hash else WebPki),
      tls_alpn = [''h3''], tls_early_data = enable_early_data\<rparr>"

text \<open>The transport parameters are chosen as on the server.\<close>

definition client_transport :: "string \<Rightarrow> u64 option \<Rightarrow> u64 option \<Rightarrow> transport" where
  "client_transport cc rtt keep_alive =
     (let base = \<lparr>tr_initial_rtt = rtt, tr_keep_alive = keep_alive,
            tr_max_bidi = max_open_incoming_streams, tr_max_uni = max_open_incoming_streams,
            tr_max_idle = max_quic_idle_timeout,
            tr_stream_window = quic_stream_receive_window,
            tr_receive_window = quic_connection_receive_window,
            tr_send_window = quic_send_window, tr_congestion = select_congestion cc\<rparr>
      in case rtt of
           None \<Rightarrow> base
         | Some rtt_ms \<Rightarrow>
             if rtt_ms < 50 then base\<lparr>tr_stream_window := quic_stream_receive_window div 2,
                                      tr_receive_window := quic_connection_receive_window div 2\<rparr>
             else if rtt_ms > 200 then base\<lparr>tr_stream_window := quic_stream_receive_window * 2,
                                            tr_receive_window := quic_connection_receive_window * 2\<rparr>
             else base)"

text \<open>\<open>verify_server_cert\<close>; \<open>webpki\<close> is the outcome of the standard verifier.\<close>

definition verify_server_cert :: "(bytes \<Rightarrow> bytes) \<Rightarrow> verifier \<Rightarrow> bool \<Rightarrow> bytes \<Rightarrow> bytes list \<Rightarrow> bool" where
  "verify_server_cert sha v webpki end_entity intermediates =
     (case v of
        SkipVerify \<Rightarrow> True
      | PinVerify pinned \<Rightarrow> generate_cert_chain_hash sha (end_entity # intermediates) = pinned
      | WebPki \<Rightarrow> webpki)"

text \<open>The outcomes of the system calls that create the endpoint (\<open>Inl\<close> an error number), and the endpoint:
  the mark of its socket, if one was set.  With a mark the socket is made by hand; without one,
  \<open>Endpoint::client\<close> makes it.\<close>

record endpoint_env =
  ep_socket :: "nat + unit"
  ep_only_v6 :: "nat + unit"
  ep_mark :: "u32 \<Rightarrow> nat + unit"
  ep_bind :: "nat + unit"
  ep_wrap :: "nat + unit"
  ep_client :: "nat + unit"

definition new_endpoint :: "endpoint_env \<Rightarrow> u32 option \<Rightarrow> client_error + u32 option" where
  "new_endpoint ep fwmark =
     map_err EndpointFailed
       (case fwmark of
          Some mark \<Rightarrow>
            and_then (ep_socket ep) (\<lambda>_. and_then (ep_only_v6 ep) (\<lambda>_. and_then (ep_mark ep mark) (\<lambda>_.
            and_then (ep_bind ep) (\<lambda>_. and_then (ep_wrap ep) (\<lambda>_. Inr (Some mark))))))
        | None \<Rightarrow> and_then (ep_client ep) (\<lambda>_. Inr None))"

definition endpoint_ok :: "endpoint_env \<Rightarrow> bool" where
  "endpoint_ok ep \<longleftrightarrow> ep_socket ep = Inr () \<and> ep_only_v6 ep = Inr () \<and> (\<forall>m. ep_mark ep m = Inr ())
     \<and> ep_bind ep = Inr () \<and> ep_wrap ep = Inr () \<and> ep_client ep = Inr ()"

lemma new_endpoint_ok: "endpoint_ok ep \<Longrightarrow> new_endpoint ep fwmark = Inr fwmark"
  by (cases fwmark) (simp_all add: new_endpoint_def endpoint_ok_def)

record juicity_client =
  jc_endpoint :: "u32 option"
  jc_host :: string
  jc_port :: u16
  jc_uuid :: uuid
  jc_password :: string
  jc_sni :: string
  jc_tls :: tls_config
  jc_transport :: transport

definition juicity_client_new :: "(string \<Rightarrow> uuid option) \<Rightarrow> (string \<Rightarrow> bytes option) \<Rightarrow> (string \<Rightarrow> bytes option) \<Rightarrow>
    (string \<Rightarrow> bytes option) \<Rightarrow> endpoint_env \<Rightarrow> config \<Rightarrow> client_error + juicity_client" where
  "juicity_client_new parse_uuid b64_url b64_std hex ep c =
     and_then (ok_or BadUuid (parse_uuid (cf_uuid c))) (\<lambda>u.
     and_then (parse_server (cf_server c) (cf_sni c)) (\<lambda>(host, port, name).
     and_then (decode_pin b64_url b64_std hex (cf_pinned_certchain_sha256 c)) (\<lambda>pinned.
     and_then (new_endpoint ep (cf_fwmark c)) (\<lambda>endpoint.
       Inr \<lparr>jc_endpoint = endpoint, jc_host = host, jc_port = port, jc_uuid = u, jc_password = cf_password c, jc_sni = name,
            jc_tls = build_tls_config (cf_allow_insecure c) pinned
              (case cf_enable_0rtt c of Some b \<Rightarrow> b | None \<Rightarrow> True),
            jc_transport = client_transport (cf_congestion_control c) (cf_initial_rtt c) (cf_keep_alive_interval c)\<rparr>))))"

section \<open>Streams\<close>

text \<open>The bytes of \<open>connect_to_address\<close> on the new unidirectional stream.\<close>

definition connect_auth_bytes :: "(bytes \<Rightarrow> bytes \<Rightarrow> bytes option) \<Rightarrow> uuid \<Rightarrow> string \<Rightarrow> client_error + bytes" where
  "connect_auth_bytes export_keying uuid password =
     and_then (map_err ClientProto (gen_token_via_connection export_keying uuid password)) (\<lambda>token.
       Inr ([PROTOCOL_VERSION] @ [AUTHENTICATE_TYPE] @ uuid @ token))"

text \<open>\<open>send_underlay_auth\<close> on the stored stream: the stream afterwards (\<open>None\<close> when it was given up)
  with what was written, and the result.\<close>

definition send_underlay_auth :: "bytes option \<Rightarrow> underlay_auth \<Rightarrow> bytes option \<times> (client_error + unit)" where
  "send_underlay_auth auth_uni_stream auth =
     (case auth_uni_stream of
        None \<Rightarrow> (None, Inl NoAuthStream)
      | Some written \<Rightarrow>
          (case write_underlay_auth_async auth of
             (bs, Inr _) \<Rightarrow> (Some (written @ bs), Inr ())
           | (bs, Inl e) \<Rightarrow> (None, Inl (ClientProto e))))"

definition open_tcp_stream :: "string \<Rightarrow> u16 \<Rightarrow> client_error + bytes" where
  "open_tcp_stream addr port = map_err ClientProto (build_proxy_header NETWORK_TCP addr port)"

definition open_udp_stream :: "string \<Rightarrow> u16 \<Rightarrow> bytes \<Rightarrow> client_error + bytes" where
  "open_udp_stream addr port first_packet =
     and_then (udp_packet_len first_packet) (\<lambda>pkt_len.
     and_then (map_err ClientProto (build_proxy_header NETWORK_UDP addr port)) (\<lambda>stream_header.
     and_then (map_err ClientProto (build_trojanc_addr addr port)) (\<lambda>dgram_addr.
       Inr (stream_header @ dgram_addr @ pkt_len @ first_packet))))"

text \<open>The scratch buffer afterwards, and the bytes written or the error.\<close>

definition send_udp_datagram :: "cached_addr \<Rightarrow> bytes \<Rightarrow> bytes \<Rightarrow> bytes \<times> (client_error + bytes)" where
  "send_udp_datagram cached data addr_buf =
     (case udp_packet_len data of
        Inl e \<Rightarrow> (addr_buf, Inl e)
      | Inr len \<Rightarrow>
          (case build_trojanc_addr_cached [] cached of
             (buf, Inl e) \<Rightarrow> (buf, Inl (ClientProto e))
           | (buf, Inr _) \<Rightarrow> (buf @ len @ data, Inr (buf @ len @ data))))"

section \<open>Lemmas\<close>

lemma udp_packet_len_eq:
  "udp_packet_len d = (if length d \<le> max_udp_payload then Inr (u16_to_be (word_of_nat (length d))) else Inl PayloadTooLong)"
  by (auto simp: udp_packet_len_def u16_try_from_def max_udp_payload_def)

lemma send_udp_datagram_eq:
  assumes "encodable_host host" "length d \<le> max_udp_payload"
  shows "send_udp_datagram (from_host_port host port) d buf =
    (let bs = wire_addr host @ u16_to_be port @ u16_to_be (word_of_nat (length d)) @ d in (bs, Inr bs))"
  using assms by (simp add: send_udp_datagram_def udp_packet_len_eq build_trojanc_addr_cached_eq Let_def)

lemma open_udp_stream_eq:
  assumes "host \<noteq> []" "encodable_host host" "length d \<le> max_udp_payload"
  shows "open_udp_stream host port d =
    Inr (NETWORK_UDP # wire_addr host @ u16_to_be port
         @ wire_addr host @ u16_to_be port @ u16_to_be (word_of_nat (length d)) @ d)"
  using assms by (simp add: open_udp_stream_def udp_packet_len_eq build_proxy_header_eq build_trojanc_addr_eq)

lemma reconnect_delay_values:
  "reconnect_delay a = (if unat a = 0 then 1 else if unat a = 1 then 2 else if unat a = 2 then 4
     else if unat a = 3 then 8 else if unat a = 4 then 16 else 30)"
proof -
  have "min (unat a) 5 \<in> {0, 1, 2, 3, 4, 5}" by auto
  moreover have "unat a \<notin> {0, 1, 2, 3, 4} \<Longrightarrow> min (unat a) 5 = 5" by auto
  ultimately show ?thesis by (auto simp: reconnect_delay_def push_bit_eq_mult unat_word_ariths)
qed

section \<open>Properties\<close>

text \<open>\<open>parse_server\<close> accepts every socket address in its standard text, with the canonical
  address as host and as default SNI, and every \<open>name:port\<close> whose name has no colon and does not
  start with a bracket, and returns exactly these parts.\<close>

lemma parse_server_accepts:
  assumes "host \<noteq> []" "CHR '':'' \<notin> set host" "\<not> starts_with ''['' host"
    and "parse_sock (host @ '':'' @ dec_str (unat port)) = None"
  shows "parse_server (host @ '':'' @ dec_str (unat port)) sni = Inr (host, port, if sni = [] then host else sni)
    \<and> parse_server (sock_str a) sni = Inr (ip_str (sa_ip a), sa_port a, if sni = [] then ip_str (sa_ip a) else sni)"
proof -
  have "\<not> starts_with ''['' (host @ '':'' @ dec_str (unat port))" using assms(1,3) by (cases host) auto
  then show ?thesis
    using assms parse_host_port_plain [OF assms(3), of port]
    by (simp add: parse_server_def contains_char_def)
qed

text \<open>A pin in hexadecimal is not honoured: 64 hexadecimal digits are also valid base64,
  for 48 bytes, so with a base64 decoder that decodes them the pinned hash has the wrong
  length and no certificate chain is accepted, whatever it is.\<close>

lemma hex_pin_never_matches:
  assumes "sha256_ok sha" "pin \<noteq> []" "b64_url pin = Some h" "length h = 48" "\<not> insecure"
  shows "decode_pin b64_url b64_std hex pin = Inr h
    \<and> \<not> verify_server_cert sha (tls_verifier (build_tls_config insecure h early)) webpki end_entity intermediates"
proof -
  have "h \<noteq> []" using assms(4) by auto
  moreover have len: "length (generate_cert_chain_hash sha cs) \<in> {0, 32}" for cs
  proof (cases cs)
    case (Cons c cs')
    obtain g where "fold (chain_step sha) cs' (Some (sha c)) = Some g \<and> length g = 32"
      using fold_chain_Some [OF assms(1), of "sha c" cs'] assms(1) by (auto simp: sha256_ok_def)
    then show ?thesis by (simp add: generate_cert_chain_hash_def Cons)
  qed (simp add: generate_cert_chain_hash_def)
  moreover have "generate_cert_chain_hash sha (end_entity # intermediates) \<noteq> h"
    using len [of "end_entity # intermediates"] assms(4) by auto
  ultimately show ?thesis
    using assms(2,3,5) by (simp add: decode_pin_def build_tls_config_def verify_server_cert_def)
qed

text \<open>The value of a base64 text without padding, for a length that is a multiple of four.\<close>

definition b64_value :: "char \<Rightarrow> nat option" where
  "b64_value c = (let n = of_char c in
     if 65 \<le> n \<and> n \<le> 90 then Some (n - 65) else if 97 \<le> n \<and> n \<le> 122 then Some (n - 71)
     else if 48 \<le> n \<and> n \<le> 57 then Some (n + 4) else None)"

fun b64_quads :: "string \<Rightarrow> bytes option" where
  "b64_quads [] = Some []"
| "b64_quads (a # b # c # d # s) =
     (case (b64_value a, b64_value b, b64_value c, b64_value d) of
        (Some w, Some x, Some y, Some z) \<Rightarrow>
          map_option (\<lambda>r. let n = ((w * 64 + x) * 64 + y) * 64 + z in
            word_of_nat (n div 65536) # word_of_nat (n div 256) # word_of_nat n # r) (b64_quads s)
      | _ \<Rightarrow> None)"
| "b64_quads _ = None"

lemma b64_quads_a: "\<exists>h. b64_quads (replicate (4 * n) (CHR ''a'')) = Some h \<and> length h = 3 * n"
proof (induction n)
  case (Suc n)
  have "replicate (4 * Suc n) (CHR ''a'') = CHR ''a'' # CHR ''a'' # CHR ''a'' # CHR ''a'' # replicate (4 * n) (CHR ''a'')"
    by (simp add: numeral_eq_Suc)
  with Suc show ?case by (auto simp: b64_value_def Let_def)
qed simp

lemma hex_pin_never_matches_witness:
  "\<exists>h. decode_pin b64_quads b64_quads (\<lambda>_. None) (replicate 64 (CHR ''a'')) = Inr h
    \<and> \<not> verify_server_cert (\<lambda>x. replicate 32 (sum_list x)) (tls_verifier (build_tls_config False h True)) True [1] []"
proof -
  obtain h where h: "b64_quads (replicate 64 (CHR ''a'')) = Some h" "length h = 48"
    using b64_quads_a [of 16] by auto
  have "sha256_ok (\<lambda>x. replicate 32 (sum_list x))" by (simp add: sha256_ok_def)
  then show ?thesis
    using hex_pin_never_matches [where sha = "\<lambda>x. replicate 32 (sum_list x)" and b64_url = b64_quads
        and pin = "replicate 64 (CHR ''a'')" and h = h and insecure = False and b64_std = b64_quads
        and hex = "\<lambda>_. None" and early = True and webpki = True and end_entity = "[1]" and intermediates = "[]"] h
    by (intro exI [of _ h]) simp
qed

end
