(* ===== verification/Client_Reconnect.thy ===== *)
theory Client_Reconnect
  imports Client
begin

text \<open>
  The shared connection of \<open>client/src/client.rs\<close>: \<open>connect\<close>/\<open>preconnect\<close>, \<open>wait_for_reconnect\<close>,
  \<open>lead_reconnect\<close> and \<open>ReconnectGuard\<close>, as a step relation over any number of concurrent calls.

  A step runs one call up to its next await point.  \<open>rc_lock\<close> is the holder of the asynchronous
  mutex, which a call keeps while it awaits the connection's read or write lock.  A call can be
  cancelled at an await point; a cancelled leader drops its \<open>ReconnectGuard\<close> after the lock it
  may hold.  Connections, errors and \<open>Notify\<close> objects are identified by numbers;
  \<open>rc_calls\<close> lists the \<open>notify_waiters\<close> calls, and a subscription remembers how many there were.
  The outcome of resolving and dialling (\<open>try_addresses\<close>) is chosen by the step \<open>Dial\<close>.  The step
  \<open>Auth_failed\<close> is a failed write of \<open>send_underlay_auth\<close>, which gives up the authentication stream;
  \<open>auth_failed\<close> records the connections whose stream was given up that way.
\<close>

section \<open>State\<close>

record rstate =
  last_failure :: "(nat \<times> nat) option"
  attempts :: u32
  in_flight :: bool
  rs_record :: bool
  rs_done :: "nat option"

definition rstate_default :: rstate where
  "rstate_default = \<lparr>last_failure = None, attempts = 0, in_flight = False, rs_record = False, rs_done = None\<rparr>"

datatype rc_pc =
    CStart
  | CLock
  | CHold
  | CHeld
  | CJoin nat nat
  | CJoinLock nat nat
  | CJoinHold nat nat
  | CJoinLive nat nat
  | CAwait nat nat
  | CWoken
  | CWokenLock
  | LConn nat
  | LAuth nat
  | LDial nat
  | LFail nat nat
  | LStream nat nat
  | LPubLock nat nat
  | LPubHold nat nat
  | LNotify nat "nat + nat"
  | Dropping
  | CGone
  | CPanic
  | CDone "nat + nat"

record rc_task =
  rt_record :: bool
  rt_pc :: rc_pc

record rclient =
  rc_state :: rstate
  rc_lock :: "nat option"
  connection :: "nat option"
  closed :: "nat list"
  auth_uni_stream :: "nat option"
  auth_failed :: "nat list"
  rc_calls :: "nat list"
  rc_next :: nat
  rc_tasks :: "(nat, rc_task) hashmap"

definition rc_init :: "rclient \<Rightarrow> bool" where
  "rc_init s = (s = \<lparr>rc_state = rstate_default, rc_lock = None, connection = None, closed = [],
     auth_uni_stream = None, auth_failed = [], rc_calls = [], rc_next = 0, rc_tasks = []\<rparr>)"

definition put :: "nat \<Rightarrow> rc_task \<Rightarrow> rc_pc \<Rightarrow> rclient \<Rightarrow> rclient" where
  "put i t pc s = s\<lparr>rc_tasks := hm_insert i (t\<lparr>rt_pc := pc\<rparr>) (rc_tasks s)\<rparr>"

section \<open>Pieces of the code\<close>

definition live_connection :: "rclient \<Rightarrow> nat option" where
  "live_connection s = (case connection s of
     Some c \<Rightarrow> if c \<in> set (closed s) then None else Some c | None \<Rightarrow> None)"

text \<open>Times in milliseconds.\<close>

definition backing_off :: "nat \<Rightarrow> rstate \<Rightarrow> nat option" where
  "backing_off now r = (case last_failure r of
     Some (last_at, e) \<Rightarrow> if now - last_at < 1000 * reconnect_delay (attempts r) then Some e else None
   | None \<Rightarrow> None)"

text \<open>The decision of \<open>connect_inner\<close> under the lock, which it releases; \<open>CPanic\<close> is the failing
  \<open>expect\<close>.\<close>

definition decide :: "nat \<Rightarrow> nat \<Rightarrow> rc_task \<Rightarrow> rclient \<Rightarrow> rclient" where
  "decide now i t s =
     (let s' = s\<lparr>rc_lock := None\<rparr>; r = rc_state s in
      case backing_off now r of
        Some e \<Rightarrow> put i t (CDone (Inl e)) s'
      | None \<Rightarrow>
          if in_flight r
          then (case rs_done r of
                  None \<Rightarrow> put i t CPanic s'
                | Some n \<Rightarrow> put i t (CJoin n (count_list (rc_calls s) n))
                    (s'\<lparr>rc_state := r\<lparr>rs_record := rs_record r \<or> rt_record t\<rparr>\<rparr>))
          else put i t (LConn (rc_next s))
                 (s'\<lparr>rc_next := Suc (rc_next s),
                     rc_state := r\<lparr>in_flight := True, rs_record := rt_record t, rs_done := Some (rc_next s)\<rparr>\<rparr>))"

text \<open>The leader's critical section after a failed dial.\<close>

definition saturating_succ :: "u32 \<Rightarrow> u32" where
  "saturating_succ a = (if a = - 1 then a else a + 1)"

definition record_dial_failure :: "nat \<Rightarrow> nat \<Rightarrow> rstate \<Rightarrow> rstate" where
  "record_dial_failure now e r =
     (let r' = (if rs_record r then r\<lparr>last_failure := Some (now, e), attempts := saturating_succ (attempts r)\<rparr> else r)
      in r'\<lparr>in_flight := False, rs_done := None\<rparr>)"

text \<open>\<open>ReconnectGuard::drop\<close>: nothing happens when the lock is taken.\<close>

definition guard_drop :: "rclient \<Rightarrow> rclient" where
  "guard_drop s =
     (if rc_lock s = None
      then s\<lparr>rc_state := (rc_state s)\<lparr>in_flight := False, rs_done := None\<rparr>,
             rc_calls := (case rs_done (rc_state s) of Some n \<Rightarrow> [n] | None \<Rightarrow> []) @ rc_calls s\<rparr>
      else s)"

text \<open>The calls that hold the lock, the \<open>Notify\<close> of a leader (with an armed guard), and the await
  points.\<close>

fun holds :: "rc_pc \<Rightarrow> bool" where
  "holds CHold = True" | "holds CHeld = True" | "holds (CJoinHold n seen) = True"
| "holds (CJoinLive n seen) = True" | "holds (LPubHold n c) = True" | "holds pc = False"

fun leads :: "rc_pc \<Rightarrow> bool" where
  "leads (LConn n) = True" | "leads (LAuth n) = True" | "leads (LDial n) = True" | "leads (LFail n e) = True"
| "leads (LStream n c) = True" | "leads (LPubLock n c) = True" | "leads (LPubHold n c) = True"
| "leads Dropping = True" | "leads pc = False"

fun can_cancel :: "rc_pc \<Rightarrow> bool" where
  "can_cancel CHeld = False" | "can_cancel (CJoinHold n seen) = False" | "can_cancel (LNotify n r) = False"
| "can_cancel Dropping = False" | "can_cancel CGone = False" | "can_cancel CPanic = False"
| "can_cancel (CDone r) = False" | "can_cancel pc = True"

definition cancel :: "nat \<Rightarrow> rc_task \<Rightarrow> rclient \<Rightarrow> rclient" where
  "cancel i t s = put i t (if leads (rt_pc t) then Dropping else CGone)
     (if holds (rt_pc t) then s\<lparr>rc_lock := None\<rparr> else s)"

section \<open>Steps\<close>

inductive cstep :: "rclient \<Rightarrow> rclient \<Rightarrow> bool" where
  Call: "hm_get (rc_tasks s) i = None \<Longrightarrow>
    cstep s (s\<lparr>rc_tasks := hm_insert i \<lparr>rt_record = b, rt_pc = CStart\<rparr> (rc_tasks s)\<rparr>)"
| Closed: "cstep s (s\<lparr>closed := c # closed s\<rparr>)"
| Auth_failed: "auth_uni_stream s = Some c \<Longrightarrow>
    cstep s (s\<lparr>auth_uni_stream := None, auth_failed := c # auth_failed s\<rparr>)"
| Start: "\<lbrakk>hm_get (rc_tasks s) i = Some t; rt_pc t = CStart\<rbrakk> \<Longrightarrow>
    cstep s (put i t (case live_connection s of Some c \<Rightarrow> CDone (Inr c) | None \<Rightarrow> CLock) s)"
| Lock: "\<lbrakk>hm_get (rc_tasks s) i = Some t; rt_pc t = CLock; rc_lock s = None\<rbrakk> \<Longrightarrow>
    cstep s (put i t CHold (s\<lparr>rc_lock := Some i\<rparr>))"
| Hold_live: "\<lbrakk>hm_get (rc_tasks s) i = Some t; rt_pc t = CHold; live_connection s = Some c\<rbrakk> \<Longrightarrow>
    cstep s (put i t (CDone (Inr c)) (s\<lparr>rc_lock := None\<rparr>))"
| Hold: "\<lbrakk>hm_get (rc_tasks s) i = Some t; rt_pc t = CHold; live_connection s = None\<rbrakk> \<Longrightarrow>
    cstep s (put i t CHeld s)"
| Decide: "\<lbrakk>hm_get (rc_tasks s) i = Some t; rt_pc t = CHeld\<rbrakk> \<Longrightarrow> cstep s (decide now i t s)"
| Join: "\<lbrakk>hm_get (rc_tasks s) i = Some t; rt_pc t = CJoin n seen\<rbrakk> \<Longrightarrow>
    cstep s (put i t (case live_connection s of Some c \<Rightarrow> CDone (Inr c) | None \<Rightarrow> CJoinLock n seen) s)"
| Join_lock: "\<lbrakk>hm_get (rc_tasks s) i = Some t; rt_pc t = CJoinLock n seen; rc_lock s = None\<rbrakk> \<Longrightarrow>
    cstep s (put i t (CJoinHold n seen) (s\<lparr>rc_lock := Some i\<rparr>))"
| Join_wait: "\<lbrakk>hm_get (rc_tasks s) i = Some t; rt_pc t = CJoinHold n seen; in_flight (rc_state s)\<rbrakk> \<Longrightarrow>
    cstep s (put i t (CAwait n seen) (s\<lparr>rc_lock := None\<rparr>))"
| Join_over: "\<lbrakk>hm_get (rc_tasks s) i = Some t; rt_pc t = CJoinHold n seen; \<not> in_flight (rc_state s)\<rbrakk> \<Longrightarrow>
    cstep s (put i t (CJoinLive n seen) s)"
| Join_live: "\<lbrakk>hm_get (rc_tasks s) i = Some t; rt_pc t = CJoinLive n seen\<rbrakk> \<Longrightarrow>
    cstep s (put i t
      (case live_connection s of Some c \<Rightarrow> CDone (Inr c)
       | None \<Rightarrow> (case last_failure (rc_state s) of Some (_, e) \<Rightarrow> CDone (Inl e) | None \<Rightarrow> CLock))
      (s\<lparr>rc_lock := None\<rparr>))"
| Wake: "\<lbrakk>hm_get (rc_tasks s) i = Some t; rt_pc t = CAwait n seen; seen < count_list (rc_calls s) n\<rbrakk> \<Longrightarrow>
    cstep s (put i t CWoken s)"
| Woken: "\<lbrakk>hm_get (rc_tasks s) i = Some t; rt_pc t = CWoken\<rbrakk> \<Longrightarrow>
    cstep s (put i t (case live_connection s of Some c \<Rightarrow> CDone (Inr c) | None \<Rightarrow> CWokenLock) s)"
| Woken_lock: "\<lbrakk>hm_get (rc_tasks s) i = Some t; rt_pc t = CWokenLock; rc_lock s = None\<rbrakk> \<Longrightarrow>
    cstep s (put i t (case last_failure (rc_state s) of Some (_, e) \<Rightarrow> CDone (Inl e) | None \<Rightarrow> CLock) s)"
| Lead_conn: "\<lbrakk>hm_get (rc_tasks s) i = Some t; rt_pc t = LConn n\<rbrakk> \<Longrightarrow>
    cstep s (put i t (LAuth n) (s\<lparr>connection := None\<rparr>))"
| Lead_auth: "\<lbrakk>hm_get (rc_tasks s) i = Some t; rt_pc t = LAuth n\<rbrakk> \<Longrightarrow>
    cstep s (put i t (LDial n) (s\<lparr>auth_uni_stream := None\<rparr>))"
| Dial: "\<lbrakk>hm_get (rc_tasks s) i = Some t; rt_pc t = LDial n\<rbrakk> \<Longrightarrow>
    cstep s (put i t (case res of Inl e \<Rightarrow> LFail n e | Inr c \<Rightarrow> LStream n c) s)"
| Lead_fail: "\<lbrakk>hm_get (rc_tasks s) i = Some t; rt_pc t = LFail n e; rc_lock s = None\<rbrakk> \<Longrightarrow>
    cstep s (put i t (LNotify n (Inl e)) (s\<lparr>rc_state := record_dial_failure now e (rc_state s)\<rparr>))"
| Lead_stream: "\<lbrakk>hm_get (rc_tasks s) i = Some t; rt_pc t = LStream n c\<rbrakk> \<Longrightarrow>
    cstep s (put i t (LPubLock n c) (s\<lparr>auth_uni_stream := Some c\<rparr>))"
| Pub_lock: "\<lbrakk>hm_get (rc_tasks s) i = Some t; rt_pc t = LPubLock n c; rc_lock s = None\<rbrakk> \<Longrightarrow>
    cstep s (put i t (LPubHold n c) (s\<lparr>rc_lock := Some i\<rparr>))"
| Publish: "\<lbrakk>hm_get (rc_tasks s) i = Some t; rt_pc t = LPubHold n c\<rbrakk> \<Longrightarrow>
    cstep s (put i t (LNotify n (Inr c)) (s\<lparr>connection := Some c, rc_state := rstate_default, rc_lock := None\<rparr>))"
| Notify: "\<lbrakk>hm_get (rc_tasks s) i = Some t; rt_pc t = LNotify n r\<rbrakk> \<Longrightarrow>
    cstep s (put i t (CDone r) (s\<lparr>rc_calls := n # rc_calls s\<rparr>))"
| Cancel: "\<lbrakk>hm_get (rc_tasks s) i = Some t; can_cancel (rt_pc t)\<rbrakk> \<Longrightarrow> cstep s (cancel i t s)"
| Drop_guard: "\<lbrakk>hm_get (rc_tasks s) i = Some t; rt_pc t = Dropping\<rbrakk> \<Longrightarrow>
    cstep s (put i t CGone (guard_drop s))"

inductive_cases cstepE: "cstep s s'"

section \<open>The lock\<close>

lemma put_simps [simp]:
  "rc_state (put i t pc s) = rc_state s" "rc_lock (put i t pc s) = rc_lock s"
  "connection (put i t pc s) = connection s" "auth_uni_stream (put i t pc s) = auth_uni_stream s"
  "auth_failed (put i t pc s) = auth_failed s"
  "rc_calls (put i t pc s) = rc_calls s" "rc_next (put i t pc s) = rc_next s"
  "hm_get (rc_tasks (put i t pc s)) j = (if j = i then Some (t\<lparr>rt_pc := pc\<rparr>) else hm_get (rc_tasks s) j)"
  by (simp_all add: put_def)

definition pc_of :: "rclient \<Rightarrow> nat \<Rightarrow> rc_pc" where
  "pc_of s i = (case hm_get (rc_tasks s) i of Some t \<Rightarrow> rt_pc t | None \<Rightarrow> CGone)"

definition lock_ok :: "rclient \<Rightarrow> bool" where
  "lock_ok s = (\<forall>i. rc_lock s = Some i \<longleftrightarrow> holds (pc_of s i))"

text \<open>What a step does to the lock, to the call it moves, and to the shared state.\<close>

lemma pc_of_put [simp]: "pc_of (put i t pc s) = (pc_of s)(i := pc)"
  by (simp add: pc_of_def fun_eq_iff)

lemma pc_of_cong: "rc_tasks s = rc_tasks s' \<Longrightarrow> pc_of s = pc_of s'"
  by (simp add: pc_of_def fun_eq_iff)

lemma pc_of_task: "hm_get (rc_tasks s) i = Some t \<Longrightarrow> pc_of s i = rt_pc t"
  by (simp add: pc_of_def)

lemma pc_of_update [simp]:
  "pc_of (s\<lparr>rc_lock := l\<rparr>) = pc_of s" "pc_of (s\<lparr>rc_state := r\<rparr>) = pc_of s" "pc_of (s\<lparr>connection := c\<rparr>) = pc_of s"
  "pc_of (s\<lparr>closed := cs\<rparr>) = pc_of s" "pc_of (s\<lparr>auth_uni_stream := c\<rparr>) = pc_of s"
  "pc_of (s\<lparr>auth_failed := cs\<rparr>) = pc_of s"
  "pc_of (s\<lparr>rc_calls := ns\<rparr>) = pc_of s" "pc_of (s\<lparr>rc_next := n\<rparr>) = pc_of s"
  "pc_of (guard_drop s) = pc_of s"
  by (simp_all add: pc_of_def fun_eq_iff guard_drop_def)

lemma call_put:
  "s\<lparr>rc_tasks := hm_insert i \<lparr>rt_record = b, rt_pc = pc\<rparr> (rc_tasks s)\<rparr> = put i \<lparr>rt_record = b, rt_pc = CGone\<rparr> pc s"
  by (simp add: put_def)

lemma lock_ok_put:
  assumes "lock_ok s" "pc_of s' = pc_of s"
    and "rc_lock s' = rc_lock s \<and> holds pc = holds (pc_of s i)
      \<or> rc_lock s = None \<and> rc_lock s' = Some i \<and> holds pc
      \<or> holds (pc_of s i) \<and> \<not> holds pc \<and> rc_lock s' = None"
  shows "lock_ok (put i t pc s')"
proof -
  have l: "rc_lock s = Some j \<longleftrightarrow> holds (pc_of s j)" for j using assms(1) by (simp only: lock_ok_def)
  have "rc_lock s' = Some j \<longleftrightarrow> holds (if j = i then pc else pc_of s j)" for j
    using l [of i] l [of j] assms(3) by (cases "j = i") auto
  then show ?thesis by (simp add: lock_ok_def assms(2))
qed

lemma decide_cases:
  obtains (Back_off) e where "backing_off now (rc_state s) = Some e"
      "decide now i t s = put i t (CDone (Inl e)) (s\<lparr>rc_lock := None\<rparr>)"
  | (Panic) "in_flight (rc_state s)" "rs_done (rc_state s) = None"
      "decide now i t s = put i t CPanic (s\<lparr>rc_lock := None\<rparr>)"
  | (Follow) n where "in_flight (rc_state s)" "rs_done (rc_state s) = Some n"
      "decide now i t s = put i t (CJoin n (count_list (rc_calls s) n))
        (s\<lparr>rc_lock := None, rc_state := (rc_state s)\<lparr>rs_record := rs_record (rc_state s) \<or> rt_record t\<rparr>\<rparr>)"
  | (Lead) "\<not> in_flight (rc_state s)"
      "decide now i t s = put i t (LConn (rc_next s)) (s\<lparr>rc_lock := None, rc_next := Suc (rc_next s),
        rc_state := (rc_state s)\<lparr>in_flight := True, rs_record := rt_record t, rs_done := Some (rc_next s)\<rparr>\<rparr>)"
proof (cases "backing_off now (rc_state s)")
  case None
  then show ?thesis
    using Panic Follow Lead by (cases "in_flight (rc_state s)"; cases "rs_done (rc_state s)") (auto simp: decide_def Let_def)
qed (use Back_off in \<open>auto simp: decide_def Let_def\<close>)

lemma lock_ok_step: "cstep s s' \<Longrightarrow> lock_ok s \<Longrightarrow> lock_ok s'"
proof (induction rule: cstep.induct)
  case (Decide s i t now)
  then show ?case
    by (cases rule: decide_cases [of now s i t]) (auto simp: pc_of_task intro: lock_ok_put [of s])
next
  case (Cancel s i t)
  then show ?case by (auto simp: cancel_def pc_of_task intro!: lock_ok_put [of s])
next
  case (Call s i b)
  then show ?case unfolding call_put by (intro lock_ok_put [of s]) (auto simp: pc_of_def)
next
  case (Closed s c)
  then show ?case by (simp add: lock_ok_def)
next
  case (Auth_failed s c)
  then show ?case by (simp add: lock_ok_def)
qed (erule lock_ok_put; auto simp: pc_of_task guard_drop_def split: option.split sum.split)+

section \<open>The leader\<close>

fun lead_id :: "rc_pc \<Rightarrow> nat option" where
  "lead_id (LConn n) = Some n" | "lead_id (LAuth n) = Some n" | "lead_id (LDial n) = Some n"
| "lead_id (LFail n e) = Some n" | "lead_id (LStream n c) = Some n" | "lead_id (LPubLock n c) = Some n"
| "lead_id (LPubHold n c) = Some n" | "lead_id pc = None"

abbreviation flying :: "rclient \<Rightarrow> bool" where
  "flying s \<equiv> in_flight (rc_state s)"

abbreviation done_of :: "rclient \<Rightarrow> nat option" where
  "done_of s \<equiv> rs_done (rc_state s)"

definition leader_ok :: "rclient \<Rightarrow> bool" where
  "leader_ok s = ((flying s \<longrightarrow> done_of s \<noteq> None) \<and> (\<forall>i. pc_of s i \<noteq> CPanic)
     \<and> (\<forall>i. leads (pc_of s i) \<longrightarrow> flying s \<and> lead_id (pc_of s i) \<in> {None, done_of s})
     \<and> (\<forall>i j. leads (pc_of s i) \<and> leads (pc_of s j) \<longrightarrow> i = j))"

lemma leader_okD:
  assumes "leader_ok s"
  shows "flying s \<Longrightarrow> done_of s \<noteq> None" "pc_of s i \<noteq> CPanic"
    "leads (pc_of s i) \<Longrightarrow> flying s \<and> lead_id (pc_of s i) \<in> {None, done_of s}"
    "leads (pc_of s i) \<Longrightarrow> leads (pc_of s j) \<Longrightarrow> i = j"
  using assms unfolding leader_ok_def by blast+

text \<open>A step either leaves the flight as it is, starts one, or ends it.\<close>

lemma leader_ok_put:
  assumes "leader_ok s" "pc_of s' = pc_of s" "pc \<noteq> CPanic"
    and "flying s' = flying s \<and> done_of s' = done_of s
        \<and> (leads pc \<longrightarrow> leads (pc_of s i) \<and> lead_id pc \<in> {None, lead_id (pc_of s i)})
      \<or> \<not> flying s \<and> flying s' \<and> done_of s' \<noteq> None \<and> lead_id pc = done_of s'
      \<or> leads (pc_of s i) \<and> \<not> leads pc \<and> \<not> flying s'"
  shows "leader_ok (put i t pc s')"
proof -
  let ?pc = "\<lambda>j. if j = i then pc else pc_of s j"
  note d = leader_okD [OF assms(1)]
  have flight: "leads (?pc j) \<Longrightarrow> flying s' \<and> lead_id (?pc j) \<in> {None, done_of s'}" for j
    using assms(4) d(3) [of i] d(3) [of j] d(4) [of i j] by (cases "j = i") auto
  have single: "leads (?pc j) \<Longrightarrow> leads (?pc k) \<Longrightarrow> j = k" for j k
    using assms(4) d(3) [of j] d(3) [of k] d(4) [of i j] d(4) [of i k] d(4) [of j k]
    by (cases "j = i"; cases "k = i") auto
  have "flying s' \<Longrightarrow> done_of s' \<noteq> None" using assms(4) d(1) by auto
  moreover have "?pc j \<noteq> CPanic" for j using assms(3) d(2) by simp
  moreover have "pc_of (put i t pc s') = ?pc" using assms(2) by auto
  ultimately show ?thesis
    unfolding leader_ok_def put_simps using flight single by (intro conjI allI impI) metis+
qed

lemma leader_ok_step: "cstep s s' \<Longrightarrow> leader_ok s \<Longrightarrow> leader_ok s'"
proof (induction rule: cstep.induct)
  case (Decide s i t now)
  then show ?case
    by (cases rule: decide_cases [of now s i t])
      (auto simp: pc_of_task dest: leader_okD(1) intro!: leader_ok_put [of s])
next
  case (Cancel s i t)
  then show ?case by (auto simp: cancel_def pc_of_task intro!: leader_ok_put [of s])
next
  case (Call s i b)
  then show ?case unfolding call_put by (intro leader_ok_put [of s]) (auto simp: pc_of_def)
next
  case (Closed s c)
  then show ?case by (simp add: leader_ok_def)
next
  case (Auth_failed s c)
  then show ?case by (simp add: leader_ok_def)
qed (erule leader_ok_put; auto simp: pc_of_task guard_drop_def rstate_default_def record_dial_failure_def Let_def
    split: option.split sum.split)+

section \<open>Waiting calls\<close>

fun waits_on :: "rc_pc \<Rightarrow> (nat \<times> nat) option" where
  "waits_on (CJoin n k) = Some (n, k)" | "waits_on (CJoinLock n k) = Some (n, k)"
| "waits_on (CJoinHold n k) = Some (n, k)" | "waits_on (CJoinLive n k) = Some (n, k)"
| "waits_on (CAwait n k) = Some (n, k)" | "waits_on pc = None"

text \<open>The notification of \<open>n\<close> has come after the first \<open>k\<close>, or the leader that owes it is about
  to send it, or the flight is not over.\<close>

definition wake_due :: "rclient \<Rightarrow> nat \<Rightarrow> nat \<Rightarrow> bool" where
  "wake_due s n k = (k < count_list (rc_calls s) n \<or> (\<exists>j r. pc_of s j = LNotify n r)
     \<or> flying s \<and> done_of s = Some n)"

definition waiter_ok :: "rclient \<Rightarrow> bool" where
  "waiter_ok s = (\<forall>i n k. waits_on (pc_of s i) = Some (n, k) \<longrightarrow> k \<le> count_list (rc_calls s) n \<and> wake_due s n k)"

fun the_list :: "'a option \<Rightarrow> 'a list" where
  "the_list None = []" | "the_list (Some a) = [a]"

lemma count_list_pos: "n \<in> set ns \<Longrightarrow> 0 < count_list ns n"
  by (metis count_list_0_iff gr0I)

lemma waiter_ok_put:
  assumes "waiter_ok s" "pc_of s' = pc_of s" "rc_calls s' = ns @ rc_calls s"
    and new: "waits_on pc = None \<or> waits_on pc = waits_on (pc_of s i)
      \<or> (\<exists>n. waits_on pc = Some (n, count_list (rc_calls s') n) \<and> flying s' \<and> done_of s' = Some n)"
    and flight: "\<And>n. flying s \<Longrightarrow> done_of s = Some n \<Longrightarrow>
      flying s' \<and> done_of s' = Some n \<or> n \<in> set ns \<or> (\<exists>r. pc = LNotify n r)"
    and pending: "\<And>n r. pc_of s i = LNotify n r \<Longrightarrow> n \<in> set ns \<or> (\<exists>r'. pc = LNotify n r')"
  shows "waiter_ok (put i t pc s')"
proof -
  let ?s = "put i t pc s'"
  have old: "k \<le> count_list (rc_calls ?s) n \<and> wake_due ?s n k"
    if "waits_on (pc_of s j) = Some (n, k)" for j n k
  proof -
    have k: "k \<le> count_list (rc_calls s) n" "wake_due s n k" using assms(1) that unfolding waiter_ok_def by blast+
    have calls: "count_list (rc_calls ?s) n = count_list ns n + count_list (rc_calls s) n" by (simp add: assms(3))
    have due: "wake_due ?s n k" if "n \<in> set ns \<or> (\<exists>r. pc = LNotify n r)"
      using that
    proof
      assume "n \<in> set ns"
      then show ?thesis using k(1) count_list_pos [of n ns] calls by (simp add: wake_due_def)
    qed (auto simp: wake_due_def)
    from k(2) consider "k < count_list (rc_calls s) n" | l r where "pc_of s l = LNotify n r"
      | "flying s" "done_of s = Some n"
      unfolding wake_due_def by blast
    then have "wake_due ?s n k"
    proof cases
      case 1
      then show ?thesis using calls by (simp add: wake_due_def)
    next
      case (2 l r)
      show ?thesis
      proof (cases "l = i")
        case True
        then show ?thesis using 2 pending [of n r] due by blast
      next
        case False
        then have "pc_of ?s l = LNotify n r" using 2 by (simp add: assms(2))
        then show ?thesis unfolding wake_due_def by blast
      qed
    next
      case 3
      from flight [OF this] show ?thesis
      proof (elim disjE)
        assume "flying s' \<and> done_of s' = Some n"
        then show ?thesis by (simp add: wake_due_def)
      qed (use due in blast)+
    qed
    then show ?thesis using k(1) calls by simp
  qed
  have "k \<le> count_list (rc_calls ?s) n \<and> wake_due ?s n k" if "waits_on pc = Some (n, k)" for n k
    using new
  proof (elim disjE exE conjE)
    assume "waits_on pc = waits_on (pc_of s i)"
    then show ?thesis using old [of i n k] that by simp
  next
    fix m assume "waits_on pc = Some (m, count_list (rc_calls s') m)" "flying s'" "done_of s' = Some m"
    then show ?thesis using that by (simp add: wake_due_def)
  qed (use that in simp)
  then show ?thesis using old by (auto simp: waiter_ok_def assms(2))
qed

lemma waiter_ok_step: "cstep s s' \<Longrightarrow> leader_ok s \<Longrightarrow> waiter_ok s \<Longrightarrow> waiter_ok s'"
proof (induction rule: cstep.induct)
  case (Decide s i t now)
  then show ?case
    by (cases rule: decide_cases [of now s i t]) (auto simp: pc_of_task intro!: waiter_ok_put [of s _ "[]"])
next
  case (Cancel s i t)
  then show ?case by (auto simp: cancel_def pc_of_task intro!: waiter_ok_put [of s _ "[]"])
next
  case (Call s i b)
  then show ?case unfolding call_put by (intro waiter_ok_put [of s _ "[]"]) (auto simp: pc_of_def)
next
  case (Closed s c)
  then show ?case by (simp add: waiter_ok_def wake_due_def)
next
  case (Auth_failed s c)
  then show ?case by (simp add: waiter_ok_def wake_due_def)
next
  case (Lead_fail s i t n e now)
  have "done_of s = Some n" using leader_okD(3) [OF Lead_fail(4), of i] Lead_fail(1,2) by (simp add: pc_of_task)
  with Lead_fail show ?case by (intro waiter_ok_put [of s _ "[]"]) (auto simp: pc_of_task)
next
  case (Publish s i t n c)
  have "done_of s = Some n" using leader_okD(3) [OF Publish(3), of i] Publish(1,2) by (simp add: pc_of_task)
  with Publish show ?case by (intro waiter_ok_put [of s _ "[]"]) (auto simp: pc_of_task)
next
  case (Notify s i t n r)
  then show ?case by (intro waiter_ok_put [of s _ "[n]"]) (auto simp: pc_of_task)
next
  case (Drop_guard s i t)
  then show ?case
    by (cases "rc_lock s"; cases "done_of s")
      (rule waiter_ok_put [of s _ "if rc_lock s = None then the_list (done_of s) else []"];
       auto simp: pc_of_task guard_drop_def)+
qed (erule waiter_ok_put [where ns = "[]"]; auto simp: pc_of_task split: option.split sum.split)+

section \<open>The authentication stream\<close>

text \<open>The leader has cleared the old connection, and has stored the new stream.\<close>

fun cleared :: "rc_pc \<Rightarrow> bool" where
  "cleared (LAuth n) = True" | "cleared (LDial n) = True" | "cleared (LFail n e) = True"
| "cleared (LStream n c) = True" | "cleared (LPubLock n c) = True" | "cleared (LPubHold n c) = True"
| "cleared pc = False"

fun streamed :: "rc_pc \<Rightarrow> nat option" where
  "streamed (LPubLock n c) = Some c" | "streamed (LPubHold n c) = Some c" | "streamed pc = None"

abbreviation has_stream :: "rclient \<Rightarrow> nat \<Rightarrow> bool" where
  "has_stream s c \<equiv> auth_uni_stream s = Some c \<or> auth_uni_stream s = None \<and> c \<in> set (auth_failed s)"

definition stream_ok :: "rclient \<Rightarrow> bool" where
  "stream_ok s = ((\<forall>c. connection s = Some c \<longrightarrow> has_stream s c)
     \<and> (\<forall>i. cleared (pc_of s i) \<longrightarrow> connection s = None)
     \<and> (\<forall>i c. streamed (pc_of s i) = Some c \<longrightarrow> has_stream s c))"

lemma cleared_leads: "cleared pc \<Longrightarrow> leads pc" "streamed pc = Some c \<Longrightarrow> leads pc"
  by (cases pc; simp)+

lemma stream_ok_put:
  assumes "stream_ok s" "leader_ok s" "pc_of s' = pc_of s"
    and "connection s' = connection s \<and> auth_uni_stream s' = auth_uni_stream s \<and> auth_failed s' = auth_failed s
        \<and> (cleared pc \<longrightarrow> cleared (pc_of s i)) \<and> streamed pc \<in> {None, streamed (pc_of s i)}
      \<or> leads (pc_of s i) \<and> (\<forall>c. connection s' = Some c \<longrightarrow> has_stream s' c)
        \<and> (cleared pc \<longrightarrow> connection s' = None) \<and> (\<forall>c. streamed pc = Some c \<longrightarrow> has_stream s' c)"
  shows "stream_ok (put i t pc s')"
proof -
  have others: "\<not> cleared (pc_of s j) \<and> streamed (pc_of s j) = None" if "leads (pc_of s i)" "j \<noteq> i" for j
    using leader_okD(4) [OF assms(2) that(1), of j] that(2) cleared_leads [of "pc_of s j"]
    by (cases "streamed (pc_of s j)") auto
  show ?thesis
    using assms(4)
  proof (elim disjE conjE)
    assume "connection s' = connection s" "auth_uni_stream s' = auth_uni_stream s" "auth_failed s' = auth_failed s"
      "cleared pc \<longrightarrow> cleared (pc_of s i)" and st: "streamed pc \<in> {None, streamed (pc_of s i)}"
    moreover have "streamed pc = Some c \<Longrightarrow> has_stream s c" for c
      using st assms(1) unfolding stream_ok_def by (metis empty_iff insert_iff option.distinct(1))
    ultimately show ?thesis using assms(1,3) by (auto simp: stream_ok_def)
  next
    assume "leads (pc_of s i)" "\<forall>c. connection s' = Some c \<longrightarrow> has_stream s' c"
      "cleared pc \<longrightarrow> connection s' = None" "\<forall>c. streamed pc = Some c \<longrightarrow> has_stream s' c"
    then show ?thesis using others assms(3) by (auto simp: stream_ok_def)
  qed
qed

lemma stream_okD:
  assumes "stream_ok s"
  shows "connection s = Some c \<Longrightarrow> has_stream s c" "cleared (pc_of s i) \<Longrightarrow> connection s = None"
    "streamed (pc_of s i) = Some c \<Longrightarrow> has_stream s c"
  using assms unfolding stream_ok_def by blast+

lemma stream_ok_step: "cstep s s' \<Longrightarrow> leader_ok s \<Longrightarrow> stream_ok s \<Longrightarrow> stream_ok s'"
proof (induction rule: cstep.induct)
  case (Decide s i t now)
  then show ?case
    by (cases rule: decide_cases [of now s i t]) (auto simp: pc_of_task intro!: stream_ok_put [of s])
next
  case (Cancel s i t)
  then show ?case by (auto simp: cancel_def pc_of_task intro!: stream_ok_put [of s])
next
  case (Call s i b)
  then show ?case unfolding call_put by (intro stream_ok_put [of s]) (auto simp: pc_of_def)
next
  case (Closed s c)
  then show ?case by (simp add: stream_ok_def)
next
  case (Auth_failed s c)
  then show ?case by (auto simp: stream_ok_def)
next
  case (Lead_auth s i t n)
  have "connection s = None" using stream_okD(2) [OF Lead_auth(4), of i] Lead_auth(1,2) by (simp add: pc_of_task)
  with Lead_auth show ?case by (intro stream_ok_put [of s]) (auto simp: pc_of_task)
next
  case (Lead_stream s i t n c)
  have "connection s = None" using stream_okD(2) [OF Lead_stream(4), of i] Lead_stream(1,2) by (simp add: pc_of_task)
  with Lead_stream show ?case by (intro stream_ok_put [of s]) (auto simp: pc_of_task)
next
  case (Publish s i t n c)
  have "has_stream s c" using stream_okD(3) [OF Publish(4), of i] Publish(1,2) by (simp add: pc_of_task)
  with Publish show ?case by (intro stream_ok_put [of s]) (auto simp: pc_of_task)
qed (rule stream_ok_put; auto simp: pc_of_task guard_drop_def split: option.split sum.split)+

definition rc_inv :: "rclient \<Rightarrow> bool" where
  "rc_inv s = (lock_ok s \<and> leader_ok s \<and> waiter_ok s \<and> stream_ok s)"

interpretation reconnect: invariant_system rc_init cstep rc_inv
proof unfold_locales
  fix s
  assume "rc_init s"
  then have "pc_of s i = CGone" "rc_lock s = None" "\<not> flying s" "connection s = None" for i
    by (simp_all add: rc_init_def pc_of_def rstate_default_def)
  then show "rc_inv s" by (simp add: rc_inv_def lock_ok_def leader_ok_def waiter_ok_def stream_ok_def)
qed (simp add: rc_inv_def lock_ok_step leader_ok_step waiter_ok_step stream_ok_step)

section \<open>A flight without a leader\<close>

definition wedged :: "rclient \<Rightarrow> bool" where
  "wedged s = (flying s \<and> done_of s \<noteq> None \<and> connection s = None \<and> (\<forall>i. \<not> leads (pc_of s i)))"

lemma wedged_put:
  "\<lbrakk>wedged s; pc_of s' = pc_of s; flying s' = flying s; done_of s' = done_of s; connection s' = connection s; \<not> leads pc\<rbrakk>
   \<Longrightarrow> wedged (put i t pc s')"
  by (simp add: wedged_def)

lemma wedged_leads: "wedged s \<Longrightarrow> hm_get (rc_tasks s) i = Some t \<Longrightarrow> \<not> leads (rt_pc t)"
  unfolding wedged_def by (metis pc_of_task)

lemma wedged_step: "cstep s s' \<Longrightarrow> wedged s \<Longrightarrow> wedged s'"
proof (induction rule: cstep.induct)
  case (Decide s i t now)
  then show ?case
    by (cases rule: decide_cases [of now s i t]) (auto intro!: wedged_put [of s] simp: wedged_def)
next
  case (Cancel s i t)
  then show ?case using wedged_leads [OF Cancel(3,1)] by (auto simp: cancel_def intro!: wedged_put [of s])
next
  case (Call s i b)
  then show ?case unfolding call_put by (intro wedged_put [of s]) auto
next
  case (Closed s c)
  then show ?case by (simp add: wedged_def)
next
  case (Auth_failed s c)
  then show ?case by (simp add: wedged_def)
qed ((drule (1) wedged_leads, simp; fail) | (erule wedged_put; auto split: option.split))+

interpretation wedge: invariant_system wedged cstep wedged
  by unfold_locales (simp_all add: wedged_step)

section \<open>Properties\<close>

text \<open>\<^bold>\<open>C14.\<close>  In every interleaving of \<open>connect\<close> and \<open>preconnect\<close> calls, cancellations, lost
  connections and failed writes of authentications: at most one call dials, and only while \<open>in_flight\<close> is set; at most one call
  holds the lock; the \<open>expect\<close> on the completion notify never panics; and a connection is
  visible only together with its own authentication stream, which is missing only after a failed
  write on it.\<close>

theorem reconnect_single_leader:
  assumes "reach rc_init cstep s"
  shows "(leads (pc_of s i) \<and> leads (pc_of s j) \<longrightarrow> i = j) \<and> (leads (pc_of s i) \<longrightarrow> flying s)
    \<and> (holds (pc_of s i) \<and> holds (pc_of s j) \<longrightarrow> i = j) \<and> pc_of s i \<noteq> CPanic
    \<and> (connection s = Some c \<longrightarrow>
        auth_uni_stream s = Some c \<or> auth_uni_stream s = None \<and> c \<in> set (auth_failed s))"
proof -
  have inv: "lock_ok s" "leader_ok s" "stream_ok s" using reconnect.reach_inv [OF assms] by (simp_all add: rc_inv_def)
  have "holds (pc_of s i) \<Longrightarrow> holds (pc_of s j) \<Longrightarrow> i = j"
    using inv(1) unfolding lock_ok_def by (metis option.inject)
  then show ?thesis using leader_okD [OF inv(2)] stream_okD(1) [OF inv(3)] by blast
qed

text \<open>\<^bold>\<open>C15.\<close>  A call that waits for the leader is not forgotten as long as there is a leader: it has
  been notified, or the leader has finished and is about to notify it, or a leader with the
  very \<open>Notify\<close> it waits on (or one that is being cancelled) is still there; the only other
  case is a flight that lost its leader.\<close>

theorem reconnect_waiter_served:
  assumes "reach rc_init cstep s" "pc_of s i = CAwait n k"
  shows "k < count_list (rc_calls s) n \<or> (\<exists>j r. pc_of s j = LNotify n r)
    \<or> (\<exists>j. leads (pc_of s j) \<and> lead_id (pc_of s j) \<in> {None, Some n})
    \<or> flying s \<and> (\<forall>j. \<not> leads (pc_of s j))"
proof -
  have inv: "leader_ok s" "waiter_ok s" using reconnect.reach_inv [OF assms(1)] by (simp_all add: rc_inv_def)
  have "waits_on (pc_of s i) = Some (n, k)" using assms(2) by simp
  then have "wake_due s n k" using inv(2) unfolding waiter_ok_def by blast
  then show ?thesis using leader_okD(3) [OF inv(1)] unfolding wake_due_def by metis
qed

text \<open>One client with two calls: the first leads and is cancelled while the second holds the lock.\<close>

definition rc_demo :: "rstate \<Rightarrow> nat option \<Rightarrow> nat \<Rightarrow> (nat \<times> rc_pc) list \<Rightarrow> rclient" where
  "rc_demo r l n pcs = \<lparr>rc_state = r, rc_lock = l, connection = None, closed = [], auth_uni_stream = None, auth_failed = [],
     rc_calls = [], rc_next = n, rc_tasks = map (\<lambda>(i, pc). (i, \<lparr>rt_record = True, rt_pc = pc\<rparr>)) pcs\<rparr>"

definition rc_flight :: rstate where
  "rc_flight = rstate_default\<lparr>in_flight := True, rs_record := True, rs_done := Some 0\<rparr>"

lemmas rc_demo_simps = rc_demo_def put_def hm_get_def hm_insert_def live_connection_def rstate_default_def

lemma rc_demo_leader: "reach rc_init cstep (rc_demo rc_flight None 1 [(0, LConn 0)])"
proof -
  let ?d = "rc_demo rstate_default"
  have "reach rc_init cstep (?d None 0 [])" by (rule reach_init) (simp add: rc_init_def rc_demo_def)
  then have "reach rc_init cstep (?d None 0 [(0, CStart)])"
    by (rule reach_step) (use cstep.Call [of "?d None 0 []" 0 True] in \<open>simp add: rc_demo_simps\<close>)
  then have "reach rc_init cstep (?d None 0 [(0, CLock)])"
    by (rule reach_step) (use cstep.Start [of "?d None 0 [(0, CStart)]" 0 "\<lparr>rt_record = True, rt_pc = CStart\<rparr>"] in \<open>simp add: rc_demo_simps\<close>)
  then have "reach rc_init cstep (?d (Some 0) 0 [(0, CHold)])"
    by (rule reach_step) (use cstep.Lock [of "?d None 0 [(0, CLock)]" 0 "\<lparr>rt_record = True, rt_pc = CLock\<rparr>"] in \<open>simp add: rc_demo_simps\<close>)
  then have "reach rc_init cstep (?d (Some 0) 0 [(0, CHeld)])"
    by (rule reach_step) (use cstep.Hold [of "?d (Some 0) 0 [(0, CHold)]" 0 "\<lparr>rt_record = True, rt_pc = CHold\<rparr>"] in \<open>simp add: rc_demo_simps\<close>)
  then show ?thesis
    by (rule reach_step) (use cstep.Decide [of "?d (Some 0) 0 [(0, CHeld)]" 0 "\<lparr>rt_record = True, rt_pc = CHeld\<rparr>" 0]
        in \<open>simp add: rc_demo_simps decide_def backing_off_def rc_flight_def\<close>)
qed

lemma rc_demo_second: "reach rc_init cstep (rc_demo rc_flight (Some 1) 1 [(0, LConn 0), (1, CHold)])"
proof -
  let ?d = "rc_demo rc_flight"
  have "reach rc_init cstep (?d None 1 [(0, LConn 0), (1, CStart)])"
    by (rule reach_step [OF rc_demo_leader]) (use cstep.Call [of "?d None 1 [(0, LConn 0)]" 1 True] in \<open>simp add: rc_demo_simps\<close>)
  then have "reach rc_init cstep (?d None 1 [(0, LConn 0), (1, CLock)])"
    by (rule reach_step) (use cstep.Start [of "?d None 1 [(0, LConn 0), (1, CStart)]" 1 "\<lparr>rt_record = True, rt_pc = CStart\<rparr>"] in \<open>simp add: rc_demo_simps\<close>)
  then show ?thesis
    by (rule reach_step) (use cstep.Lock [of "?d None 1 [(0, LConn 0), (1, CLock)]" 1 "\<lparr>rt_record = True, rt_pc = CLock\<rparr>"] in \<open>simp add: rc_demo_simps\<close>)
qed

lemma rc_demo_await: "reach rc_init cstep (rc_demo rc_flight None 1 [(0, LConn 0), (1, CAwait 0 0)])"
proof -
  let ?d = "\<lambda>l pc. rc_demo rc_flight l 1 [(0, LConn 0), (1, pc)]"
  let ?t = "\<lambda>pc. \<lparr>rt_record = True, rt_pc = pc\<rparr>"
  have "reach rc_init cstep (?d (Some 1) CHeld)"
    by (rule reach_step [OF rc_demo_second]) (use cstep.Hold [of "?d (Some 1) CHold" 1 "?t CHold"] in \<open>simp add: rc_demo_simps\<close>)
  then have "reach rc_init cstep (?d None (CJoin 0 0))"
    by (rule reach_step) (use cstep.Decide [of "?d (Some 1) CHeld" 1 "?t CHeld" 0]
        in \<open>simp add: rc_demo_simps decide_def backing_off_def rc_flight_def\<close>)
  then have "reach rc_init cstep (?d None (CJoinLock 0 0))"
    by (rule reach_step) (use cstep.Join [of "?d None (CJoin 0 0)" 1 "?t (CJoin 0 0)"] in \<open>simp add: rc_demo_simps\<close>)
  then have "reach rc_init cstep (?d (Some 1) (CJoinHold 0 0))"
    by (rule reach_step) (use cstep.Join_lock [of "?d None (CJoinLock 0 0)" 1 "?t (CJoinLock 0 0)"] in \<open>simp add: rc_demo_simps\<close>)
  then show ?thesis
    by (rule reach_step) (use cstep.Join_wait [of "?d (Some 1) (CJoinHold 0 0)" 1 "?t (CJoinHold 0 0)"]
        in \<open>simp add: rc_demo_simps rc_flight_def\<close>)
qed

lemma rc_demo_wedged: "reach rc_init cstep (rc_demo rc_flight (Some 1) 1 [(0, CGone), (1, CHold)])"
proof -
  let ?d = "rc_demo rc_flight (Some 1) 1"
  have "reach rc_init cstep (?d [(0, Dropping), (1, CHold)])"
    by (rule reach_step [OF rc_demo_second])
      (use cstep.Cancel [of "?d [(0, LConn 0), (1, CHold)]" 0 "\<lparr>rt_record = True, rt_pc = LConn 0\<rparr>"] in \<open>simp add: rc_demo_simps cancel_def\<close>)
  then show ?thesis
    by (rule reach_step) (use cstep.Drop_guard [of "?d [(0, Dropping), (1, CHold)]" 0 "\<lparr>rt_record = True, rt_pc = Dropping\<rparr>"]
        in \<open>simp add: rc_demo_simps guard_drop_def\<close>)
qed

text \<open>\<^bold>\<open>C23.\<close>  The client can lose its ability to connect: \<open>ReconnectGuard::drop\<close> only tries the
  lock, so when the leader is cancelled while another call holds it, \<open>in_flight\<close> stays set with
  nobody dialling; from then on, whatever happens, no call ever dials and no connection is ever
  published again.\<close>

theorem reconnect_wedge:
  "\<exists>s. reach rc_init cstep s \<and> connection s = None
     \<and> (\<forall>s'. cstep\<^sup>*\<^sup>* s s' \<longrightarrow> flying s' \<and> connection s' = None \<and> (\<forall>i. \<not> leads (pc_of s' i)))"
proof (intro exI conjI allI impI)
  let ?s = "rc_demo rc_flight (Some 1) 1 [(0, CGone), (1, CHold)]"
  show "reach rc_init cstep ?s" by (rule rc_demo_wedged)
  have "wedged ?s" by (simp add: wedged_def rc_demo_simps rc_flight_def pc_of_def)
  then have w: "wedged s'" if "cstep\<^sup>*\<^sup>* ?s s'" for s' using wedge.steps_inv [OF that] by blast
  show "connection ?s = None" by (simp add: rc_demo_def)
  show "flying s'" "connection s' = None" "\<not> leads (pc_of s' i)" if "cstep\<^sup>*\<^sup>* ?s s'" for s' i
    using w [OF that] by (simp_all add: wedged_def)
qed

theorem reconnect_single_leader_witness:
  "leads (pc_of (rc_demo rc_flight (Some 1) 1 [(0, LConn 0), (1, CHold)]) 0)
   \<and> flying (rc_demo rc_flight (Some 1) 1 [(0, LConn 0), (1, CHold)])"
proof -
  have "leads (pc_of (rc_demo rc_flight (Some 1) 1 [(0, LConn 0), (1, CHold)]) 0)"
    by (simp add: rc_demo_simps pc_of_def)
  then show ?thesis using reconnect_single_leader [OF rc_demo_second, of 0 0] by blast
qed

theorem reconnect_waiter_served_witness:
  "\<exists>s. reach rc_init cstep s \<and> pc_of s 1 = CAwait 0 0
     \<and> (\<exists>j. leads (pc_of s j) \<and> lead_id (pc_of s j) \<in> {None, Some 0})"
proof -
  let ?s = "rc_demo rc_flight None 1 [(0, LConn 0), (1, CAwait 0 0)]"
  have pcs: "pc_of ?s 1 = CAwait 0 0" "leads (pc_of ?s 0)" "\<And>j r. pc_of ?s j \<noteq> LNotify 0 r" "rc_calls ?s = []"
    by (auto simp: rc_demo_simps pc_of_def)
  then show ?thesis
    using reconnect_waiter_served [OF rc_demo_await pcs(1)] rc_demo_await by (intro exI [of _ ?s]) auto
qed

theorem reconnect_wedge_witness: "\<exists>s. reach rc_init cstep s \<and> connection s = None \<and> flying s"
  using reconnect_wedge by blast

end
