(* ===== verification/Local_Socks.thy ===== *)
theory Local_Socks
  imports Client
begin

text \<open>
  The SOCKS5 side of \<open>client/src/local.rs\<close>: the handshake, its replies, and the UDP packets of an
  association.

  The inbound connection is the list of bytes that arrive before it ends or the deadline passes
  (\<open>expired\<close> tells which).  What a handler writes to the client is returned next to its result.
  \<open>connected\<close> is the outcome of connecting to the server and opening a stream.
\<close>

section \<open>Inbound connections\<close>

datatype local_error =
    InboundEof
  | InboundTimeout
  | UnsupportedAddrType byte
  | DomainNotUtf8
  | UdpBindFailed
  | HeaderLineTooLong
  | IncompleteHead
  | LineNotUtf8
  | InvalidRequestLine string
  | TooManyHeaders
  | UnsupportedTarget string
  | Upstream client_error

text \<open>Milliseconds.\<close>

definition INBOUND_HEAD_TIMEOUT :: nat where "INBOUND_HEAD_TIMEOUT = 10000"

definition inbound_read :: "nat \<Rightarrow> bytes \<Rightarrow> local_error + (bytes \<times> bytes)" where
  "inbound_read n bs = ok_or InboundEof (take_exact n bs)"

text \<open>\<open>timeout_at\<close>: waiting for more bytes ends in a timeout when the deadline comes first.\<close>

definition within_deadline :: "bool \<Rightarrow> local_error + 'a \<Rightarrow> local_error + 'a" where
  "within_deadline expired r = (if expired \<and> (case r of Inl e \<Rightarrow> e = InboundEof | Inr _ \<Rightarrow> False)
     then Inl InboundTimeout else r)"

datatype inbound = InboundSocks5 | InboundHttp

text \<open>\<open>handle_connection\<close>: the first byte is peeked; at end of file the buffer keeps its 0.\<close>

definition handle_connection :: "bool \<Rightarrow> bytes \<Rightarrow> local_error + inbound" where
  "handle_connection expired bs =
     (case bs of
        [] \<Rightarrow> if expired then Inl InboundTimeout else Inr InboundHttp
      | b # _ \<Rightarrow> Inr (if b = 0x05 then InboundSocks5 else InboundHttp))"

text \<open>\<open>copied\<close> and \<open>down\<close> are the outcomes of \<open>copy_buf\<close> and \<open>shutdown\<close>; the second component tells
  whether the write side was shut down.\<close>

definition local_copy_direction :: "'e + nat \<Rightarrow> 'e + unit \<Rightarrow> ('e + nat) \<times> bool" where
  "local_copy_direction copied down =
     (case copied of Inl e \<Rightarrow> (Inl e, False) | Inr n \<Rightarrow> (and_then down (\<lambda>_. Inr n), True))"

section \<open>Handshake\<close>

definition socks5_addr :: "byte \<Rightarrow> bytes \<Rightarrow> local_error + ((string \<times> u16) \<times> bytes)" where
  "socks5_addr addr_type bs =
     (if addr_type = 0x01 then
        and_then (inbound_read 4 bs) (\<lambda>(ip, bs).
        and_then (inbound_read 2 bs) (\<lambda>(port_buf, bs).
          Inr ((v4_str (v4_of_octets ip), u16_of_be (port_buf ! 0) (port_buf ! 1)), bs)))
      else if addr_type = 0x03 then
        and_then (inbound_read 1 bs) (\<lambda>(len_buf, bs).
        and_then (inbound_read (unat (len_buf ! 0)) bs) (\<lambda>(domain, bs).
        and_then (inbound_read 2 bs) (\<lambda>(port_buf, bs).
        and_then (ok_or DomainNotUtf8 (from_utf8 domain)) (\<lambda>host.
          Inr ((host, u16_of_be (port_buf ! 0) (port_buf ! 1)), bs)))))
      else if addr_type = 0x04 then
        and_then (inbound_read 16 bs) (\<lambda>(ip, bs).
        and_then (inbound_read 2 bs) (\<lambda>(port_buf, bs).
          Inr ((v6_str (v6_of_octets ip), u16_of_be (port_buf ! 0) (port_buf ! 1)), bs)))
      else Inl (UnsupportedAddrType addr_type))"

definition socks5_handshake :: "bytes \<Rightarrow> bytes \<times> (local_error + ((byte \<times> string \<times> u16) \<times> bytes))" where
  "socks5_handshake bs =
     (case and_then (inbound_read 2 bs) (\<lambda>(buf, bs). inbound_read (unat (buf ! 1)) bs) of
        Inl e \<Rightarrow> ([], Inl e)
      | Inr (methods, bs) \<Rightarrow>
          ([0x05, 0x00],
           and_then (inbound_read 4 bs) (\<lambda>(req, bs).
           and_then (socks5_addr (req ! 3) bs) (\<lambda>((host, port), bs).
             Inr ((req ! 1, host, port), bs)))))"

definition build_socks5_response :: "byte \<Rightarrow> string \<Rightarrow> u16 \<Rightarrow> bytes" where
  "build_socks5_response reply host port =
     (let (addr_type, addr_bytes) =
        (case parse_ipv4 host of
           Some ip \<Rightarrow> (0x01, v4_octets ip)
         | None \<Rightarrow>
             (case parse_ipv6 host of
                Some ip \<Rightarrow> (0x04, v6_octets ip)
              | None \<Rightarrow> (0x03, word_of_nat (length host) # str_bytes host)))
      in [0x05, reply, 0x00, addr_type] @ addr_bytes @ u16_to_be port)"

text \<open>What a request leads to: a tunnel, whose stream starts with the given header and then
  carries what follows on the connection; a UDP association; or a refusal.\<close>

datatype socks_action = SocksTunnel bytes bytes | SocksAssociate socket_addr | SocksRefused

text \<open>\<open>bound\<close> is the address of the UDP socket bound for an association.\<close>

definition handle_socks5 :: "bool \<Rightarrow> client_error + unit \<Rightarrow> socket_addr option \<Rightarrow> bytes \<Rightarrow>
    bytes \<times> (local_error + socks_action)" where
  "handle_socks5 expired connected bound bs =
     (let (written, res) = socks5_handshake bs in
      case within_deadline expired res of
        Inl e \<Rightarrow> (written, Inl e)
      | Inr ((cmd, host, port), rest) \<Rightarrow>
          if cmd = 0x01 then
            (case and_then connected (\<lambda>_. open_tcp_stream host port) of
               Inl e \<Rightarrow> (written @ build_socks5_response 0x01 ''0.0.0.0'' 0, Inl (Upstream e))
             | Inr header \<Rightarrow> (written @ build_socks5_response 0x00 host port, Inr (SocksTunnel header rest)))
          else if cmd = 0x03 then
            (case bound of
               None \<Rightarrow> (written, Inl UdpBindFailed)
             | Some a \<Rightarrow> (written @ build_socks5_response 0x00 (ip_str (sa_ip a)) (sa_port a), Inr (SocksAssociate a)))
          else (written @ build_socks5_response 0x07 ''0.0.0.0'' 0, Inr SocksRefused))"

section \<open>UDP packets\<close>

record outbound_datagram =
  od_addr :: string
  od_port :: u16
  od_payload :: bytes

definition parse_socks5_udp_request :: "bytes \<Rightarrow> outbound_datagram option" where
  "parse_socks5_udp_request packet =
     (if length packet < 4 \<or> packet ! 2 \<noteq> 0x00 then None
      else
        let atyp = packet ! 3; offset = 4 in
        if atyp = 0x01 then
          (if length packet < offset + 4 + 2 then None
           else Some \<lparr>od_addr = v4_str (Ipv4 (packet ! offset) (packet ! (offset + 1)) (packet ! (offset + 2)) (packet ! (offset + 3))),
                      od_port = u16_of_be (packet ! (offset + 4)) (packet ! (offset + 5)),
                      od_payload = drop (offset + 6) packet\<rparr>)
        else if atyp = 0x03 then
          (if length packet \<le> offset then None
           else let dlen = unat (packet ! offset); start = offset + 1 in
             if length packet < start + dlen + 2 then None
             else (case from_utf8 (take dlen (drop start packet)) of
                     None \<Rightarrow> None
                   | Some domain \<Rightarrow>
                       Some \<lparr>od_addr = domain,
                             od_port = u16_of_be (packet ! (start + dlen)) (packet ! (start + dlen + 1)),
                             od_payload = drop (start + dlen + 2) packet\<rparr>))
        else if atyp = 0x04 then
          (if length packet < offset + 16 + 2 then None
           else Some \<lparr>od_addr = v6_str (v6_of_octets (take 16 (drop offset packet))),
                      od_port = u16_of_be (packet ! (offset + 16)) (packet ! (offset + 17)),
                      od_payload = drop (offset + 18) packet\<rparr>)
        else None)"

text \<open>\<open>domain_bytes.len() as u8\<close> wraps.\<close>

definition build_socks5_udp_packet :: "string \<Rightarrow> u16 \<Rightarrow> bytes \<Rightarrow> bytes" where
  "build_socks5_udp_packet addr port payload =
     [0x00, 0x00, 0x00]
     @ (case parse_ipv4 addr of
          Some ipv4 \<Rightarrow> 0x01 # v4_octets ipv4
        | None \<Rightarrow>
            (case parse_ipv6 addr of
               Some ipv6 \<Rightarrow> 0x04 # v6_octets ipv6
             | None \<Rightarrow> 0x03 # word_of_nat (length addr) # str_bytes addr))
     @ u16_to_be port @ payload"

text \<open>The response reader, with the rest of the stream.  The buffer is resized to the length of
  the payload.\<close>

definition read_one_udp_response :: "bytes \<Rightarrow> proto_error + ((string \<times> u16 \<times> bytes) \<times> bytes)" where
  "read_one_udp_response bs =
     and_then (read_trojanc_addr_async bs) (\<lambda>((resp_addr, resp_port), bs).
     and_then (read_exact 2 bs) (\<lambda>(len_buf, bs).
     and_then (read_exact (unat (u16_of_be (len_buf ! 0) (len_buf ! 1))) bs) (\<lambda>(buf, bs).
       Inr ((resp_addr, resp_port, buf), bs))))"

section \<open>Lemmas\<close>

text \<open>A host as a packet carries it.\<close>

definition socks_host :: "string \<Rightarrow> string" where
  "socks_host addr = (case parse_ipv6 addr of Some ip \<Rightarrow> v6_str ip | None \<Rightarrow> addr)"

lemma socks_host_v4: "parse_ipv4 addr = Some ip \<Longrightarrow> socks_host addr = v4_str ip"
  using parse_ipv4_canonical [of addr ip] parse_ipv4_no_colon [of addr ip] parse_ipv6_no_colon [of addr]
  by (simp add: socks_host_def)

lemma inbound_read_append [simp, wire]: "length xs = n \<Longrightarrow> inbound_read n (xs @ ys) = Inr (xs, ys)"
  by (simp add: inbound_read_def)

lemma inbound_read_Cons [simp, wire]: "inbound_read (Suc 0) (x # ys) = Inr ([x], ys)"
  by (simp add: inbound_read_def)

lemma inbound_read_Cons2 [simp, wire]: "inbound_read 2 (x # y # ys) = Inr ([x, y], ys)"
  by (simp add: inbound_read_def)

lemma from_utf8_str [simp]: "rust_str s \<Longrightarrow> from_utf8 (str_bytes s) = Some s"
  by (simp add: from_utf8_def rust_str_def)

lemma str_bytes_nth_append [simp]: "take (length s) (str_bytes s @ xs) = str_bytes s"
  by simp

lemma drop_str_bytes [simp]: "drop (length s) (str_bytes s @ xs) = xs" "drop (Suc (length s)) (x # str_bytes s @ xs) = xs"
  by simp_all

lemma drop_domain: "drop (7 + length s) (a # b # c # d # e # str_bytes s @ x # y # p) = p"
  by (simp add: eval_nat_numeral)

lemma unat_len8: "length s \<le> 255 \<Longrightarrow> unat (word_of_nat (length s) :: byte) = length s"
  by (simp add: unat_of_nat)

lemma encodable_socks_host:
  assumes "rust_str host" "encodable_host host"
  shows "encodable_host (socks_host host)" "canonical_host (socks_host host) = canonical_host host"
    "rust_str (socks_host host)" "socks_host host \<noteq> []"
proof -
  have "encodable_host (socks_host host) \<and> canonical_host (socks_host host) = canonical_host host
    \<and> rust_str (socks_host host) \<and> socks_host host \<noteq> []"
  proof (cases "parse_ipv6 host")
    case (Some ip)
    then have "CHR '':'' \<in> set host" using parse_ipv6_no_colon [of host] by auto
    moreover have "rust_str (v6_str ip)" using rust_str_ip_str [of "IpV6 ip"] by simp
    moreover have "v6_str ip \<noteq> []" using colon_in_v6_str [of ip] by (auto simp del: colon_in_v6_str)
    ultimately show ?thesis
      using Some by (simp add: socks_host_def encodable_host_def canonical_host_def contains_char_def parse_ipv6_str)
  next
    case None
    then show ?thesis using assms by (auto simp: socks_host_def encodable_host_def split: if_splits)
  qed
  then show "encodable_host (socks_host host)" "canonical_host (socks_host host) = canonical_host host"
    "rust_str (socks_host host)" "socks_host host \<noteq> []" by blast+
qed

text \<open>The greeting and request of a SOCKS client (RFC 1928) without authentication; the address is
  encoded as in a UDP packet.\<close>

definition socks5_request :: "byte \<Rightarrow> string \<Rightarrow> u16 \<Rightarrow> bytes" where
  "socks5_request cmd host port =
     [0x05, 0x01, 0x00] @ [0x05, cmd, 0x00] @ drop 3 (build_socks5_udp_packet host port [])"

lemma socks5_handshake_request:
  assumes "rust_str host" "length host \<le> 255"
  shows "socks5_handshake (socks5_request cmd host port @ rest) =
    ([0x05, 0x00], Inr ((cmd, socks_host host, port), rest))"
proof -
  have r4: "inbound_read 4 (a # b # c # d # xs) = Inr ([a, b, c, d], xs)" for a b c d xs
    using inbound_read_append [of "[a, b, c, d]" 4 xs] by simp
  have p: "u16_of_be (u16_to_be port ! 0) (u16_to_be port ! 1) = port" by simp
  show ?thesis
  proof (cases "parse_ipv4 host")
    case (Some ip)
    then show ?thesis
      using socks_host_v4 [OF Some] p
      by (cases ip) (simp add: socks5_handshake_def socks5_request_def build_socks5_udp_packet_def socks5_addr_def r4)
  next
    case v4: None
    show ?thesis
      using v4 assms unat_len8 [OF assms(2)] p
      by (cases "parse_ipv6 host")
        (simp_all add: socks5_handshake_def socks5_request_def build_socks5_udp_packet_def socks5_addr_def r4 socks_host_def)
  qed
qed

text \<open>A UDP packet that the association sends to its SOCKS client is one that its own parser reads
  back.\<close>

lemma socks5_udp_roundtrip:
  assumes "rust_str addr" "parse_ipv6 addr = None \<Longrightarrow> length addr \<le> 255"
  shows "parse_socks5_udp_request (build_socks5_udp_packet addr port payload) =
    Some \<lparr>od_addr = socks_host addr, od_port = port, od_payload = payload\<rparr>"
proof (cases "parse_ipv4 addr")
  case (Some ip)
  then show ?thesis
    using socks_host_v4 [OF Some]
    by (cases ip) (simp add: parse_socks5_udp_request_def build_socks5_udp_packet_def Let_def u16_to_be_def u16_be_parts)
next
  case v4: None
  show ?thesis
  proof (cases "parse_ipv6 addr")
    case (Some ip)
    then show ?thesis
      using v4 length_v6_octets [of ip]
      by (simp add: parse_socks5_udp_request_def build_socks5_udp_packet_def Let_def socks_host_def
          u16_to_be_def u16_be_parts nth_append)
  next
    case None
    then show ?thesis
      using v4 assms unat_len8 [OF assms(2) [OF None]]
      by (simp add: drop_domain parse_socks5_udp_request_def build_socks5_udp_packet_def Let_def socks_host_def
          u16_to_be_def u16_be_parts nth_append)
  qed
qed

lemma ip_str_socks: "socks_host (ip_str ip) = ip_str ip" "parse_ipv6 (ip_str ip) = None \<Longrightarrow> length (ip_str ip) \<le> 255"
proof -
  show "socks_host (ip_str ip) = ip_str ip"
    by (cases ip) (use socks_host_v4 in \<open>simp_all add: socks_host_def\<close>)
  show "length (ip_str ip) \<le> 255" if "parse_ipv6 (ip_str ip) = None"
    using that parse_ipv4_length [of "ip_str ip"] by (cases ip) auto
qed

end
