(* ===== verification/Text_Lemmas.thy ===== *)
theory Text_Lemmas
  imports Config
begin

text \<open>
  Lemmas about the text functions of \<open>Rust_Text\<close>: UTF-8 validity of concatenations, trimming and
  splitting at white space, and line endings.
\<close>

section \<open>UTF-8\<close>

lemma utf8_valid_append: "utf8_valid a \<Longrightarrow> utf8_valid (a @ b) = utf8_valid b"
proof (induction a rule: utf8_valid.induct)
  case (1 a)
  show ?case
  proof (cases "a = []")
    case False
    let ?n = "fst (utf8_chunk a)"
    have c: "snd (utf8_chunk a)" "utf8_valid (drop ?n a)"
      using 1(2) False by (auto simp: utf8_valid.simps [of a] split: if_splits)
    have "utf8_valid (take ?n a @ (drop ?n a @ b)) = utf8_valid (drop ?n a @ b)"
      by (rule utf8_valid_append_chunk [OF c(1) False])
    also have "\<dots> = utf8_valid b" using 1(1) False c by blast
    finally show ?thesis by (metis append_assoc append_take_drop_id)
  qed simp
qed

lemma str_bytes_append [simp]: "str_bytes (a @ b) = str_bytes a @ str_bytes b"
  by (simp add: str_bytes_def)

lemma rust_str_append [simp]: "rust_str a \<Longrightarrow> rust_str (a @ b) = rust_str b"
  by (simp add: rust_str_def utf8_valid_append)

section \<open>White space\<close>

lemma white_space_list: "white_space = [[CHR 0x09], [CHR 0x0A], [CHR 0x0B], [CHR 0x0C], [CHR 0x0D], '' '',
   [CHR 0xC2, CHR 0x85], [CHR 0xC2, CHR 0xA0], [CHR 0xE1, CHR 0x9A, CHR 0x80]]
   @ map (\<lambda>c. [CHR 0xE2, CHR 0x80, c]) [CHR 0x80, CHR 0x81, CHR 0x82, CHR 0x83, CHR 0x84, CHR 0x85, CHR 0x86, CHR 0x87,
     CHR 0x88, CHR 0x89, CHR 0x8A, CHR 0xA8, CHR 0xA9, CHR 0xAF]
   @ [[CHR 0xE2, CHR 0x81, CHR 0x9F], [CHR 0xE3, CHR 0x80, CHR 0x80]]"
  by code_simp

text \<open>\<open>ws_eval\<close> decides white space at the front of a string whose first character is known.\<close>

lemmas ws_eval = ws_len_def white_space_list starts_with_def

lemma drop_ws_keeps:
  assumes "\<forall>w \<in> set ws. c \<notin> set w" "c \<in> set s"
  shows "c \<in> set (drop_ws ws s)"
  using assms
proof (induction ws s rule: drop_ws.induct)
  case (1 ws s)
  show ?case
  proof (cases "ws_len ws s = 0 \<or> s = []")
    case False
    then obtain w where w: "find (\<lambda>w. w \<noteq> [] \<and> starts_with w s) ws = Some w" "ws_len ws s = length w"
      by (auto simp: ws_len_def split: option.splits)
    then have "w \<in> set ws" "take (length w) s = w" by (auto simp: find_Some_iff starts_with_def)
    then have "c \<notin> set (take (ws_len ws s) s)" using 1(2) w(2) by simp
    then have "c \<in> set (drop (ws_len ws s) s)" using 1(3) by (metis Un_iff append_take_drop_id set_append)
    then show ?thesis using False 1(1,2) by (simp add: drop_ws.simps [of ws s])
  qed (use 1(3) in \<open>simp add: drop_ws.simps [of ws s]\<close>)
qed

lemma colon_visible: "\<forall>w \<in> set white_space. CHR '':'' \<notin> set w"
  by (simp add: white_space_list)

lemma trim_keeps_colon: "CHR '':'' \<in> set s \<Longrightarrow> CHR '':'' \<in> set (trim s)"
proof -
  assume "CHR '':'' \<in> set s"
  then have "CHR '':'' \<in> set (rev (trim_start s))"
    using drop_ws_keeps [OF colon_visible] by (simp add: trim_start_def)
  moreover have "\<forall>w \<in> set (map rev white_space). CHR '':'' \<notin> set w" using colon_visible by simp
  ultimately show ?thesis using drop_ws_keeps by (simp add: trim_def trim_end_def)
qed

text \<open>A word: non-empty and without white space.\<close>

definition no_ws :: "string \<Rightarrow> bool" where
  "no_ws w = (w \<noteq> [] \<and> (\<forall>i < length w. ws_len white_space (drop i w) = 0))"

lemma white_space_shape: "\<forall>w \<in> set white_space. length w = 1 \<or> (\<forall>c \<in> set w. 128 \<le> (of_char c :: nat))"
  by (simp add: white_space_list of_char_def)

lemma white_space_nonempty: "\<forall>w \<in> set white_space. w \<noteq> []"
  by (simp add: white_space_list)

lemma ws_len_0: "ws_len white_space s = 0 \<longleftrightarrow> (\<forall>w \<in> set white_space. \<not> starts_with w s)"
proof
  show "ws_len white_space s = 0 \<Longrightarrow> \<forall>w \<in> set white_space. \<not> starts_with w s"
    using white_space_nonempty
    by (auto simp: ws_len_def find_None_iff find_Some_iff split: option.splits)
qed (auto simp: ws_len_def find_None_iff find_Some_iff split: option.splits dest: nth_mem)

lemma ws_len_append:
  assumes "ws_len white_space u = 0" "u \<noteq> []" "(of_char c :: nat) < 128"
  shows "ws_len white_space (u @ c # rest) = 0"
  unfolding ws_len_0
proof (intro ballI notI)
  fix w assume w: "w \<in> set white_space" "starts_with w (u @ c # rest)"
  show False
  proof (cases "length w \<le> length u")
    case True
    then have "starts_with w u" using w(2) by (simp add: starts_with_def)
    then show ?thesis using assms(1) w(1) ws_len_0 by blast
  next
    case False
    moreover have "c = w ! length u"
      using False w(2) by (metis linorder_not_le nth_append_length nth_take starts_with_def)
    ultimately have "c \<in> set w" by simp
    moreover have "length w \<noteq> 1" using False assms(2) by (cases u) auto
    ultimately show ?thesis using white_space_shape w(1) assms(3) by fastforce
  qed
qed

lemma split_ws_word:
  assumes "\<forall>i < length u. ws_len white_space (drop i u) = 0" "(of_char c :: nat) < 128"
  shows "split_ws acc (u @ c # rest) = split_ws (rev u @ acc) (c # rest)"
  using assms(1)
proof (induction u arbitrary: acc)
  case (Cons x u)
  have "ws_len white_space ((x # u) @ c # rest) = 0"
    using Cons.prems [rule_format, of 0] assms(2) by (intro ws_len_append) simp_all
  then have "split_ws acc ((x # u) @ c # rest) = split_ws (x # acc) (u @ c # rest)"
    by (simp add: split_ws.simps [of acc])
  also have "\<dots> = split_ws (rev u @ x # acc) (c # rest)"
    using Cons.prems by (intro Cons.IH) (metis Suc_less_eq drop_Suc_Cons length_Cons)
  finally show ?case by simp
qed simp

lemma split_ws_sep:
  assumes "ws_len white_space (c # rest) = 1" "acc \<noteq> []"
  shows "split_ws acc (c # rest) = rev acc # split_ws [] rest"
  using assms by (simp add: split_ws.simps [of acc])

lemma trim_not_blank: "CHR '':'' \<in> set s \<Longrightarrow> trim s \<noteq> []"
  using trim_keeps_colon [of s] by auto

section \<open>Visible text\<close>

definition visible_char :: "char \<Rightarrow> bool" where
  "visible_char c = (33 \<le> (of_char c :: nat) \<and> (of_char c :: nat) \<le> 126)"

definition visible :: "string \<Rightarrow> bool" where
  "visible s = (\<forall>c \<in> set s. visible_char c)"

lemma visible_append [simp]: "visible (a @ b) \<longleftrightarrow> visible a \<and> visible b"
  by (auto simp: visible_def)

lemma visible_Cons: "visible (c # s) \<longleftrightarrow> visible_char c \<and> visible s"
  by (simp add: visible_def)

lemma white_space_invisible: "\<forall>w \<in> set white_space. \<forall>c \<in> set w. \<not> visible_char c"
  by (simp add: white_space_list visible_char_def of_char_def)

lemma drop_ws_visible:
  assumes "\<forall>w \<in> set ws. \<forall>c \<in> set w. \<not> visible_char c" "visible s"
  shows "drop_ws ws s = s"
proof -
  have "\<not> (w \<noteq> [] \<and> starts_with w s)" if "w \<in> set ws" for w
    using assms that by (cases w; cases s) (auto simp: starts_with_def visible_def)
  then have "find (\<lambda>w. w \<noteq> [] \<and> starts_with w s) ws = None" by (simp add: find_None_iff)
  then show ?thesis by (simp add: drop_ws.simps ws_len_def)
qed

lemma trim_visible: "visible s \<Longrightarrow> trim s = s"
  using drop_ws_visible [OF white_space_invisible, of s] drop_ws_visible [of "map rev white_space" "rev s"]
    white_space_invisible
  by (simp add: trim_def trim_start_def trim_end_def visible_def)

lemma visible_dec_str [simp]: "visible (dec_str n)"
  by (auto simp: visible_def visible_char_def dest!: dec_str_digits)

lemma visible_Nil [simp]: "visible []"
  by (simp add: visible_def)

lemma visible_char_bits: "visible_char (Char b0 b1 b2 b3 b4 b5 b6 b7) \<longleftrightarrow>
    33 \<le> (of_char (Char b0 b1 b2 b3 b4 b5 b6 b7) :: nat) \<and> (of_char (Char b0 b1 b2 b3 b4 b5 b6 b7) :: nat) \<le> 126"
  by (simp add: visible_char_def)

lemmas visible_text = visible_Cons visible_char_bits of_char_def

lemma visible_join: "visible sep \<Longrightarrow> \<forall>x \<in> set xs. visible x \<Longrightarrow> visible (join sep xs)"
  by (induction sep xs rule: join.induct) simp_all

section \<open>Splitting at a character\<close>

text \<open>\<open>str::split\<close>: the pieces between the characters, empty ones included.\<close>

fun split_on :: "char \<Rightarrow> string \<Rightarrow> string list" where
  "split_on c [] = [[]]"
| "split_on c (x # s) = (if x = c then [] # split_on c s
     else (case split_on c s of [] \<Rightarrow> [[x]] | w # ws \<Rightarrow> (x # w) # ws))"

lemma split_on_not_Nil [simp]: "split_on c s \<noteq> []"
  by (cases s) (auto split: list.split)

lemma join_split_on: "join [c] (split_on c s) = s"
proof (induction s)
  case (Cons x s)
  obtain w ws where "split_on c s = w # ws" by (cases "split_on c s") simp_all
  then show ?case using Cons by (cases ws) auto
qed simp

lemma split_on_pieces: "w \<in> set (split_on c s) \<Longrightarrow> c \<notin> set w"
proof (induction s arbitrary: w)
  case (Cons x s)
  obtain v vs where "split_on c s = v # vs" by (cases "split_on c s") simp_all
  then show ?case using Cons by (auto split: if_splits)
qed simp

lemma split_on_none: "c \<notin> set s \<Longrightarrow> split_on c s = [s]"
  by (induction s) auto

lemma split_on_append: "c \<notin> set w \<Longrightarrow> split_on c (w @ c # s) = w # split_on c s"
  by (induction w) auto

lemma split_on_join: "ws \<noteq> [] \<Longrightarrow> \<forall>w \<in> set ws. c \<notin> set w \<Longrightarrow> split_on c (join [c] ws) = ws"
  by (induction "[c]" ws rule: join.induct) (simp_all add: split_on_none split_on_append)

lemma split_once_first: "c \<notin> set a \<Longrightarrow> split_once c (a @ c # b) = Some (a, b)"
  by (simp add: split_once_def find_char_append)

lemma split_once_none: "c \<notin> set a \<Longrightarrow> split_once c a = None"
  by (simp add: split_once_def)

end
