(* ===== verification/Local_Http.thy ===== *)
theory Local_Http
  imports Local_Socks Text_Lemmas
begin

text \<open>
  The HTTP side of \<open>client/src/local.rs\<close>: reading a request head, \<open>CONNECT\<close> tunnels, and the
  rewriting of absolute-form requests.

  The inbound connection is a list of bytes as in \<open>Local_Socks\<close>; header lines are strings that
  still have their line ending.
\<close>

section \<open>Reading a request head\<close>

definition MAX_HTTP_LINE_LEN :: nat where "MAX_HTTP_LINE_LEN = 8 * 1024"
definition MAX_HTTP_HEADERS :: nat where "MAX_HTTP_HEADERS = 100"

lemmas http_consts = MAX_HTTP_LINE_LEN_def MAX_HTTP_HEADERS_def

text \<open>\<open>read_line\<close> on \<open>take(n)\<close>: the bytes up to and including the first line feed, at most \<open>n\<close>,
  and the rest of the connection.\<close>

fun read_until_lf :: "nat \<Rightarrow> bytes \<Rightarrow> bytes \<times> bytes" where
  "read_until_lf 0 bs = ([], bs)"
| "read_until_lf (Suc n) [] = ([], [])"
| "read_until_lf (Suc n) (b # bs) =
     (if b = 10 then ([b], bs) else let (line, rest) = read_until_lf n bs in (b # line, rest))"

text \<open>A line whose end is missing is an end of file for the caller's deadline.\<close>

definition read_http_line :: "bool \<Rightarrow> bytes \<Rightarrow> local_error + (string \<times> bytes)" where
  "read_http_line expired bs =
     (let (line_bytes, rest) = read_until_lf (MAX_HTTP_LINE_LEN + 1) bs in
      if expired \<and> rest = [] \<and> length line_bytes \<le> MAX_HTTP_LINE_LEN \<and> (line_bytes = [] \<or> last line_bytes \<noteq> 10)
      then Inl InboundTimeout
      else case from_utf8 line_bytes of
        None \<Rightarrow> Inl LineNotUtf8
      | Some line \<Rightarrow>
          if MAX_HTTP_LINE_LEN < length line then Inl HeaderLineTooLong
          else if line = [] \<or> last line \<noteq> CHR 0x0A then Inl IncompleteHead
          else Inr (line, rest))"

lemma read_until_lf_split: "read_until_lf n bs = (l, r) \<Longrightarrow> bs = l @ r \<and> length l \<le> n"
proof (induction n bs arbitrary: l r rule: read_until_lf.induct)
  case (3 n b bs)
  then show ?case by (auto split: if_splits prod.splits)
qed auto

lemma read_http_line_split:
  assumes "read_http_line expired bs = Inr (line, rest)"
  shows "bs = str_bytes line @ rest" "line \<noteq> []" "last line = CHR 0x0A" "length line \<le> MAX_HTTP_LINE_LEN" "rust_str line"
proof -
  obtain l r where l: "read_until_lf (MAX_HTTP_LINE_LEN + 1) bs = (l, r)" by fastforce
  with assms have f: "from_utf8 l = Some line" and r: "rest = r" "line \<noteq> []" "last line = CHR 0x0A" "length line \<le> MAX_HTTP_LINE_LEN"
    unfolding read_http_line_def by (auto split: if_splits option.splits)
  show "bs = str_bytes line @ rest" "line \<noteq> []" "last line = CHR 0x0A" "length line \<le> MAX_HTTP_LINE_LEN" "rust_str line"
    using read_until_lf_split [OF l] rust_str_from_utf8 [OF f] r by auto
qed

lemma read_http_line_length: "read_http_line expired bs = Inr (line, rest) \<Longrightarrow> length rest < length bs"
  using read_http_line_split(1,2) [of expired bs line rest] by (cases line) auto

text \<open>The loop over the headers; \<open>headers\<close> are those read so far.\<close>

function read_headers :: "bool \<Rightarrow> string list \<Rightarrow> bytes \<Rightarrow> local_error + (string list \<times> bytes)" where
  "read_headers expired headers bs =
     (case read_http_line expired bs of
        Inl e \<Rightarrow> Inl e
      | Inr (line, rest) \<Rightarrow>
          if trim line = [] then Inr (headers, rest)
          else if \<not> length headers < MAX_HTTP_HEADERS then Inl TooManyHeaders
          else read_headers expired (headers @ [line]) rest)"
  by pat_completeness auto
termination
  by (relation "measure (\<lambda>(e, hs, bs). length bs)") (auto dest: read_http_line_length)

declare read_headers.simps [simp del]

definition bad_request :: string where
  "bad_request = ''HTTP/1.1 400 Bad Request'' @ [CHR 0x0D, CHR 0x0A] @ ''Connection: close''
     @ [CHR 0x0D, CHR 0x0A, CHR 0x0D, CHR 0x0A]"

text \<open>What was written to the client, and method, target, version and headers.\<close>

definition read_http_head :: "bool \<Rightarrow> bytes \<Rightarrow>
    bytes \<times> (local_error + ((string \<times> string \<times> string \<times> string list) \<times> bytes))" where
  "read_http_head expired bs =
     (case read_http_line expired bs of
        Inl e \<Rightarrow> ([], Inl e)
      | Inr (request_line, bs) \<Rightarrow>
          (case split_whitespace request_line of
             method # target # version # _ \<Rightarrow>
               ([], and_then (read_headers expired [] bs) (\<lambda>(headers, bs).
                      Inr ((method, target, version, headers), bs)))
           | _ \<Rightarrow> (str_bytes bad_request, Inl (InvalidRequestLine (trim request_line)))))"

section \<open>Targets\<close>

text \<open>\<open>rsplit('@').next()\<close>.\<close>

definition after_last :: "char \<Rightarrow> string \<Rightarrow> string" where
  "after_last c s = (case rsplit_once c s of Some (_, r) \<Rightarrow> r | None \<Rightarrow> s)"

definition host_or_default :: "u16 \<Rightarrow> string \<Rightarrow> string \<times> u16" where
  "host_or_default port authority = (case parse_host_port authority of Inr hp \<Rightarrow> hp | Inl _ \<Rightarrow> (authority, port))"

definition host_header :: "string \<Rightarrow> string option" where
  "host_header header = (case split_once (CHR '':'') header of
     None \<Rightarrow> None
   | Some (name, value) \<Rightarrow> if eq_ignore_case (trim name) ''host'' then Some (trim value) else None)"

definition split_proxy_target :: "string \<Rightarrow> string list \<Rightarrow> (string \<times> u16 \<times> string) option" where
  "split_proxy_target target headers =
     (case strip_prefix ''http://'' target of
        Some rest \<Rightarrow>
          (let (authority, path) =
             (case find_char (CHR ''/'') rest of
                Some idx \<Rightarrow> (take idx rest, drop idx rest)
              | None \<Rightarrow> (rest, ''/''));
             authority = after_last (CHR ''@'') authority
           in if authority = [] then None
              else let (host, port) = host_or_default 80 authority in Some (host, port, path))
      | None \<Rightarrow>
          (case find_map host_header headers of
             None \<Rightarrow> None
           | Some authority \<Rightarrow>
               if authority = [] then None
               else let (host, port) = host_or_default 80 authority in Some (host, port, target)))"

section \<open>The rewritten request\<close>

definition CRLF :: string where "CRLF = [CHR 0x0D, CHR 0x0A]"

definition header_name :: "string \<Rightarrow> string" where
  "header_name header = trim (case split_once (CHR '':'') header of Some (name, _) \<Rightarrow> name | None \<Rightarrow> header)"

definition hop_by_hop :: "string \<Rightarrow> bool" where
  "hop_by_hop name = (eq_ignore_case name ''proxy-connection'' \<or> eq_ignore_case name ''proxy-authorization''
     \<or> eq_ignore_case name ''connection'')"

text \<open>The loop over the headers: what it appends, and whether it met a \<open>Host\<close> header.\<close>

fun copy_headers :: "string list \<Rightarrow> string \<times> bool" where
  "copy_headers [] = ([], False)"
| "copy_headers (header # headers) =
     (let name = header_name header; (request, has_host) = copy_headers headers in
      if hop_by_hop name then (request, has_host)
      else (trim_end_matches [CHR 0x0D, CHR 0x0A] header @ CRLF @ request,
            eq_ignore_case name ''host'' \<or> has_host))"

definition host_line :: "string \<Rightarrow> u16 \<Rightarrow> string" where
  "host_line host port = ''Host: '' @ (if contains_char (CHR '':'') host then ''['' @ host @ '']:'' @ dec_str (unat port)
     else host @ '':'' @ dec_str (unat port)) @ CRLF"

definition build_origin_request :: "string \<Rightarrow> string \<Rightarrow> string \<Rightarrow> string list \<Rightarrow> string \<Rightarrow> u16 \<Rightarrow> string" where
  "build_origin_request method path version headers host port =
     (let (copied, has_host) = copy_headers headers in
      method @ '' '' @ path @ '' '' @ version @ CRLF @ copied
      @ (if has_host then [] else host_line host port) @ ''Connection: close'' @ CRLF @ CRLF)"

section \<open>Handlers\<close>

text \<open>What the server stream gets (its proxy header, then raw bytes), and what the client gets
  before the response.\<close>

record http_relay =
  hr_header :: bytes
  hr_upstream :: bytes
  hr_client :: bytes

definition connection_established :: string where
  "connection_established = ''HTTP/1.1 200 Connection Established'' @ CRLF @ CRLF"

text \<open>\<open>buffered\<close> is how much of the rest of the connection is already in the reader's buffer: it is
  written first, the copy loop continues with what follows.\<close>

definition handle_http_connect :: "client_error + unit \<Rightarrow> nat \<Rightarrow> string \<Rightarrow> bytes \<Rightarrow> local_error + http_relay" where
  "handle_http_connect connected buffered target bs =
     (let (host, port) = host_or_default 443 target;
          leftover = take buffered bs
      in and_then (map_err Upstream (and_then connected (\<lambda>_. open_tcp_stream host port))) (\<lambda>header.
           Inr \<lparr>hr_header = header, hr_upstream = leftover @ drop buffered bs,
                hr_client = str_bytes connection_established\<rparr>))"

definition handle_http_forward :: "client_error + unit \<Rightarrow> string \<Rightarrow> string \<Rightarrow> string \<Rightarrow> string list \<Rightarrow> bytes \<Rightarrow>
    bytes \<times> (local_error + http_relay)" where
  "handle_http_forward connected method target version headers bs =
     (case split_proxy_target target headers of
        None \<Rightarrow> (str_bytes bad_request, Inl (UnsupportedTarget target))
      | Some (host, port, path) \<Rightarrow>
          let request = build_origin_request method path version headers host port in
          ([], and_then (map_err Upstream (and_then connected (\<lambda>_. open_tcp_stream host port))) (\<lambda>header.
             Inr \<lparr>hr_header = header, hr_upstream = str_bytes request @ bs, hr_client = []\<rparr>)))"

definition handle_http_proxy :: "bool \<Rightarrow> client_error + unit \<Rightarrow> nat \<Rightarrow> bytes \<Rightarrow> bytes \<times> (local_error + http_relay)" where
  "handle_http_proxy expired connected buffered bs =
     (case read_http_head expired bs of
        (written, Inl e) \<Rightarrow> (written, Inl e)
      | (written, Inr ((method, target, version, headers), rest)) \<Rightarrow>
          if method = ''CONNECT'' then
            (case handle_http_connect connected buffered target rest of
               Inl e \<Rightarrow> (written, Inl e) | Inr r \<Rightarrow> (written @ hr_client r, Inr r))
          else (let (w, r) = handle_http_forward connected method target version headers rest in (written @ w, r)))"

section \<open>Lines\<close>

text \<open>A header line without its line ending, and with a uniform one.\<close>

definition bare :: "string \<Rightarrow> string" where
  "bare h = trim_end_matches [CHR 0x0D, CHR 0x0A] h"

definition reline :: "string \<Rightarrow> string" where
  "reline h = bare h @ CRLF"

text \<open>What fits on one line.\<close>

definition line_ok :: "string \<Rightarrow> bool" where
  "line_ok l = (rust_str l \<and> CHR 0x0A \<notin> set l \<and> length l + 2 \<le> MAX_HTTP_LINE_LEN)"

lemma rust_str_CRLF [simp]: "rust_str CRLF"
  by (rule rust_str_ascii) (simp add: CRLF_def)

lemma str_bytes_LF: "CHR 0x0A \<notin> set l \<Longrightarrow> 10 \<notin> set (str_bytes l)"
proof
  assume n: "CHR 0x0A \<notin> set l" and "10 \<in> set (str_bytes l)"
  then have "char_of (unat (10 :: byte)) \<in> set (bytes_str (str_bytes l))" by (force simp: bytes_str_def)
  moreover have "char_of (unat (10 :: byte)) = CHR 0x0A" by code_simp
  ultimately show False using n by simp
qed

lemma read_until_lf_line:
  "10 \<notin> set bs \<Longrightarrow> length bs < n \<Longrightarrow> read_until_lf n (bs @ 10 # rest) = (bs @ [10], rest)"
proof (induction bs arbitrary: n)
  case (Cons b bs)
  then show ?case by (cases n) auto
qed (auto simp: Suc_le_eq gr0_conv_Suc)

lemma read_http_line_CRLF:
  assumes "line_ok l"
  shows "read_http_line expired (str_bytes (l @ CRLF) @ rest) = Inr (l @ CRLF, rest)"
proof -
  have crlf: "str_bytes CRLF = [13, 10]" by (simp add: CRLF_def str_bytes_def)
  have "read_until_lf (MAX_HTTP_LINE_LEN + 1) ((str_bytes l @ [13]) @ 10 # rest) = ((str_bytes l @ [13]) @ [10], rest)"
    using assms str_bytes_LF [of l] by (intro read_until_lf_line) (auto simp: line_ok_def)
  moreover have "from_utf8 (str_bytes (l @ CRLF)) = Some (l @ CRLF)"
    using assms by (intro from_utf8_str) (simp add: line_ok_def)
  ultimately show ?thesis
    using assms by (simp add: read_http_line_def crlf line_ok_def) (simp add: CRLF_def)
qed

lemma read_headers_lines:
  assumes "\<forall>l \<in> set ls. line_ok l \<and> trim (l @ CRLF) \<noteq> []" "length hs + length ls \<le> MAX_HTTP_HEADERS"
  shows "read_headers expired hs (str_bytes (concat (map (\<lambda>l. l @ CRLF) ls) @ CRLF) @ body) =
    Inr (hs @ map (\<lambda>l. l @ CRLF) ls, body)"
  using assms
proof (induction ls arbitrary: hs)
  case Nil
  have "line_ok []" by (simp add: line_ok_def http_consts rust_str_ascii)
  moreover have "trim CRLF = []"
    by (simp add: trim_def trim_start_def trim_end_def CRLF_def drop_ws.simps ws_eval)
  ultimately show ?case
    using read_http_line_CRLF [of "[]" expired body] by (simp add: read_headers.simps)
next
  case (Cons l ls)
  let ?rest = "str_bytes (concat (map (\<lambda>l. l @ CRLF) ls) @ CRLF) @ body"
  have "read_http_line expired (str_bytes (l @ CRLF) @ ?rest) = Inr (l @ CRLF, ?rest)"
    using Cons.prems by (intro read_http_line_CRLF) simp
  moreover have "read_headers expired (hs @ [l @ CRLF]) ?rest = Inr ((hs @ [l @ CRLF]) @ map (\<lambda>l. l @ CRLF) ls, body)"
    using Cons.prems by (intro Cons.IH) simp_all
  ultimately show ?case
    using Cons.prems by (subst read_headers.simps) simp
qed

lemma split_request_line:
  assumes "no_ws m" "no_ws p" "no_ws v"
  shows "split_whitespace (m @ '' '' @ p @ '' '' @ v @ CRLF) = [m, p, v]"
proof -
  have ws: "ws_len white_space (CHR '' '' # s) = 1" "ws_len white_space (CHR 0x0D # s) = 1"
    "ws_len white_space (CHR 0x0A # s) = 1" for s by (simp_all add: ws_eval)
  have fin: "split_ws [] [CHR 0x0A] = []" by (simp add: split_ws.simps ws)
  have step: "split_ws [] (w @ c # rest) = w # split_ws [] rest"
    if "no_ws w" "ws_len white_space (c # rest) = 1" "(of_char c :: nat) < 128" for w c rest
    using that split_ws_word [of w c "[]" rest] split_ws_sep [of c rest "rev w"] by (simp add: no_ws_def)
  show ?thesis
    using step [OF assms(1), of "CHR '' ''"] step [OF assms(2), of "CHR '' ''"] step [OF assms(3), of "CHR 0x0D"] ws fin
    by (simp add: split_whitespace_def CRLF_def)
qed

section \<open>The rewritten headers\<close>

definition kept :: "string \<Rightarrow> bool" where
  "kept h = (\<not> hop_by_hop (header_name h))"

definition is_host :: "string \<Rightarrow> bool" where
  "is_host h = eq_ignore_case (header_name h) ''host''"

lemma copy_headers_eq:
  "copy_headers hs = (concat (map reline (filter kept hs)), \<exists>h \<in> set (filter kept hs). is_host h)"
  by (induction hs) (auto simp: Let_def kept_def is_host_def reline_def bare_def)

lemma bare_split: "\<exists>t. h = bare h @ t \<and> set t \<subseteq> {CHR 0x0D, CHR 0x0A}"
proof -
  let ?P = "\<lambda>c. c \<in> set [CHR 0x0D, CHR 0x0A]"
  have "rev h = takeWhile ?P (rev h) @ dropWhile ?P (rev h)" by simp
  then have "h = bare h @ rev (takeWhile ?P (rev h))"
    unfolding bare_def trim_end_matches_def by (metis rev_append rev_rev_ident)
  moreover have "set (takeWhile ?P (rev h)) \<subseteq> {CHR 0x0D, CHR 0x0A}" by (auto dest: set_takeWhileD)
  ultimately show ?thesis by (metis set_rev)
qed

lemma colon_bare: "CHR '':'' \<in> set h \<Longrightarrow> CHR '':'' \<in> set (bare h)"
proof -
  obtain t where t: "h = bare h @ t" "set t \<subseteq> {CHR 0x0D, CHR 0x0A}" using bare_split by blast
  assume "CHR '':'' \<in> set h"
  then have "CHR '':'' \<in> set (bare h) \<or> CHR '':'' \<in> set t" using t(1) by (metis Un_iff set_append)
  then show ?thesis using t(2) by auto
qed

lemma split_once_prefix: "c \<in> set a \<Longrightarrow> map_option fst (split_once c (a @ b)) = map_option fst (split_once c a)"
proof -
  assume c: "c \<in> set a"
  have f: "find_char c (a @ b) = find_char c a" using c by (induction a) auto
  obtain i where i: "find_char c a = Some i" using c find_char_None [of c a] by fastforce
  then show ?thesis using f find_char_Some [OF i] by (simp add: split_once_def)
qed

lemma header_name_fst: "header_name h = trim (case map_option fst (split_once (CHR '':'') h) of Some n \<Rightarrow> n | None \<Rightarrow> h)"
  by (auto simp: header_name_def split: option.splits)

lemma header_name_reline:
  assumes "CHR '':'' \<in> set h"
  shows "header_name (reline h) = header_name h"
proof -
  obtain t where t: "h = bare h @ t" using bare_split by blast
  note c = colon_bare [OF assms]
  have "map_option fst (split_once (CHR '':'') (reline h)) = map_option fst (split_once (CHR '':'') h)"
    using split_once_prefix [OF c, of CRLF] split_once_prefix [OF c, of t] t unfolding reline_def by simp
  moreover have "split_once (CHR '':'') h \<noteq> None" using assms by (simp add: split_once_def)
  ultimately show ?thesis by (auto simp: header_name_fst)
qed

lemma kept_reline: "CHR '':'' \<in> set h \<Longrightarrow> kept (reline h) = kept h" "CHR '':'' \<in> set h \<Longrightarrow> is_host (reline h) = is_host h"
  by (simp_all add: kept_def is_host_def header_name_reline)

definition close_line :: string where "close_line = ''Connection: close'' @ CRLF"

text \<open>The headers of the rewritten request, with their line endings.\<close>

definition origin_headers :: "string list \<Rightarrow> string \<Rightarrow> u16 \<Rightarrow> string list" where
  "origin_headers headers host port =
     map reline (filter kept headers)
     @ (if \<exists>h \<in> set (filter kept headers). is_host h then [] else [host_line host port]) @ [close_line]"

lemma build_origin_request_eq:
  "build_origin_request m p v headers host port =
     (m @ '' '' @ p @ '' '' @ v @ CRLF) @ concat (origin_headers headers host port) @ CRLF"
  by (auto simp: build_origin_request_def copy_headers_eq origin_headers_def close_line_def)

lemma ascii_dec_str: "c \<in> set (dec_str n) \<Longrightarrow> (of_char c :: nat) < 128"
  using dec_str_digits [of c n] by simp

lemma rust_str_dec_str [simp]: "rust_str (dec_str n)"
  using ascii_dec_str by (intro rust_str_ascii) blast

definition host_text :: "string \<Rightarrow> u16 \<Rightarrow> string" where
  "host_text host port = ''Host: '' @ (if contains_char (CHR '':'') host then ''['' @ host @ '']:'' @ dec_str (unat port)
     else host @ '':'' @ dec_str (unat port))"

lemma host_line_text: "host_line host port = host_text host port @ CRLF"
  by (simp add: host_line_def host_text_def)

lemma host_text_ok:
  assumes "rust_str host" "CHR 0x0A \<notin> set host" "length host \<le> 8000"
  shows "line_ok (host_text host port)"
proof -
  have "rust_str ''Host: ''" "rust_str ''[''" "rust_str '']:''" "rust_str '':''" by (auto intro!: rust_str_ascii)
  moreover have "CHR 0x0A \<notin> set (dec_str (unat port))" using dec_str_digits [of "CHR 0x0A" "unat port"] by auto
  moreover have "length (dec_str (unat port)) \<le> 5"
    using length_radix_str [of 10 "unat port" 4] unsigned_less [of port, where 'a = nat] by (simp add: dec_str_def)
  ultimately show ?thesis
    using assms rust_str_append [of "''Host: ''"] rust_str_append [of "''[''"] rust_str_append [of "'']:''"] rust_str_append [of "'':''"]
      rust_str_append [OF assms(1)]
    by (simp add: line_ok_def host_text_def http_consts)
qed

lemma reline_CRLF: "map reline hs = map (\<lambda>l. l @ CRLF) (map bare hs)"
  by (simp add: reline_def)

lemma name_close: "header_name close_line = ''Connection''"
  by (simp add: header_name_def close_line_def split_once_def trim_def trim_start_def trim_end_def drop_ws.simps ws_eval)

lemma name_host: "header_name (host_line host port) = ''Host''"
  by (simp add: header_name_def host_line_def split_once_def trim_def trim_start_def trim_end_def drop_ws.simps ws_eval)

lemma host_line_kept: "kept (host_line host port) \<and> is_host (host_line host port)"
proof -
  have "eq_ignore_case ''Host'' ''host''" "\<not> hop_by_hop ''Host''" by code_simp+
  then show ?thesis by (simp add: kept_def is_host_def name_host)
qed

text \<open>Every line of the rewritten head can be read back.\<close>

definition header_ok :: "string \<Rightarrow> bool" where
  "header_ok h = (line_ok (bare h) \<and> CHR '':'' \<in> set h)"

lemma origin_headers_lines:
  assumes "\<forall>h \<in> set headers. header_ok h" "rust_str host" "CHR 0x0A \<notin> set host" "length host \<le> 8000"
  shows "\<exists>ls. origin_headers headers host port = map (\<lambda>l. l @ CRLF) ls \<and> length ls \<le> length headers + 2
    \<and> (\<forall>l \<in> set ls. line_ok l \<and> trim (l @ CRLF) \<noteq> [])"
proof (intro exI conjI ballI)
  let ?ls = "map bare (filter kept headers)
     @ (if \<exists>h \<in> set (filter kept headers). is_host h then [] else [host_text host port]) @ [''Connection: close'']"
  show "origin_headers headers host port = map (\<lambda>l. l @ CRLF) ?ls"
    by (auto simp: origin_headers_def reline_def host_line_text close_line_def)
  have "length ?ls \<le> length (filter kept headers) + 2" by (cases "\<exists>h \<in> set (filter kept headers). is_host h") simp_all
  then show "length ?ls \<le> length headers + 2" using length_filter_le [of kept headers] by linarith
  fix l assume l: "l \<in> set ?ls"
  have "line_ok ''Connection: close''" by (simp add: line_ok_def http_consts rust_str_ascii)
  moreover have "CHR '':'' \<in> set (host_text host port)" by (simp add: host_text_def)
  ultimately have "line_ok l \<and> CHR '':'' \<in> set l"
    using l assms(1) host_text_ok [OF assms(2-4), of port] colon_bare by (auto simp: header_ok_def split: if_splits)
  then show "line_ok l" "trim (l @ CRLF) \<noteq> []" using trim_not_blank [of "l @ CRLF"] by simp_all
qed

lemma read_http_head_lines:
  assumes "no_ws m" "no_ws p" "no_ws v" "line_ok (m @ '' '' @ p @ '' '' @ v)"
    and "\<forall>l \<in> set ls. line_ok l \<and> trim (l @ CRLF) \<noteq> []" "length ls \<le> MAX_HTTP_HEADERS"
  shows "read_http_head expired
      (str_bytes ((m @ '' '' @ p @ '' '' @ v @ CRLF) @ concat (map (\<lambda>l. l @ CRLF) ls) @ CRLF) @ body) =
    ([], Inr ((m, p, v, map (\<lambda>l. l @ CRLF) ls), body))"
proof -
  let ?line = "(m @ '' '' @ p @ '' '' @ v) @ CRLF"
  let ?rest = "str_bytes (concat (map (\<lambda>l. l @ CRLF) ls) @ CRLF) @ body"
  have "read_http_line expired (str_bytes ?line @ ?rest) = Inr (?line, ?rest)"
    by (rule read_http_line_CRLF [OF assms(4)])
  moreover have "split_whitespace ?line = [m, p, v]"
    using split_request_line [OF assms(1-3)] by simp
  moreover have "read_headers expired [] ?rest = Inr (map (\<lambda>l. l @ CRLF) ls, body)"
    using read_headers_lines [OF assms(5), of "[]" expired body] assms(6) by simp
  ultimately show ?thesis by (simp add: read_http_head_def str_bytes_def)
qed

lemma get_words: "no_ws ''GET''" "no_ws ''/x''" "no_ws ''HTTP/1.1''"
  by (auto simp: no_ws_def ws_eval less_Suc_eq)

section \<open>Properties\<close>



lemma read_headers_bounds:
  assumes "read_headers expired hs bs = Inr (headers, rest)" "length hs \<le> MAX_HTTP_HEADERS"
    and "\<forall>h \<in> set hs. length h \<le> MAX_HTTP_LINE_LEN"
  shows "length headers \<le> MAX_HTTP_HEADERS \<and> (\<forall>h \<in> set headers. length h \<le> MAX_HTTP_LINE_LEN)
    \<and> (\<exists>used. bs = used @ rest \<and> length used \<le> MAX_HTTP_LINE_LEN * (length headers - length hs + 1))
    \<and> length hs \<le> length headers"
  using assms
proof (induction expired hs bs rule: read_headers.induct)
  case (1 expired hs bs)
  obtain line r where l: "read_http_line expired bs = Inr (line, r)"
    using 1(2) by (subst (asm) read_headers.simps) (auto split: sum.splits)
  note line = read_http_line_split [OF l]
  show ?case
  proof (cases "trim line = []")
    case True
    then have "headers = hs" "rest = r" using 1(2) l by (auto simp: read_headers.simps [of expired hs])
    then show ?thesis using 1(3,4) line by (auto intro!: exI [of _ "str_bytes line"])
  next
    case False
    then have room: "length hs < MAX_HTTP_HEADERS" and rec: "read_headers expired (hs @ [line]) r = Inr (headers, rest)"
      using 1(2) l by (auto simp: read_headers.simps [of expired hs] split: if_splits)
    have IH: "length headers \<le> MAX_HTTP_HEADERS \<and> (\<forall>h \<in> set headers. length h \<le> MAX_HTTP_LINE_LEN)
        \<and> (\<exists>used. r = used @ rest \<and> length used \<le> MAX_HTTP_LINE_LEN * (length headers - length (hs @ [line]) + 1))
        \<and> length (hs @ [line]) \<le> length headers"
      using 1(4) room line by (intro 1(1) [OF l refl False _ rec]) auto
    then obtain used where used: "r = used @ rest"
      "length used \<le> MAX_HTTP_LINE_LEN * (length headers - length (hs @ [line]) + 1)" by blast
    have "length (hs @ [line]) \<le> length headers" using IH by blast
    then have "length headers - length hs + 1 = Suc (length headers - length (hs @ [line]) + 1)" by simp
    then have "length (str_bytes line @ used) \<le> MAX_HTTP_LINE_LEN * (length headers - length hs + 1)"
      using used(2) line(4) by (simp only: mult_Suc_right length_append length_str_bytes)
    then show ?thesis using IH used(1) line(1) by (auto intro!: exI [of _ "str_bytes line @ used"])
  qed
qed

text \<open>Reading a request head always ends and uses bounded memory: whatever arrives, an
  accepted head has at most 100 headers of at most 8192 bytes, took at most 102 lines off the
  connection, and leaves the rest of the connection, the body or the tunnelled data, complete.\<close>

lemma http_head_bounded:
  assumes "read_http_head expired bs = (written, Inr ((method, target, version, headers), rest))"
  shows "length headers \<le> 100 \<and> (\<forall>h \<in> set headers. length h \<le> 8192) \<and> written = []
    \<and> (\<exists>used. bs = used @ rest \<and> length used \<le> 102 * 8192)"
proof -
  obtain line r where l: "read_http_line expired bs = Inr (line, r)" and w: "written = []"
    and h: "read_headers expired [] r = Inr (headers, rest)"
    using assms by (auto simp: read_http_head_def and_then_eq_Inr split: sum.splits list.splits)
  obtain used where used: "r = used @ rest" "length used \<le> MAX_HTTP_LINE_LEN * (length headers + 1)"
    and b: "length headers \<le> MAX_HTTP_HEADERS" "\<forall>h \<in> set headers. length h \<le> MAX_HTTP_LINE_LEN"
    using read_headers_bounds [OF h] by auto
  have "length used \<le> MAX_HTTP_LINE_LEN * 101"
    using used(2) b(1) mult_le_mono2 [of "length headers + 1" 101 MAX_HTTP_LINE_LEN] by (simp add: http_consts)
  then have "length (str_bytes line @ used) \<le> 102 * 8192"
    using read_http_line_split(4) [OF l] by (simp add: http_consts)
  then show ?thesis
    using b w used(1) read_http_line_split(1) [OF l]
    by (auto simp: http_consts intro!: exI [of _ "str_bytes line @ used"])
qed

lemma http_head_bounded_witness:
  "\<exists>bs used. read_http_head False bs = ([], Inr ((''GET'', ''/x'', ''HTTP/1.1'', []), [7]))
     \<and> bs = used @ [7] \<and> length used \<le> 102 * 8192"
proof -
  obtain bs where "read_http_head False bs = ([], Inr ((''GET'', ''/x'', ''HTTP/1.1'', []), [7]))"
    using read_http_head_lines [OF get_words, of "[]" False "[7]"] by (auto simp: line_ok_def http_consts rust_str_ascii)
  with http_head_bounded [OF this] show ?thesis by blast
qed

text \<open>An absolute-form request to an IPv6 literal without a port never reaches its target:
  the brackets stay in the host name, and opening the stream fails for it.\<close>

lemma http_ipv6_without_port:
  "split_proxy_target (''http://['' @ v6_str ip @ '']'' @ ''/'' @ path) headers =
     Some (''['' @ v6_str ip @ '']'', 80, ''/'' @ path)
   \<and> (\<exists>e. open_tcp_stream (''['' @ v6_str ip @ '']'') 80 = Inl e)"
proof
  let ?auth = "''['' @ v6_str ip @ '']''"
  note nb = v6_str_no_bracket [of ip]
  have slash: "find_char (CHR ''/'') (?auth @ CHR ''/'' # path) = Some (length ?auth)"
    using nb(3) by (intro find_char_append) simp
  have bracket: "find_char (CHR '']'') ((CHR ''['' # v6_str ip) @ CHR '']'' # []) = Some (length (CHR ''['' # v6_str ip))"
    using nb(2) by (intro find_char_append) simp
  have "host_or_default 80 ?auth = (?auth, 80)"
    using bracket by (simp add: host_or_default_def parse_host_port_def)
  moreover have "after_last (CHR ''@'') ?auth = ?auth"
  proof -
    have "rfind_char (CHR ''@'') ?auth = None" using nb(4) by (subst rfind_char_None) simp
    then show ?thesis by (simp add: after_last_def rsplit_once_def del: rfind_char_None)
  qed
  moreover have "strip_prefix ''http://'' (''http://['' @ v6_str ip @ '']'' @ ''/'' @ path) = Some (?auth @ CHR ''/'' # path)"
    by (simp add: strip_prefix_def starts_with_def)
  ultimately show "split_proxy_target (''http://['' @ v6_str ip @ '']'' @ ''/'' @ path) headers =
     Some (''['' @ v6_str ip @ '']'', 80, ''/'' @ path)"
    using slash by (simp add: split_proxy_target_def)
  show "\<exists>e. open_tcp_stream ?auth 80 = Inl e"
    using parse_ipv6_bracket [of "v6_str ip @ '']''"]
    by (simp add: open_tcp_stream_def build_proxy_header_def contains_char_def wire_consts Let_def)
qed

end
