(* ===== verification/Udp_Sessions.thy ===== *)
theory Udp_Sessions
  imports Local_Socks "HOL-Library.Sublist"
begin

text \<open>
  The table of UDP sessions that \<open>client/src/forwarder.rs\<close> (\<open>start_udp_forward\<close>,
  \<open>spawn_udp_forward_session\<close>) and the UDP association of \<open>client/src/local.rs\<close> share, as a step
  relation: the receive loop, the tasks that open a stream, the writers, the supervisors and the
  cleanup task interleave freely.

  A session is identified by its number, which also names its channel and its stream.  \<open>se_queue\<close>
  is the content of the channel, \<open>se_stream\<close> what the writer has handed to the QUIC stream (the
  first datagram by \<open>open_udp_stream\<close>), and \<open>se_open\<close> tells whether the receiving end of the
  channel still exists.  \<open>received\<close> is the history of admitted datagrams.  The type of
  datagrams is a parameter.

  The map of sessions is locked per access only: between comparing the number of an entry and
  removing it, other tasks may run.  The receive loop therefore has a program counter, and
  \<open>ut_removing\<close> lists the supervisors that have compared and not yet removed.
\<close>

record 'd usession =
  se_src :: socket_addr
  se_queue :: "'d list"
  se_stream :: "'d list"
  se_open :: bool

datatype 'd open_phase = Dialling 'd | Finishing

datatype 'd loop_pc = LoopIdle | LoopClosed socket_addr nat 'd | LoopRemove socket_addr 'd | LoopSpawn socket_addr 'd

record 'd utable =
  ut_sessions :: "(socket_addr, nat \<times> nat) hashmap"
  ut_opening :: "socket_addr list"
  ut_seq :: nat
  ut_tasks :: "(nat, socket_addr \<times> 'd open_phase) hashmap"
  ut_streams :: "(nat, 'd usession) hashmap"
  ut_loop :: "'d loop_pc"
  ut_removing :: "nat list"
  received :: "(socket_addr \<times> 'd) list"

definition utable_new :: "'d utable" where
  "utable_new = \<lparr>ut_sessions = [], ut_opening = [], ut_seq = 1, ut_tasks = [], ut_streams = [],
     ut_loop = LoopIdle, ut_removing = [], received = []\<rparr>"

text \<open>The capacity of a session's channel.\<close>

definition SESSION_QUEUE :: nat where "SESSION_QUEUE = 256"

section \<open>Operations\<close>

text \<open>\<open>remove_session_if_match\<close> is two accesses: the comparison and the removal.\<close>

definition session_matches :: "socket_addr \<Rightarrow> nat \<Rightarrow> 'd utable \<Rightarrow> bool" where
  "session_matches src sid s = (case hm_get (ut_sessions s) src of Some (existing, _) \<Rightarrow> existing = sid | None \<Rightarrow> False)"

definition remove_entry :: "socket_addr \<Rightarrow> 'd utable \<Rightarrow> 'd utable" where
  "remove_entry src s = s\<lparr>ut_sessions := hm_remove src (ut_sessions s)\<rparr>"

text \<open>The synchronous part of spawning: nothing when the source is being opened already.\<close>

definition spawn_session :: "socket_addr \<Rightarrow> 'd \<Rightarrow> 'd utable \<Rightarrow> 'd utable" where
  "spawn_session src d s =
     (if src \<in> set (ut_opening s) then s
      else s\<lparr>ut_opening := src # ut_opening s, ut_seq := Suc (ut_seq s),
             ut_tasks := hm_insert (ut_seq s) (src, Dialling d) (ut_tasks s)\<rparr>)"

text \<open>\<open>touch\<close>.\<close>

definition touch :: "nat \<Rightarrow> socket_addr \<Rightarrow> nat \<Rightarrow> 'd utable \<Rightarrow> 'd utable" where
  "touch now src sid s = s\<lparr>ut_sessions := hm_insert src (sid, now) (ut_sessions s)\<rparr>"

datatype try_send_result = SendOk | SendFull | SendClosed

definition try_send_session :: "nat \<Rightarrow> 'd \<Rightarrow> 'd utable \<Rightarrow> 'd utable \<times> try_send_result" where
  "try_send_session sid d s =
     (case hm_get (ut_streams s) sid of
        None \<Rightarrow> (s, SendClosed)
      | Some c \<Rightarrow>
          if \<not> se_open c then (s, SendClosed)
          else if SESSION_QUEUE \<le> length (se_queue c) then (s, SendFull)
          else (s\<lparr>ut_streams := hm_insert sid (c\<lparr>se_queue := se_queue c @ [d]\<rparr>) (ut_streams s)\<rparr>, SendOk))"

text \<open>One turn of the receive loop, up to the release of the entry.\<close>

definition session_receive :: "nat \<Rightarrow> socket_addr \<Rightarrow> 'd \<Rightarrow> 'd utable \<Rightarrow> 'd utable" where
  "session_receive now src d s =
     (case hm_get (ut_sessions s) src of
        Some (sid, _) \<Rightarrow>
          (case try_send_session sid d (touch now src sid s) of
             (s', SendOk) \<Rightarrow> s'
           | (s', SendFull) \<Rightarrow> s'
           | (s', SendClosed) \<Rightarrow> s'\<lparr>ut_loop := LoopClosed src sid d\<rparr>)
      | None \<Rightarrow> s\<lparr>ut_loop := LoopSpawn src d\<rparr>)"

text \<open>The rest of the turn, one access at a time.\<close>

definition loop_turn :: "'d utable \<Rightarrow> 'd utable" where
  "loop_turn s =
     (case ut_loop s of
        LoopIdle \<Rightarrow> s
      | LoopClosed src sid d \<Rightarrow> s\<lparr>ut_loop := (if session_matches src sid s then LoopRemove src d else LoopSpawn src d)\<rparr>
      | LoopRemove src d \<Rightarrow> (remove_entry src s)\<lparr>ut_loop := LoopSpawn src d\<rparr>
      | LoopSpawn src d \<Rightarrow> (spawn_session src d s)\<lparr>ut_loop := LoopIdle\<rparr>)"

text \<open>\<open>open_udp_stream\<close> has returned.\<close>

definition session_opened :: "nat \<Rightarrow> nat \<Rightarrow> socket_addr \<Rightarrow> 'd \<Rightarrow> 'd utable \<Rightarrow> 'd utable" where
  "session_opened now sid src d s =
     s\<lparr>ut_sessions := hm_insert src (sid, now) (ut_sessions s),
       ut_streams := hm_insert sid \<lparr>se_src = src, se_queue = [], se_stream = [d], se_open = True\<rparr> (ut_streams s),
       ut_tasks := hm_insert sid (src, Finishing) (ut_tasks s)\<rparr>"

text \<open>\<open>OpeningGuard::drop\<close> at the end of the opening task.\<close>

definition opening_done :: "nat \<Rightarrow> socket_addr \<Rightarrow> 'd utable \<Rightarrow> 'd utable" where
  "opening_done sid src s =
     s\<lparr>ut_opening := removeAll src (ut_opening s), ut_tasks := hm_remove sid (ut_tasks s)\<rparr>"

text \<open>The writer takes a datagram off its channel and sends it.\<close>

definition writer_turn :: "nat \<Rightarrow> 'd usession \<Rightarrow> 'd utable \<Rightarrow> 'd utable" where
  "writer_turn sid c s =
     (case se_queue c of
        [] \<Rightarrow> s
      | d # ds \<Rightarrow> s\<lparr>ut_streams := hm_insert sid (c\<lparr>se_queue := ds, se_stream := se_stream c @ [d]\<rparr>) (ut_streams s)\<rparr>)"

definition writer_ended :: "nat \<Rightarrow> 'd usession \<Rightarrow> 'd utable \<Rightarrow> 'd utable" where
  "writer_ended sid c s = s\<lparr>ut_streams := hm_insert sid (c\<lparr>se_open := False\<rparr>) (ut_streams s)\<rparr>"

definition session_is_closed :: "'d utable \<Rightarrow> nat \<Rightarrow> bool" where
  "session_is_closed s sid = (case hm_get (ut_streams s) sid of Some c \<Rightarrow> \<not> se_open c | None \<Rightarrow> True)"

definition session_cleanup :: "nat \<Rightarrow> 'd utable \<Rightarrow> 'd utable" where
  "session_cleanup now s = s\<lparr>ut_sessions :=
     hm_retain (\<lambda>_ (sid, last_used). \<not> session_is_closed s sid \<and> now - last_used \<le> client_udp_session_idle_timeout)
       (ut_sessions s)\<rparr>"

section \<open>Interleaving\<close>

text \<open>\<open>admit\<close> turns what the socket delivers into a datagram or drops it; \<open>clears\<close> allows the receive
  loop to end by clearing the table.\<close>

inductive sstep :: "(socket_addr \<Rightarrow> bytes \<Rightarrow> 'd option) \<Rightarrow> bool \<Rightarrow> 'd utable \<Rightarrow> 'd utable \<Rightarrow> bool"
  for admit clears where
  Receive: "ut_loop s = LoopIdle \<Longrightarrow> admit src packet = Some d \<Longrightarrow>
    sstep admit clears s (session_receive now src d (s\<lparr>received := received s @ [(src, d)]\<rparr>))"
| Loop: "sstep admit clears s (loop_turn s)"
| Opened: "hm_get (ut_tasks s) sid = Some (src, Dialling d) \<Longrightarrow>
    sstep admit clears s (session_opened now sid src d s)"
| Open_failed: "hm_get (ut_tasks s) sid = Some (src, Dialling d) \<Longrightarrow>
    sstep admit clears s (opening_done sid src s)"
| Opening_done: "hm_get (ut_tasks s) sid = Some (src, Finishing) \<Longrightarrow>
    sstep admit clears s (opening_done sid src s)"
| Write: "hm_get (ut_streams s) sid = Some c \<Longrightarrow> se_open c \<Longrightarrow> sstep admit clears s (writer_turn sid c s)"
| End_session: "hm_get (ut_streams s) sid = Some c \<Longrightarrow> sstep admit clears s (writer_ended sid c s)"
| Supervise: "hm_get (ut_streams s) sid = Some c \<Longrightarrow> \<not> se_open c \<Longrightarrow> session_matches (se_src c) sid s \<Longrightarrow>
    sstep admit clears s (s\<lparr>ut_removing := sid # ut_removing s\<rparr>)"
| Remove: "sid \<in> set (ut_removing s) \<Longrightarrow> hm_get (ut_streams s) sid = Some c \<Longrightarrow>
    sstep admit clears s ((remove_entry (se_src c) s)\<lparr>ut_removing := remove1 sid (ut_removing s)\<rparr>)"
| Cleanup: "sstep admit clears s (session_cleanup now s)"
| Clear: "clears \<Longrightarrow> ut_loop s = LoopIdle \<Longrightarrow> sstep admit clears s (s\<lparr>ut_sessions := []\<rparr>)"

section \<open>Invariant\<close>

definition from_src :: "socket_addr \<Rightarrow> (socket_addr \<times> 'd) list \<Rightarrow> 'd list" where
  "from_src src r = map snd (filter (\<lambda>x. fst x = src) r)"

lemma from_src_append [simp]: "from_src a (r @ [(b, d)]) = from_src a r @ (if b = a then [d] else [])"
  by (simp add: from_src_def)

lemma subseq_from_src: "subseq xs (from_src a r) \<Longrightarrow> subseq xs (from_src a (r @ [(b, d)]))"
  by (simp add: list_emb_prefix)

text \<open>The tasks that are opening a stream for a source.\<close>

definition openers :: "'d utable \<Rightarrow> socket_addr \<Rightarrow> nat set" where
  "openers s src = {i. \<exists>ph. hm_get (ut_tasks s) i = Some (src, ph)}"

definition stream_inv :: "'d utable \<Rightarrow> 'd usession \<Rightarrow> bool" where
  "stream_inv s c = (length (se_queue c) \<le> SESSION_QUEUE
     \<and> subseq (se_stream c @ se_queue c) (from_src (se_src c) (received s)))"

definition ids_inv :: "'d utable \<Rightarrow> bool" where
  "ids_inv s = (hm_wf (ut_sessions s)
     \<and> (\<forall>i. ut_seq s \<le> i \<longrightarrow> hm_get (ut_tasks s) i = None \<and> hm_get (ut_streams s) i = None)
     \<and> (\<forall>src i t. hm_get (ut_sessions s) src = Some (i, t) \<longrightarrow> (\<exists>c. hm_get (ut_streams s) i = Some c \<and> se_src c = src)))"

definition tasks_inv :: "'d utable \<Rightarrow> bool" where
  "tasks_inv s = (\<forall>i src d. hm_get (ut_tasks s) i = Some (src, Dialling d) \<longrightarrow>
     subseq [d] (from_src src (received s)) \<and> hm_get (ut_streams s) i = None)"

fun loop_datum :: "'d loop_pc \<Rightarrow> (socket_addr \<times> 'd) option" where
  "loop_datum LoopIdle = None"
| "loop_datum (LoopClosed src sid d) = Some (src, d)"
| "loop_datum (LoopRemove src d) = Some (src, d)"
| "loop_datum (LoopSpawn src d) = Some (src, d)"

definition loop_inv :: "'d utable \<Rightarrow> bool" where
  "loop_inv s = (\<forall>src d. loop_datum (ut_loop s) = Some (src, d) \<longrightarrow> subseq [d] (from_src src (received s)))"

definition sess_inv :: "'d utable \<Rightarrow> bool" where
  "sess_inv s = (ids_inv s \<and> tasks_inv s \<and> loop_inv s \<and> flight_ok (set (ut_opening s)) (openers s)
     \<and> (\<forall>i c. hm_get (ut_streams s) i = Some c \<longrightarrow> stream_inv s c))"

lemmas sess_defs = sess_inv_def ids_inv_def tasks_inv_def loop_inv_def

lemma openers_cong: "ut_tasks s' = ut_tasks s \<Longrightarrow> openers s' = openers s"
  by (simp add: openers_def fun_eq_iff)

lemma loop_inv_cong: "ut_loop s' = ut_loop s \<Longrightarrow> received s' = received s \<Longrightarrow> loop_inv s' = loop_inv s"
  by (simp add: loop_inv_def)

lemma received_inv:
  assumes "sess_inv s"
  shows "sess_inv (s\<lparr>received := received s @ [(b, d)]\<rparr>)"
proof -
  have "openers (s\<lparr>received := received s @ [(b, d)]\<rparr>) = openers s" by (rule openers_cong) simp
  then show ?thesis
    using assms unfolding sess_defs stream_inv_def by (auto simp del: from_src_append intro: subseq_from_src)
qed

lemma sessions_inv:
  assumes "sess_inv s" "hm_wf m"
    and "\<And>src i t. hm_get m src = Some (i, t) \<Longrightarrow> \<exists>t'. hm_get (ut_sessions s) src = Some (i, t')"
  shows "sess_inv (s\<lparr>ut_sessions := m\<rparr>)"
proof -
  have "openers (s\<lparr>ut_sessions := m\<rparr>) = openers s" by (rule openers_cong) simp
  moreover have "\<exists>c. hm_get (ut_streams s) i = Some c \<and> se_src c = src" if "hm_get m src = Some (i, t)" for src i t
    using assms(1) assms(3) [OF that] unfolding sess_inv_def ids_inv_def by blast
  ultimately show ?thesis
    using assms(1,2) unfolding sess_defs stream_inv_def by simp
qed

lemma sess_invD:
  assumes "sess_inv s"
  shows "hm_wf (ut_sessions s)" "hm_get (ut_streams s) i = Some c \<Longrightarrow> stream_inv s c"
    "hm_get (ut_sessions s) src = Some (i, t) \<Longrightarrow> \<exists>c. hm_get (ut_streams s) i = Some c \<and> se_src c = src"
    "flight_ok (set (ut_opening s)) (openers s)"
    "hm_get (ut_tasks s) i = Some (src, Dialling d) \<Longrightarrow>
       subseq [d] (from_src src (received s)) \<and> hm_get (ut_streams s) i = None"
    "ut_seq s \<le> i \<Longrightarrow> hm_get (ut_tasks s) i = None \<and> hm_get (ut_streams s) i = None"
    "loop_datum (ut_loop s) = Some (src, d) \<Longrightarrow> subseq [d] (from_src src (received s))"
  using assms unfolding sess_defs by blast+

lemma remove_inv: "sess_inv s \<Longrightarrow> sess_inv (remove_entry src s)"
  using sess_invD(1) [of s] by (auto simp: remove_entry_def split: if_splits intro!: sessions_inv)

text \<open>Fields the rest of the invariant does not look at.\<close>

lemma pc_inv:
  assumes "sess_inv s" "\<And>src d. loop_datum l = Some (src, d) \<Longrightarrow> subseq [d] (from_src src (received s))"
  shows "sess_inv (s\<lparr>ut_loop := l\<rparr>)" "sess_inv (s\<lparr>ut_removing := r\<rparr>)"
proof -
  have "openers (s\<lparr>ut_loop := l\<rparr>) = openers s" "openers (s\<lparr>ut_removing := r\<rparr>) = openers s" by (rule openers_cong; simp)+
  then show "sess_inv (s\<lparr>ut_loop := l\<rparr>)" "sess_inv (s\<lparr>ut_removing := r\<rparr>)"
    using assms unfolding sess_defs stream_inv_def by simp_all
qed

lemma touch_inv: "sess_inv s \<Longrightarrow> hm_get (ut_sessions s) src = Some (i, t) \<Longrightarrow> sess_inv (touch now src i s)"
  using sess_invD(1) [of s] by (auto simp: touch_def split: if_splits intro!: sessions_inv)

lemma cleanup_inv: "sess_inv s \<Longrightarrow> sess_inv (session_cleanup now s)"
  using sess_invD(1) [of s]
  by (auto simp: session_cleanup_def hm_get_retain split: option.splits if_splits intro!: sessions_inv)

lemma clear_inv: "sess_inv s \<Longrightarrow> sess_inv (s\<lparr>ut_sessions := []\<rparr>)"
  by (auto intro!: sessions_inv)

text \<open>Changing one stream, or adding one.\<close>

lemma stream_update_inv:
  assumes "sess_inv s" "hm_get (ut_streams s) i = Some c" "se_src c' = se_src c" "stream_inv s c'"
  shows "sess_inv (s\<lparr>ut_streams := hm_insert i c' (ut_streams s)\<rparr>)"
proof -
  have o: "openers (s\<lparr>ut_streams := hm_insert i c' (ut_streams s)\<rparr>) = openers s" by (rule openers_cong) simp
  note d = sess_invD [OF assms(1)]
  have "i < ut_seq s" using d(6) [of i] assms(2) by (metis leI option.distinct(1))
  moreover have "hm_get (ut_tasks s) i \<noteq> Some (src, Dialling x)" for src x using d(5) [of i src x] assms(2) by auto
  ultimately show ?thesis
    using assms d unfolding sess_defs stream_inv_def o by (auto split: if_splits) (metis option.inject)+
qed

lemma push_inv:
  assumes "sess_inv s" "hm_get (ut_sessions s) src = Some (i, t)" "received s = r @ [(src, d)]"
    and "\<And>c. hm_get (ut_streams s) i = Some c \<Longrightarrow> subseq (se_stream c @ se_queue c) (from_src (se_src c) r)"
    and "try_send_session i d s = (s', res)"
  shows "sess_inv s'"
proof -
  obtain c where c: "hm_get (ut_streams s) i = Some c" "se_src c = src"
    using sess_invD(3) [OF assms(1,2)] by blast
  let ?c = "c\<lparr>se_queue := se_queue c @ [d]\<rparr>"
  have "subseq ((se_stream c @ se_queue c) @ [d]) (from_src src r @ [d])"
    using assms(4) [OF c(1)] c(2) by (intro list_emb_append_mono) auto
  then have "SESSION_QUEUE \<le> length (se_queue c) \<or> stream_inv s ?c"
    using c(2) assms(3) by (auto simp: stream_inv_def)
  then have "SESSION_QUEUE \<le> length (se_queue c) \<or> sess_inv (s\<lparr>ut_streams := hm_insert i ?c (ut_streams s)\<rparr>)"
    using stream_update_inv [OF assms(1) c(1), of ?c] by auto
  then show ?thesis
    using assms(1,5) c(1) by (auto simp: try_send_session_def split: if_splits)
qed

lemma spawn_inv:
  assumes "sess_inv s" "subseq [d] (from_src src (received s))"
  shows "sess_inv (spawn_session src d s)"
proof (cases "src \<in> set (ut_opening s)")
  case False
  let ?s = "spawn_session src d s"
  note d = sess_invD [OF assms(1)]
  have s: "?s = s\<lparr>ut_opening := src # ut_opening s, ut_seq := Suc (ut_seq s),
      ut_tasks := hm_insert (ut_seq s) (src, Dialling d) (ut_tasks s)\<rparr>"
    using False by (simp add: spawn_session_def)
  have fresh: "hm_get (ut_tasks s) (ut_seq s) = None" "hm_get (ut_streams s) (ut_seq s) = None" using d(6) by auto
  have "openers ?s = (openers s)(src := insert (ut_seq s) (openers s src))"
    using fresh(1) by (auto simp: s openers_def fun_eq_iff)
  then have "flight_move (set (ut_opening s)) (openers s) (set (ut_opening ?s)) (openers ?s)"
    using False unfolding flight_move_def by (intro disjI2 disjI1 exI [of _ "ut_seq s"] exI [of _ src]) (simp add: s)
  then have fl: "flight_ok (set (ut_opening ?s)) (openers ?s)" by (rule flight_move_ok [OF d(4)])
  have "tasks_inv ?s" using assms fresh(2) d(5) by (auto simp: s tasks_inv_def split: if_splits)
  moreover have "ids_inv ?s" using assms(1) unfolding sess_inv_def ids_inv_def by (auto simp: s)
  moreover have "loop_inv ?s" using assms(1) loop_inv_cong [of ?s s] by (simp add: s sess_inv_def)
  ultimately show ?thesis using fl d(2) by (simp add: sess_inv_def s stream_inv_def)
qed (use assms(1) in \<open>simp add: spawn_session_def\<close>)

lemma receive_inv:
  assumes "sess_inv s"
  shows "sess_inv (session_receive now src d (s\<lparr>received := received s @ [(src, d)]\<rparr>))"
proof -
  let ?s = "s\<lparr>received := received s @ [(src, d)]\<rparr>"
  have inv: "sess_inv ?s" by (rule received_inv [OF assms])
  have d: "subseq [d] (from_src src (received ?s))" by (simp add: list_emb_append2)
  have loop: "loop_datum l = Some (a, e) \<Longrightarrow> loop_datum l = Some (src, d) \<Longrightarrow> subseq [e] (from_src a (received ?s))" for l a e
    using d by auto
  show ?thesis
  proof (cases "hm_get (ut_sessions s) src")
    case None
    have "sess_inv (?s\<lparr>ut_loop := LoopSpawn src d\<rparr>)" using loop [of "LoopSpawn src d"] by (intro pc_inv(1) [OF inv]) simp
    with None show ?thesis by (simp add: session_receive_def)
  next
    case (Some x)
    then obtain i t where x: "hm_get (ut_sessions s) src = Some (i, t)" by (cases x) auto
    let ?t = "touch now src i ?s"
    obtain s' res where send: "try_send_session i d ?t = (s', res)" by fastforce
    have t: "sess_inv ?t" using touch_inv [OF inv, of src i t now] x by simp
    have s': "sess_inv s'"
    proof (rule push_inv [OF t _ _ _ send])
      show "hm_get (ut_sessions ?t) src = Some (i, now)" "received ?t = received s @ [(src, d)]"
        by (simp_all add: touch_def)
      show "hm_get (ut_streams ?t) i = Some c \<Longrightarrow> subseq (se_stream c @ se_queue c) (from_src (se_src c) (received s))" for c
        using sess_invD(2) [OF assms, of i c] by (simp add: touch_def stream_inv_def)
    qed
    moreover have "received s' = received ?s"
      using send by (auto simp: try_send_session_def touch_def split: option.splits if_splits)
    ultimately have "sess_inv (s'\<lparr>ut_loop := LoopClosed src i d\<rparr>)"
      using loop [of "LoopClosed src i d"] by (intro pc_inv(1)) simp_all
    then show ?thesis
      using x send s' by (cases res) (simp_all add: session_receive_def)
  qed
qed

lemma loop_turn_inv:
  assumes "sess_inv s"
  shows "sess_inv (loop_turn s)"
proof (cases "ut_loop s")
  case (LoopRemove src d)
  then show ?thesis
    using sess_invD(7) [OF assms] pc_inv(1) [OF remove_inv [OF assms], of "LoopSpawn src d" src]
    by (simp add: loop_turn_def remove_entry_def)
next
  case (LoopSpawn src d)
  then show ?thesis
    using sess_invD(7) [OF assms] pc_inv(1) [OF spawn_inv [OF assms, of d src], of LoopIdle] by (simp add: loop_turn_def)
qed (use assms sess_invD(7) [OF assms] in \<open>auto simp: loop_turn_def intro!: pc_inv(1)\<close>)

lemma opened_inv:
  assumes "sess_inv s" "hm_get (ut_tasks s) i = Some (src, Dialling d)"
  shows "sess_inv (session_opened now i src d s)"
proof -
  let ?s = "session_opened now i src d s"
  note d = sess_invD [OF assms(1)]
  note new = d(5) [OF assms(2)]
  have "openers ?s = openers s" using assms(2) by (auto simp: session_opened_def openers_def fun_eq_iff)
  moreover have "ids_inv ?s"
  proof -
    have "i < ut_seq s" using d(6) [of i] assms(2) by (metis leI option.distinct(1))
    moreover have "\<exists>c. hm_get (ut_streams ?s) j = Some c \<and> se_src c = a"
      if "hm_get (ut_sessions ?s) a = Some (j, t)" for a j t
      using that d(3) [of a j t] new by (auto simp: session_opened_def split: if_splits)
    ultimately show ?thesis using d(1,6) unfolding ids_inv_def by (auto simp: session_opened_def)
  qed
  moreover have "tasks_inv ?s" using d(5) by (auto simp: tasks_inv_def session_opened_def)
  moreover have "stream_inv ?s c" if "hm_get (ut_streams ?s) j = Some c" for j c
    using that d(2) [of j c] new by (auto simp: session_opened_def stream_inv_def split: if_splits)
  moreover have "loop_inv ?s" using assms(1) loop_inv_cong [of ?s s] by (simp add: session_opened_def sess_inv_def)
  ultimately show ?thesis using d(4) by (simp add: sess_inv_def) (simp add: session_opened_def)
qed

lemma opening_done_inv:
  assumes "sess_inv s" "hm_get (ut_tasks s) i = Some (src, ph)"
  shows "sess_inv (opening_done i src s)"
proof -
  let ?s = "opening_done i src s"
  note d = sess_invD [OF assms(1)]
  have "openers ?s = (openers s)(src := openers s src - {i})" "i \<in> openers s src"
    using assms(2) by (auto simp: opening_done_def openers_def fun_eq_iff)
  then have "flight_move (set (ut_opening s)) (openers s) (set (ut_opening ?s)) (openers ?s)"
    unfolding flight_move_def by (intro disjI2 exI [of _ i] exI [of _ src]) (simp add: opening_done_def)
  then have "flight_ok (set (ut_opening ?s)) (openers ?s)" by (rule flight_move_ok [OF d(4)])
  moreover have "tasks_inv ?s" using d(5) by (auto simp: tasks_inv_def opening_done_def)
  moreover have "ids_inv ?s" using assms(1) unfolding sess_inv_def ids_inv_def by (auto simp: opening_done_def)
  moreover have "loop_inv ?s" using assms(1) loop_inv_cong [of ?s s] by (simp add: opening_done_def sess_inv_def)
  ultimately show ?thesis using d(2) by (simp add: sess_inv_def opening_done_def stream_inv_def)
qed

lemma sess_inv_step: "sstep admit clears s s' \<Longrightarrow> sess_inv s \<Longrightarrow> sess_inv s'"
proof (induction rule: sstep.induct)
  case (Write s sid c)
  note inv = sess_invD(2) [OF Write(3,1)]
  show ?case
  proof (cases "se_queue c")
    case (Cons d ds)
    have "stream_inv s (c\<lparr>se_queue := ds, se_stream := se_stream c @ [d]\<rparr>)"
      using inv Cons by (simp add: stream_inv_def)
    then show ?thesis using stream_update_inv [OF Write(3,1)] Cons by (simp add: writer_turn_def)
  qed (use Write in \<open>simp add: writer_turn_def\<close>)
next
  case (End_session s sid c)
  then show ?case
    using sess_invD(2) [OF End_session(2,1)] unfolding writer_ended_def
    by (intro stream_update_inv) (auto simp: stream_inv_def)
qed (auto intro: receive_inv loop_turn_inv opened_inv opening_done_inv remove_inv cleanup_inv clear_inv pc_inv(2) [where l = LoopIdle])

lemma sess_inv_init: "sess_inv utable_new"
  by (simp add: sess_defs utable_new_def flight_ok_def openers_def)

interpretation udp_sessions: invariant_system "\<lambda>s. s = utable_new" "sstep admit clears" sess_inv for admit clears
  by unfold_locales (auto simp: sess_inv_init intro: sess_inv_step)

section \<open>Properties\<close>

definition demo_src :: socket_addr where
  "demo_src = \<lparr>sa_ip = IpV4 (Ipv4 127 0 0 1), sa_port = 5000\<rparr>"

text \<open>A run with one source, step by step: two datagrams on one session.\<close>

lemmas utable_eval = session_receive_def loop_turn_def spawn_session_def session_opened_def opening_done_def touch_def
  try_send_session_def utable_new_def SESSION_QUEUE_def hm_get_def hm_insert_def hm_remove_def session_matches_def
  remove_entry_def writer_turn_def writer_ended_def

definition demo_opened :: "socket_addr \<Rightarrow> 'd \<Rightarrow> 'd utable" where
  "demo_opened src d = \<lparr>ut_sessions = [(src, 1, 3)], ut_opening = [], ut_seq = 2, ut_tasks = [],
     ut_streams = [(1, \<lparr>se_src = src, se_queue = [], se_stream = [d], se_open = True\<rparr>)],
     ut_loop = LoopIdle, ut_removing = [], received = [(src, d)]\<rparr>"

lemma demo_opened_reach:
  assumes "admit src p = Some d"
  shows "reach (\<lambda>s. s = utable_new) (sstep admit clears) (demo_opened src d)"
proof -
  let ?R = "reach (\<lambda>s. s = utable_new) (sstep admit clears)"
  let ?a = "loop_turn (session_receive 1 src d (utable_new\<lparr>received := received utable_new @ [(src, d)]\<rparr>))"
  let ?b = "session_opened 3 1 src d ?a"
  have "?R (session_receive 1 src d (utable_new\<lparr>received := received utable_new @ [(src, d)]\<rparr>))"
    by (rule reach_step [OF reach_init], rule refl, rule sstep.Receive [of _ admit, OF _ assms]) (simp add: utable_new_def)
  then have "?R ?a" by (rule reach_step) (rule sstep.Loop)
  then have "?R ?b" by (rule reach_step) (rule sstep.Opened, simp add: utable_eval)
  then have "?R (opening_done 1 src ?b)" by (rule reach_step) (rule sstep.Opening_done, simp add: utable_eval)
  then show ?thesis by (simp add: utable_eval demo_opened_def numeral_2_eq_2)
qed

definition demo_utable :: "bytes utable" where
  "demo_utable = \<lparr>ut_sessions = [(demo_src, 1, 5)], ut_opening = [], ut_seq = 2, ut_tasks = [],
     ut_streams = [(1, \<lparr>se_src = demo_src, se_queue = [], se_stream = [[7], [8]], se_open = True\<rparr>)],
     ut_loop = LoopIdle, ut_removing = [], received = [(demo_src, [7]), (demo_src, [8])]\<rparr>"

lemma demo_utable_reach: "reach (\<lambda>s. s = utable_new) (sstep (\<lambda>_. Some) False) demo_utable"
proof -
  let ?R = "reach (\<lambda>s. s = utable_new) (sstep (\<lambda>_. Some) False)"
  let ?c = "demo_opened demo_src [7]"
  let ?d = "session_receive 5 demo_src [8] (?c\<lparr>received := received ?c @ [(demo_src, [8])]\<rparr>)"
  have "?R ?c" by (rule demo_opened_reach [where p = "[7]"]) simp
  then have d: "?R ?d" by (rule reach_step) (rule sstep.Receive [of _ _ _ "[8]"]; simp add: demo_opened_def)
  have "?R (writer_turn 1 \<lparr>se_src = demo_src, se_queue = [[8]], se_stream = [[7]], se_open = True\<rparr> ?d)"
    by (rule reach_step [OF d]) (rule sstep.Write; simp add: utable_eval demo_opened_def)
  then show ?thesis by (simp add: utable_eval demo_opened_def demo_utable_def numeral_2_eq_2)
qed

text \<open>A second session has replaced the first, whose supervisor has compared but not yet removed.\<close>

definition demo_replaced :: "socket_addr \<Rightarrow> 'd \<Rightarrow> 'd utable" where
  "demo_replaced src d = \<lparr>ut_sessions = [(src, 2, 9)], ut_opening = [], ut_seq = 3, ut_tasks = [],
     ut_streams = [(1, \<lparr>se_src = src, se_queue = [], se_stream = [d], se_open = False\<rparr>),
                   (2, \<lparr>se_src = src, se_queue = [], se_stream = [d], se_open = True\<rparr>)],
     ut_loop = LoopIdle, ut_removing = [1], received = [(src, d), (src, d)]\<rparr>"

lemma demo_replaced_reach:
  assumes "admit src p = Some d"
  shows "reach (\<lambda>s. s = utable_new) (sstep admit clears) (demo_replaced src d)"
proof -
  let ?R = "reach (\<lambda>s. s = utable_new) (sstep admit clears)"
  let ?c = "\<lparr>se_src = src, se_queue = [], se_stream = [d], se_open = True\<rparr>"
  let ?a = "writer_ended 1 ?c (demo_opened src d)"
  let ?b = "?a\<lparr>ut_removing := 1 # ut_removing ?a\<rparr>"
  let ?d = "session_receive 7 src d (?b\<lparr>received := received ?b @ [(src, d)]\<rparr>)"
  let ?e = "loop_turn (loop_turn (loop_turn ?d))"
  let ?f = "session_opened 9 2 src d ?e"
  have "?R (demo_opened src d)" by (rule demo_opened_reach [of admit, OF assms])
  then have "?R ?a" by (rule reach_step) (rule sstep.End_session, simp add: utable_eval demo_opened_def)
  then have "?R ?b"
    by (rule reach_step) (rule sstep.Supervise [of _ _ "?c\<lparr>se_open := False\<rparr>"]; simp add: utable_eval demo_opened_def)
  then have "?R ?d"
    by (rule reach_step) (rule sstep.Receive [of _ admit, OF _ assms], simp add: utable_eval demo_opened_def)
  then have "?R ?e" by (blast intro: reach_step sstep.Loop)
  then have "?R ?f" by (rule reach_step) (rule sstep.Opened, simp add: utable_eval demo_opened_def)
  then have "?R (opening_done 2 src ?f)"
    by (rule reach_step) (rule sstep.Opening_done, simp add: utable_eval demo_opened_def)
  then show ?thesis by (simp add: utable_eval demo_opened_def demo_replaced_def numeral_2_eq_2 numeral_3_eq_3)
qed

text \<open>\<^bold>\<open>C16.\<close>  However the receive loop, opening tasks, writers, supervisors and cleanup interleave,
  a session's stream carries only datagrams of its own source, each at most once and in the
  order in which they were received; no more than 256 are queued.\<close>

theorem udp_streams_in_order:
  assumes "reach (\<lambda>s. s = utable_new) (sstep admit clears) s" "hm_get (ut_streams s) sid = Some c"
  shows "subseq (se_stream c @ se_queue c) (from_src (se_src c) (received s)) \<and> length (se_queue c) \<le> 256"
  using sess_invD(2) [OF udp_sessions.reach_inv [OF assms(1)] assms(2)]
  by (simp add: stream_inv_def SESSION_QUEUE_def)

theorem udp_streams_in_order_witness:
  "subseq ([[7], [8]] @ []) (from_src demo_src (received demo_utable))"
  using udp_streams_in_order [OF demo_utable_reach, of 1] by (simp add: demo_utable_def hm_get_def)

text \<open>At most one stream per source is being opened, exactly while the source is marked as
  opening, and the entry of a source always leads to a stream that was opened for this
  source.\<close>

lemma udp_session_entries:
  assumes "reach (\<lambda>s. s = utable_new) (sstep admit clears) s"
  shows "(i \<in> openers s src \<and> j \<in> openers s src \<longrightarrow> i = j) \<and> (src \<in> set (ut_opening s) \<longleftrightarrow> openers s src \<noteq> {})
    \<and> (hm_get (ut_sessions s) src = Some (sid, t) \<longrightarrow> (\<exists>c. hm_get (ut_streams s) sid = Some c \<and> se_src c = src))"
proof -
  note inv = udp_sessions.reach_inv [OF assms]
  have "if src \<in> set (ut_opening s) then \<exists>i. openers s src = {i} else openers s src = {}"
    using sess_invD(4) [OF inv] by (simp add: flight_ok_def)
  then show ?thesis using sess_invD(3) [OF inv, of src sid t] by (auto split: if_splits)
qed

lemma udp_session_entries_witness:
  "\<exists>c. hm_get (ut_streams demo_utable) 1 = Some c \<and> se_src c = demo_src"
  using udp_session_entries [OF demo_utable_reach, of _ demo_src _ 1 5] by (auto simp: demo_utable_def hm_get_def)

text \<open>Comparing the session number does not protect a newer session: for every source whose
  packets are admitted there is a run after which the supervisor of an ended session
  removes the entry of the session that replaced it, while this one is open and usable; the
  next datagram of the source then starts a third session beside it.\<close>

lemma udp_session_replaced_entry_lost:
  assumes "admit src p = Some d"
  shows "\<exists>s s' c now. reach (\<lambda>s. s = utable_new) (sstep admit clears) s
    \<and> hm_get (ut_sessions s) src = Some (2, now) \<and> hm_get (ut_streams s) 2 = Some c \<and> se_open c
    \<and> sstep admit clears s s' \<and> hm_get (ut_sessions s') src = None \<and> hm_get (ut_streams s') 2 = Some c
    \<and> (\<exists>t. hm_get (ut_tasks (loop_turn (session_receive t src d s'))) 3 = Some (src, Dialling d))"
proof -
  let ?s = "demo_replaced src d"
  let ?s' = "(remove_entry src ?s)\<lparr>ut_removing := remove1 1 (ut_removing ?s)\<rparr>"
  have "sstep admit clears ?s ?s'"
    using sstep.Remove [of 1 ?s "\<lparr>se_src = src, se_queue = [], se_stream = [d], se_open = False\<rparr>" admit clears]
    by (simp add: demo_replaced_def hm_get_def)
  then show ?thesis
    using demo_replaced_reach [of admit, OF assms, of clears]
    by (intro exI [of _ ?s] exI [of _ ?s']) (auto simp: demo_replaced_def utable_eval)
qed

lemma udp_session_replaced_entry_lost_witness:
  "\<exists>s c now. reach (\<lambda>s. s = utable_new) (sstep (\<lambda>_. Some) False) s
    \<and> hm_get (ut_sessions s) demo_src = Some (2, now) \<and> hm_get (ut_streams s) 2 = Some c \<and> se_open c"
  using udp_session_replaced_entry_lost [where admit = "\<lambda>_. Some" and src = demo_src and p = "[7]" and d = "[7]" and clears = False]
  by blast

end
