(* ===== verification/Forwarder.thy ===== *)
theory Forwarder
  imports Udp_Sessions
begin

text \<open>
  \<open>client/src/forwarder.rs\<close>: the forward entries of a configuration, the tasks started for them,
  and the two directions of a forwarded UDP session.  The session table is in \<open>Udp_Sessions\<close>.

  A hash map of the configuration is the list of its entries in iteration order.
\<close>

section \<open>Entries\<close>

datatype protocol_filter = FwdTcp | FwdUdp | FwdBoth

record forward_entry =
  fe_local :: socket_addr
  fe_target :: string
  fe_protocol :: protocol_filter

datatype forward_error = UnknownForwardProtocol string string | InvalidForwardAddress string | InvalidTarget link_error
  | ForwardUpstream client_error

definition parse_local_addr :: "string \<Rightarrow> forward_error + (string \<times> protocol_filter)" where
  "parse_local_addr raw =
     (case rfind_char (CHR ''/'') raw of
        Some slash_pos \<Rightarrow>
          (let addr = take slash_pos raw; proto = drop (slash_pos + 1) raw in
           if eq_ignore_case proto ''tcp'' then Inr (addr, FwdTcp)
           else if eq_ignore_case proto ''udp'' then Inr (addr, FwdUdp)
           else Inl (UnknownForwardProtocol proto raw))
      | None \<Rightarrow> Inr (raw, FwdBoth))"

fun forwarder_new :: "(string \<times> string) list \<Rightarrow> forward_error + forward_entry list" where
  "forwarder_new [] = Inr []"
| "forwarder_new ((local_raw, target) # m) =
     and_then (parse_local_addr local_raw) (\<lambda>(addr_str, protocol).
     and_then (ok_or (InvalidForwardAddress addr_str) (parse_sock addr_str)) (\<lambda>local_addr.
     and_then (forwarder_new m) (\<lambda>entries.
       Inr (\<lparr>fe_local = local_addr, fe_target = target, fe_protocol = protocol\<rparr> # entries))))"

datatype forward_task = TcpForward forward_entry | UdpForward forward_entry

definition entry_tasks :: "forward_entry \<Rightarrow> forward_task list" where
  "entry_tasks e =
     (if fe_protocol e = FwdTcp \<or> fe_protocol e = FwdBoth then [TcpForward e] else [])
     @ (if fe_protocol e = FwdUdp \<or> fe_protocol e = FwdBoth then [UdpForward e] else [])"

definition forwarder_start :: "forward_entry list \<Rightarrow> forward_task list" where
  "forwarder_start entries = concat (map entry_tasks entries)"

definition parse_target :: "string \<Rightarrow> forward_error + (string \<times> u16)" where
  "parse_target target = map_err InvalidTarget (parse_host_port target)"

text \<open>The header of the stream of a forwarded connection.  The outcomes of the two copies are only
  logged.\<close>

definition forward_tcp_connection :: "client_error + unit \<Rightarrow> string \<Rightarrow> ('e + nat) \<Rightarrow> ('e + nat) \<Rightarrow> forward_error + bytes" where
  "forward_tcp_connection connected target r1 r2 =
     and_then (parse_target target) (\<lambda>(host, port).
     map_err ForwardUpstream (and_then connected (\<lambda>_. open_tcp_stream host port)))"

section \<open>UDP sessions\<close>

text \<open>The receive buffer has \<open>MAX_UDP_PAYLOAD\<close> bytes.\<close>

definition forward_admit :: "socket_addr \<Rightarrow> bytes \<Rightarrow> bytes option" where
  "forward_admit src packet =
     (let n = min (length packet) max_udp_payload in
      if max_udp_payload < n then None else Some (take n packet))"

text \<open>The writer: what it writes for the datagrams it takes off its channel, up to the first one
  that fails.\<close>

fun forward_writer :: "cached_addr \<Rightarrow> bytes \<Rightarrow> bytes list \<Rightarrow> bytes" where
  "forward_writer cached addr_buf [] = []"
| "forward_writer cached addr_buf (d # ds) =
     (case send_udp_datagram cached d addr_buf of
        (_, Inl _) \<Rightarrow> []
      | (addr_buf', Inr bs) \<Rightarrow> bs @ forward_writer cached addr_buf' ds)"

text \<open>All bytes of a session's stream to the server, for the datagrams of \<open>se_stream\<close>.\<close>

definition forward_stream :: "string \<Rightarrow> u16 \<Rightarrow> bytes list \<Rightarrow> client_error + bytes" where
  "forward_stream host port ds =
     (case ds of
        [] \<Rightarrow> Inr []
      | d # ds \<Rightarrow> and_then (open_udp_stream host port d) (\<lambda>head.
          Inr (head @ forward_writer (from_host_port host port) [] ds)))"

definition forward_read_one :: "bytes \<Rightarrow> proto_error + (bytes \<times> bytes)" where
  "forward_read_one bs =
     and_then (read_trojanc_addr_async bs) (\<lambda>(_, bs).
     and_then (read_exact 2 bs) (\<lambda>(len_buf, bs).
       read_exact (unat (u16_of_be (len_buf ! 0) (len_buf ! 1))) bs))"

lemma read_exact_rest: "read_exact n bs = Inr (xs, ys) \<Longrightarrow> length bs = n + length ys"
  by (auto simp: read_exact_def elim!: ok_or.elims dest!: take_exact_SomeD)

lemma read_trojanc_rest: "read_trojanc_addr_async bs = Inr (hp, rest) \<Longrightarrow> length rest < length bs"
  using read_into_length [OF read_into_Inr] by (cases hp) blast

lemma forward_read_one_length: "forward_read_one bs = Inr (d, rest) \<Longrightarrow> length rest < length bs"
  by (auto simp: forward_read_one_def and_then_eq_Inr dest!: read_exact_rest read_trojanc_rest)

text \<open>The reader: the payloads that are sent to the source; \<open>delivered j\<close> is the success of the \<open>j\<close>-th
  send.\<close>

function forward_reader :: "(nat \<Rightarrow> bool) \<Rightarrow> nat \<Rightarrow> bytes \<Rightarrow> bytes list" where
  "forward_reader delivered j bs =
     (case forward_read_one bs of
        Inl _ \<Rightarrow> []
      | Inr (d, rest) \<Rightarrow> if delivered j then d # forward_reader delivered (Suc j) rest else [])"
  by pat_completeness auto
termination
  by (relation "measure (\<lambda>(delivered, j, bs). length bs)") (auto dest: forward_read_one_length)

declare forward_reader.simps [simp del]

section \<open>Properties\<close>

lemma sock_str_no_slash: "CHR ''/'' \<notin> set (sock_str a)"
proof -
  have "CHR ''/'' \<notin> set (dec_str n)" for n using dec_str_digits [of "CHR ''/''" n] by auto
  moreover have "CHR ''/'' \<notin> set (v4_str ip)" for ip using v4_str_chars [of "CHR ''/''" ip] by auto
  ultimately show ?thesis
    using v6_str_no_bracket(3) by (cases "sa_ip a") (auto simp: sock_str_def)
qed

lemma parse_local_addr_suffix:
  assumes "CHR ''/'' \<notin> set proto"
  shows "parse_local_addr (sock_str a @ ''/'' @ proto) =
    (if eq_ignore_case proto ''tcp'' then Inr (sock_str a, FwdTcp)
     else if eq_ignore_case proto ''udp'' then Inr (sock_str a, FwdUdp)
     else Inl (UnknownForwardProtocol proto (sock_str a @ ''/'' @ proto)))"
  using rfind_char_append [OF assms, of "sock_str a"] by (simp add: parse_local_addr_def Let_def)

text \<open>Every socket address in its standard text, alone or with a protocol suffix in any
  case, is accepted as a local forward address and starts exactly the listeners that the
  suffix asks for; any other suffix is refused.\<close>

lemma forward_entry_tasks:
  assumes "CHR ''/'' \<notin> set proto"
  shows "map_err (\<lambda>_. ()) (and_then (forwarder_new [(sock_str a @ ''/'' @ proto, target)]) (\<lambda>es. Inr (forwarder_start es))) =
      (let e = \<lambda>p. \<lparr>fe_local = a, fe_target = target, fe_protocol = p\<rparr> in
       if eq_ignore_case proto ''tcp'' then Inr [TcpForward (e FwdTcp)]
       else if eq_ignore_case proto ''udp'' then Inr [UdpForward (e FwdUdp)] else Inl ())
    \<and> and_then (forwarder_new [(sock_str a, target)]) (\<lambda>es. Inr (forwarder_start es)) =
      (let e = \<lparr>fe_local = a, fe_target = target, fe_protocol = FwdBoth\<rparr> in Inr [TcpForward e, UdpForward e])"
proof
  show "and_then (forwarder_new [(sock_str a, target)]) (\<lambda>es. Inr (forwarder_start es)) =
      (let e = \<lparr>fe_local = a, fe_target = target, fe_protocol = FwdBoth\<rparr> in Inr [TcpForward e, UdpForward e])"
  proof -
    have "rfind_char (CHR ''/'') (sock_str a) = None" using sock_str_no_slash by (subst rfind_char_None)
    then have "parse_local_addr (sock_str a) = Inr (sock_str a, FwdBoth)"
      by (simp add: parse_local_addr_def del: rfind_char_None)
    then show ?thesis by (simp add: parse_sock_str forwarder_start_def entry_tasks_def Let_def)
  qed
qed (simp add: parse_local_addr_suffix [OF assms] parse_sock_str forwarder_start_def entry_tasks_def Let_def
    del: append_Cons)

end
