(* ===== verification/Local_Assoc.thy ===== *)
theory Local_Assoc
  imports Udp_Sessions
begin

text \<open>
  The UDP association of \<open>client/src/local.rs\<close>: its receive loop with the NAT timer and the control
  connection, and the two directions of its sessions.  The session table is in \<open>Udp_Sessions\<close>.
\<close>

section \<open>The receive loop\<close>

text \<open>What is done with a packet: the receive buffer has \<open>MAX_UDP_PAYLOAD\<close> bytes, packets from
  another IP address than the client's are dropped, as are those that do not parse.\<close>

definition assoc_admit :: "socket_addr \<Rightarrow> socket_addr \<Rightarrow> bytes \<Rightarrow> outbound_datagram option" where
  "assoc_admit peer_addr src packet =
     (if sa_ip src \<noteq> sa_ip peer_addr then None
      else case parse_socks5_udp_request (take max_udp_payload packet) of
        None \<Rightarrow> None
      | Some datagram \<Rightarrow> if max_udp_payload < length (od_payload datagram) then None else Some datagram)"

datatype assoc_event = AssocPacket nat socket_addr bytes | AssocRecvError | AssocNatTimer nat | AssocControlClosed

record assoc =
  as_table :: "outbound_datagram utable"
  as_deadline :: nat
  as_running :: bool

definition assoc_packet :: "socket_addr \<Rightarrow> nat \<Rightarrow> socket_addr \<Rightarrow> bytes \<Rightarrow> assoc \<Rightarrow> assoc" where
  "assoc_packet peer_addr now src packet a =
     (if sa_ip src \<noteq> sa_ip peer_addr then a
      else
        let a' = a\<lparr>as_deadline := now + default_nat_timeout\<rparr>; s = as_table a in
        case assoc_admit peer_addr src packet of
          None \<Rightarrow> a'
        | Some d \<Rightarrow> a'\<lparr>as_table := session_receive now src d (s\<lparr>received := received s @ [(src, d)]\<rparr>)\<rparr>)"

text \<open>One turn of the \<open>select!\<close>, which is reached when the previous turn is over; the timer only fires
  when its deadline has come.\<close>

definition assoc_turn :: "socket_addr \<Rightarrow> assoc_event \<Rightarrow> assoc \<Rightarrow> assoc" where
  "assoc_turn peer_addr ev a =
     (if \<not> as_running a \<or> ut_loop (as_table a) \<noteq> LoopIdle then a
      else case ev of
        AssocPacket now src packet \<Rightarrow> assoc_packet peer_addr now src packet a
      | AssocRecvError \<Rightarrow> a\<lparr>as_running := False\<rparr>
      | AssocNatTimer now \<Rightarrow>
          if now < as_deadline a then a
          else a\<lparr>as_table := (as_table a)\<lparr>ut_sessions := []\<rparr>, as_running := False\<rparr>
      | AssocControlClosed \<Rightarrow> a\<lparr>as_table := (as_table a)\<lparr>ut_sessions := []\<rparr>, as_running := False\<rparr>)"

section \<open>A session\<close>

fun assoc_writer :: "bytes \<Rightarrow> outbound_datagram list \<Rightarrow> bytes" where
  "assoc_writer addr_buf [] = []"
| "assoc_writer addr_buf (d # ds) =
     (case send_udp_datagram (from_host_port (od_addr d) (od_port d)) (od_payload d) addr_buf of
        (_, Inl _) \<Rightarrow> []
      | (addr_buf', Inr bs) \<Rightarrow> bs @ assoc_writer addr_buf' ds)"

definition assoc_stream :: "outbound_datagram list \<Rightarrow> client_error + bytes" where
  "assoc_stream ds =
     (case ds of
        [] \<Rightarrow> Inr []
      | d # ds \<Rightarrow> and_then (open_udp_stream (od_addr d) (od_port d) (od_payload d)) (\<lambda>head.
          Inr (head @ assoc_writer [] ds)))"

lemma read_one_udp_response_length: "read_one_udp_response bs = Inr (x, rest) \<Longrightarrow> length rest < length bs"
proof -
  assume "read_one_udp_response bs = Inr (x, rest)"
  then obtain hp bs1 lb bs2 where h: "read_trojanc_addr_async bs = Inr (hp, bs1)" "read_exact 2 bs1 = Inr (lb, bs2)"
    and d: "\<exists>d. read_exact (unat (u16_of_be (lb ! 0) (lb ! 1))) bs2 = Inr (d, rest)"
    by (auto simp: read_one_udp_response_def and_then_eq_Inr)
  have len: "read_exact n cs = Inr (xs, ys) \<Longrightarrow> length ys \<le> length cs" for n cs xs ys
    by (auto simp: read_exact_def elim!: ok_or.elims dest!: take_exact_SomeD)
  have "length bs1 < length bs" using h(1) read_into_length [OF read_into_Inr] by (cases hp) blast
  then show ?thesis using len h(2) d by (metis le_less_trans order_trans)
qed

text \<open>The reader: the packets sent to the SOCKS client.\<close>

function assoc_reader :: "(nat \<Rightarrow> bool) \<Rightarrow> nat \<Rightarrow> bytes \<Rightarrow> bytes list" where
  "assoc_reader delivered j bs =
     (case read_one_udp_response bs of
        Inl _ \<Rightarrow> []
      | Inr ((resp_addr, resp_port, buf), rest) \<Rightarrow>
          if delivered j then build_socks5_udp_packet resp_addr resp_port buf # assoc_reader delivered (Suc j) rest
          else [])"
  by pat_completeness auto
termination
  by (relation "measure (\<lambda>(delivered, j, bs). length bs)") (auto dest: read_one_udp_response_length)

declare assoc_reader.simps [simp del]

section \<open>The loop and the session table\<close>

text \<open>The receive loop only makes steps of the session table.\<close>

lemma assoc_turn_sstep:
  "as_table (assoc_turn peer ev a) = as_table a
   \<or> sstep (assoc_admit peer) True (as_table a) (as_table (assoc_turn peer ev a))"
proof (cases "as_running a \<and> ut_loop (as_table a) = LoopIdle")
  case True
  have "as_table (assoc_packet peer now src packet a) = as_table a
      \<or> sstep (assoc_admit peer) True (as_table a) (as_table (assoc_packet peer now src packet a))" for now src packet
    using True by (auto simp: assoc_packet_def Let_def split: option.split intro: sstep.Receive)
  then show ?thesis
    using True by (cases ev) (auto simp: assoc_turn_def intro: sstep.Clear)
qed (auto simp: assoc_turn_def)

inductive assoc_step :: "socket_addr \<Rightarrow> assoc \<Rightarrow> assoc \<Rightarrow> bool" for peer where
  Turn: "assoc_step peer a (assoc_turn peer ev a)"
| Background: "sstep (\<lambda>_ _. None) False (as_table a) t \<Longrightarrow> assoc_step peer a (a\<lparr>as_table := t\<rparr>)"

definition assoc_init :: "assoc \<Rightarrow> bool" where
  "assoc_init a = (as_table a = utable_new \<and> as_running a)"

lemma background_sstep: "sstep (\<lambda>_ _. None) False s t \<Longrightarrow> sstep admit clears s t"
  by (induction rule: sstep.induct) (auto intro: sstep.intros)

definition assoc_inv :: "socket_addr \<Rightarrow> assoc \<Rightarrow> bool" where
  "assoc_inv peer a = (sess_inv (as_table a) \<and> (\<forall>x \<in> set (received (as_table a)). \<exists>p. assoc_admit peer (fst x) p = Some (snd x)))"

lemma received_step: "sstep admit clears s t \<Longrightarrow>
  received t = received s \<or> (\<exists>src p d. admit src p = Some d \<and> received t = received s @ [(src, d)])"
proof (induction rule: sstep.induct)
  case (Receive s src packet d now)
  have "received (session_receive now src d u) = received u" for u
    by (auto simp: session_receive_def try_send_session_def touch_def split: option.splits if_splits)
  then show ?case using Receive by auto
qed (auto simp: session_opened_def opening_done_def writer_turn_def writer_ended_def remove_entry_def
    session_cleanup_def loop_turn_def spawn_session_def split: list.split option.split loop_pc.split)

interpretation association: invariant_system assoc_init "assoc_step peer" "assoc_inv peer" for peer
proof unfold_locales
  show "assoc_inv peer a" if "assoc_init a" for a
    using that sess_inv_init by (auto simp: assoc_init_def assoc_inv_def utable_new_def)
  have keep: "assoc_inv peer (a\<lparr>as_table := t\<rparr>)" if "assoc_inv peer a" "sstep (assoc_admit peer) True (as_table a) t" for a t
  proof -
    have "sess_inv t" using that sess_inv_step [OF that(2)] by (simp add: assoc_inv_def)
    moreover have "\<forall>x \<in> set (received t). \<exists>p. assoc_admit peer (fst x) p = Some (snd x)"
      using received_step [OF that(2)] that(1) unfolding assoc_inv_def by (elim disjE exE conjE) (simp_all, metis)
    ultimately show ?thesis by (simp add: assoc_inv_def)
  qed
  show "assoc_inv peer b" if "assoc_inv peer a" "assoc_step peer a b" for a b
    using that(2,1)
  proof (cases rule: assoc_step.cases)
    case (Turn ev)
    then show ?thesis
      using assoc_turn_sstep [of peer ev a] keep [of a "as_table b"] that(1) by (auto simp: assoc_inv_def)
  next
    case (Background t)
    then show ?thesis using keep [of a t] that(1) background_sstep by blast
  qed
qed

text \<open>A stream starts with the datagram that opened it.\<close>

definition streams_begun :: "'d utable \<Rightarrow> bool" where
  "streams_begun s = (\<forall>i c. hm_get (ut_streams s) i = Some c \<longrightarrow> se_stream c \<noteq> [])"

lemma streams_begun_step: "sstep admit clears s t \<Longrightarrow> streams_begun s \<Longrightarrow> streams_begun t"
proof (induction rule: sstep.induct)
  case (Receive s src packet d now)
  have "streams_begun (session_receive now src d u)" if "streams_begun u" for u
    using that by (auto simp: session_receive_def try_send_session_def touch_def streams_begun_def split: option.splits if_splits)
  from this [of "s\<lparr>received := received s @ [(src, d)]\<rparr>"] Receive show ?case by (simp add: streams_begun_def)
qed (auto simp: streams_begun_def session_opened_def opening_done_def writer_turn_def writer_ended_def remove_entry_def
    session_cleanup_def loop_turn_def spawn_session_def split: list.splits option.splits loop_pc.splits if_splits)

interpretation begun: invariant_system assoc_init "assoc_step peer" "\<lambda>a. streams_begun (as_table a)" for peer
proof unfold_locales
  show "streams_begun (as_table a)" if "assoc_init a" for a
    using that by (simp add: assoc_init_def utable_new_def streams_begun_def hm_get_def)
  show "streams_begun (as_table b)" if "streams_begun (as_table a)" "assoc_step peer a b" for a b
    using that(2)
  proof cases
    case (Turn ev)
    then show ?thesis using assoc_turn_sstep [of peer ev a] streams_begun_step that(1) by metis
  next
    case (Background t)
    then show ?thesis using streams_begun_step that(1) by auto
  qed
qed

text \<open>A packet of the client is queued for its session, unless the queue is full.\<close>

lemma assoc_turn_queues:
  assumes "as_running a" "ut_loop (as_table a) = LoopIdle" "assoc_admit peer src packet = Some d"
    and "hm_get (ut_sessions (as_table a)) src = Some (sid, t)" "hm_get (ut_streams (as_table a)) sid = Some c"
    and "se_open c" "length (se_queue c) < SESSION_QUEUE"
  shows "hm_get (ut_streams (as_table (assoc_turn peer (AssocPacket now src packet) a))) sid = Some (c\<lparr>se_queue := se_queue c @ [d]\<rparr>)"
    "received (as_table (assoc_turn peer (AssocPacket now src packet) a)) = received (as_table a) @ [(src, d)]"
proof -
  have "sa_ip src = sa_ip peer" using assms(3) by (auto simp: assoc_admit_def split: if_splits)
  then show "hm_get (ut_streams (as_table (assoc_turn peer (AssocPacket now src packet) a))) sid = Some (c\<lparr>se_queue := se_queue c @ [d]\<rparr>)"
    "received (as_table (assoc_turn peer (AssocPacket now src packet) a)) = received (as_table a) @ [(src, d)]"
    using assms by (simp_all add: assoc_turn_def assoc_packet_def Let_def session_receive_def try_send_session_def touch_def)
qed

text \<open>Whatever a session holds was admitted from its source.\<close>

lemma association_sources:
  assumes "reach assoc_init (assoc_step peer) a" "hm_get (ut_streams (as_table a)) sid = Some c"
  shows "subseq (se_stream c @ se_queue c) (from_src (se_src c) (received (as_table a)))"
    "d \<in> set (se_stream c @ se_queue c) \<Longrightarrow> \<exists>p. assoc_admit peer (se_src c) p = Some d"
proof -
  note inv = association.reach_inv [OF assms(1), unfolded assoc_inv_def]
  show sub: "subseq (se_stream c @ se_queue c) (from_src (se_src c) (received (as_table a)))"
    using sess_invD(2) [OF conjunct1 [OF inv] assms(2)] by (simp add: stream_inv_def)
  assume d: "d \<in> set (se_stream c @ se_queue c)"
  obtain y where "y \<in> set (from_src (se_src c) (received (as_table a)))" "d = y" by (rule list_emb_set [OF sub d])
  then have "(se_src c, d) \<in> set (received (as_table a))" by (auto simp: from_src_def)
  from bspec [OF conjunct2 [OF inv] this] show "\<exists>p. assoc_admit peer (se_src c) p = Some d" by auto
qed

lemma association_own_ip:
  assumes "reach assoc_init (assoc_step peer) a" "hm_get (ut_streams (as_table a)) sid = Some c" "d \<in> set (se_stream c @ se_queue c)"
  shows "sa_ip (se_src c) = sa_ip peer"
  using association_sources(2) [OF assms] by (auto simp: assoc_admit_def split: if_splits)

section \<open>Properties\<close>

text \<open>\<^bold>\<open>C17.\<close>  A UDP association only relays for its own client: in every run, whatever is queued for
  or written to a server stream is the payload of a well-formed SOCKS5 packet that came from
  the IP address of the control connection, in the order of arrival; after the loop has ended
  on a closed control connection or the NAT timer, no packet is accepted any more.\<close>

theorem association_only_own_client:
  assumes "reach assoc_init (assoc_step peer) a" "hm_get (ut_streams (as_table a)) sid = Some c"
    and "d \<in> set (se_stream c @ se_queue c)"
  shows "sa_ip (se_src c) = sa_ip peer
    \<and> (\<exists>packet. parse_socks5_udp_request (take max_udp_payload packet) = Some d)
    \<and> subseq (se_stream c @ se_queue c) (from_src (se_src c) (received (as_table a)))
    \<and> (\<not> as_running a \<longrightarrow> assoc_turn peer ev a = a)"
  using association_sources(1) [OF assms(1,2)] association_sources(2) [OF assms]
  by (auto simp: assoc_admit_def assoc_turn_def split: if_splits option.splits)

definition demo_packet :: bytes where
  "demo_packet = [0, 0, 0, 1, 9, 9, 9, 9, 0, 53, 7]"

definition demo_dgram :: outbound_datagram where
  "demo_dgram = \<lparr>od_addr = v4_str (Ipv4 9 9 9 9), od_port = u16_of_be 0 53, od_payload = [7]\<rparr>"

lemma demo_admit: "assoc_admit demo_src demo_src demo_packet = Some demo_dgram"
  by (simp add: assoc_admit_def demo_packet_def demo_dgram_def parse_socks5_udp_request_def max_udp_payload_def Let_def)

text \<open>An association that has opened a stream for the first datagram of its client.\<close>

definition opened_assoc :: "outbound_datagram \<Rightarrow> assoc" where
  "opened_assoc d = \<lparr>as_table = session_opened 3 1 demo_src d (loop_turn
      (session_receive 1 demo_src d (utable_new\<lparr>received := [(demo_src, d)]\<rparr>))),
     as_deadline = 1 + default_nat_timeout, as_running = True\<rparr>"

lemma opened_reach:
  assumes "assoc_admit demo_src demo_src packet = Some d"
  shows "reach assoc_init (assoc_step demo_src) (opened_assoc d)"
proof -
  let ?R = "reach assoc_init (assoc_step demo_src)"
  let ?a = "\<lparr>as_table = utable_new, as_deadline = 0, as_running = True\<rparr> :: assoc"
  let ?b = "assoc_turn demo_src (AssocPacket 1 demo_src packet) ?a"
  let ?c = "?b\<lparr>as_table := loop_turn (as_table ?b)\<rparr>"
  have "?R ?a" by (rule reach_init) (simp add: assoc_init_def)
  then have "?R ?b" by (rule reach_step) (rule assoc_step.Turn)
  then have c: "?R ?c" by (rule reach_step) (intro assoc_step.Background sstep.Loop)
  have "sstep (\<lambda>_ _. None) False (as_table ?c) (session_opened 3 1 demo_src d (as_table ?c))"
    by (rule sstep.Opened) (simp add: assoc_turn_def assoc_packet_def assms utable_eval)
  then have "assoc_step demo_src ?c (?c\<lparr>as_table := session_opened 3 1 demo_src d (as_table ?c)\<rparr>)"
    by (rule assoc_step.Background)
  moreover have "?c\<lparr>as_table := session_opened 3 1 demo_src d (as_table ?c)\<rparr> = opened_assoc d"
    by (simp add: opened_assoc_def assoc_turn_def assoc_packet_def assms utable_new_def)
  ultimately show ?thesis using reach_step [OF c] by metis
qed

theorem association_only_own_client_witness:
  "\<exists>packet. parse_socks5_udp_request (take max_udp_payload packet) = Some demo_dgram"
proof -
  let ?c = "\<lparr>se_src = demo_src, se_queue = [], se_stream = [demo_dgram], se_open = True\<rparr>"
  have "hm_get (ut_streams (as_table (opened_assoc demo_dgram))) 1 = Some ?c"
    by (simp add: opened_assoc_def session_opened_def)
  from association_only_own_client [OF opened_reach [OF demo_admit] this, of demo_dgram] show ?thesis by auto
qed

end
