(* ===== verification/Udp_Pool.thy ===== *)
theory Udp_Pool
  imports Protocol Consts
begin

text \<open>
  \<open>server/src/udp.rs\<close>.  First the datagram helpers (\<open>send_to_addr\<close>, \<open>relay_responses\<close>), then
  \<open>UdpEndpointPool\<close>.

  The pool is a step relation \<open>pstep\<close> over any number of \<open>get_or_create\<close> calls.  A program
  counter stands between two accesses to shared state, one step per lock acquisition, so that
  the interleavings are those of the code:
  \<^item> the moka cache is the map \<open>cache\<close>, which may also lose entries at any time (\<open>Evict\<close>:
    idle timeout, capacity, \<open>remove\<close>);
  \<^item> \<open>Notify::notify_waiters\<close> completes the \<open>Notified\<close> futures that exist at that moment:
    \<open>calls\<close> is the list of identities it was called on, and a future remembers how many calls
    its identity had when it was created;
  \<^item> a creator whose future is dropped while it awaits \<open>UdpEndpoint::new\<close> still runs
    \<open>CreationGuard::drop\<close> (\<open>Cancel\<close>).
\<close>

section \<open>Datagrams\<close>

text \<open>The destination that \<open>send_to_addr\<close> hands to the socket.\<close>

definition send_to_addr :: "socket_addr \<Rightarrow> bool \<Rightarrow> socket_addr" where
  "send_to_addr target socket_is_ipv6 =
     (case sa_ip target of
        IpV4 a \<Rightarrow> if socket_is_ipv6
                 then \<lparr>sa_ip = IpV6 (to_ipv6_mapped a), sa_port = sa_port target\<rparr> else target
      | IpV6 _ \<Rightarrow> target)"

text \<open>One turn of the loop of \<open>relay_responses\<close>: the frame for a datagram.  The receive buffer
  has 65535 bytes, so a datagram is never longer.\<close>

definition response_frame :: "socket_addr \<Rightarrow> bytes \<Rightarrow> proto_error + bytes" where
  "response_frame addr payload =
     (let response_addr = from_socket_addr \<lparr>sa_ip = to_canonical (sa_ip addr), sa_port = sa_port addr\<rparr>;
          (frame, res) = build_trojanc_addr_cached [] response_addr
      in and_then res (\<lambda>_. Inr (frame @ u16_to_be (word_of_nat (length payload)) @ payload)))"

datatype relay_event = Datagram socket_addr bytes | RecvError | IdleElapsed

datatype relay_error = RelayRecv | RelayFrame proto_error

text \<open>The bytes written to the stream and the result.  A list that ends without one of the
  terminating events is a relay still running: \<open>None\<close>.\<close>

fun relay_responses :: "relay_event list \<Rightarrow> bytes \<times> (relay_error + unit) option" where
  "relay_responses [] = ([], None)"
| "relay_responses (RecvError # es) = ([], Some (Inl RelayRecv))"
| "relay_responses (IdleElapsed # es) = ([], Some (Inr ()))"
| "relay_responses (Datagram addr payload # es) =
     (case response_frame addr payload of
        Inl e \<Rightarrow> ([], Some (Inl (RelayFrame e)))
      | Inr frame \<Rightarrow> (let (out, res) = relay_responses es in (frame @ out, res)))"

section \<open>The endpoint pool\<close>

record endpoint =
  ep_socket :: nat
  ep_target :: socket_addr
  ep_is_ipv6 :: bool

datatype pool_error = CreateFailed | Cancelled

type_synonym pool_result = "pool_error + (endpoint \<times> bool)"

datatype pool_pc =
    Top
  | Arbitrate
  | Creator_map nat
  | Creator_check nat
  | Creator_new nat
  | Drop_creating nat pool_result
  | Drop_map nat pool_result
  | Drop_notify nat pool_result
  | Wait_register
  | Wait_check nat
  | Wait_future nat
  | Awaiting nat nat
  | Returned pool_result

record pool_task =
  pt_addr :: socket_addr
  pt_pc :: pool_pc

record pool =
  cache :: "(socket_addr, endpoint) hashmap"
  creating :: "socket_addr list"
  notify_map :: "(socket_addr, nat) hashmap"
  fresh_notify :: nat
  calls :: "nat list"
  ptasks :: "(nat, pool_task) hashmap"

definition pool_new :: pool where
  "pool_new = \<lparr>cache = [], creating = [], notify_map = [], fresh_notify = 0, calls = [], ptasks = []\<rparr>"

definition get_socket :: "pool \<Rightarrow> socket_addr \<Rightarrow> endpoint option" where
  "get_socket s addr = hm_get (cache s) addr"

definition pool_remove :: "socket_addr \<Rightarrow> pool \<Rightarrow> pool" where
  "pool_remove addr s = s\<lparr>cache := hm_remove addr (cache s)\<rparr>"

text \<open>One step of one call: the new program counter and the shared state.  The outcome of
  \<open>UdpEndpoint::new\<close> is the argument \<open>made\<close>.\<close>

fun get_or_create_step :: "pool_error + endpoint \<Rightarrow> socket_addr \<Rightarrow> pool_pc \<Rightarrow> pool \<Rightarrow> (pool_pc \<times> pool) option" where
  "get_or_create_step made addr Top s = Some
     (case hm_get (cache s) addr of Some e \<Rightarrow> Returned (Inr (e, False)) | None \<Rightarrow> Arbitrate, s)"
| "get_or_create_step made addr Arbitrate s = Some
     (let n = fresh_notify s; s1 = s\<lparr>fresh_notify := Suc n\<rparr> in
      if addr \<notin> set (creating s1) then (Creator_map n, s1\<lparr>creating := addr # creating s1\<rparr>)
      else (Wait_register, s1))"
| "get_or_create_step made addr (Creator_map n) s = Some
     (Creator_check n, s\<lparr>notify_map := hm_insert addr n (notify_map s)\<rparr>)"
| "get_or_create_step made addr (Creator_check n) s = Some
     (case hm_get (cache s) addr of Some e \<Rightarrow> Drop_creating n (Inr (e, False)) | None \<Rightarrow> Creator_new n, s)"
| "get_or_create_step made addr (Creator_new n) s = Some
     (case made of
        Inr e \<Rightarrow> (Drop_creating n (Inr (e, True)), s\<lparr>cache := hm_insert addr e (cache s)\<rparr>)
      | Inl err \<Rightarrow> (Drop_creating n (Inl err), s))"
| "get_or_create_step made addr (Drop_creating n r) s = Some
     (Drop_map n r, s\<lparr>creating := removeAll addr (creating s)\<rparr>)"
| "get_or_create_step made addr (Drop_map n r) s = Some
     (Drop_notify n r, s\<lparr>notify_map := hm_remove addr (notify_map s)\<rparr>)"
| "get_or_create_step made addr (Drop_notify n r) s = Some
     (Returned r, s\<lparr>calls := n # calls s\<rparr>)"
| "get_or_create_step made addr Wait_register s = Some
     (case hm_get (notify_map s) addr of
        Some n \<Rightarrow> (Wait_check n, s)
      | None \<Rightarrow> (Wait_check (fresh_notify s),
                s\<lparr>notify_map := hm_insert addr (fresh_notify s) (notify_map s),
                  fresh_notify := Suc (fresh_notify s)\<rparr>))"
| "get_or_create_step made addr (Wait_check n) s = Some
     (if addr \<in> set (creating s) then Wait_future n else Top, s)"
| "get_or_create_step made addr (Wait_future n) s = Some (Awaiting n (count_list (calls s) n), s)"
| "get_or_create_step made addr (Awaiting n seen) s =
     (if seen < count_list (calls s) n then Some (Top, s) else None)"
| "get_or_create_step made addr (Returned r) s = None"

definition set_ptask :: "nat \<Rightarrow> socket_addr \<Rightarrow> pool_pc \<Rightarrow> pool \<Rightarrow> pool" where
  "set_ptask i addr pc s = s\<lparr>ptasks := hm_insert i \<lparr>pt_addr = addr, pt_pc = pc\<rparr> (ptasks s)\<rparr>"

inductive pstep :: "pool \<Rightarrow> pool \<Rightarrow> bool" where
  Call: "hm_get (ptasks s) i = None \<Longrightarrow> pstep s (set_ptask i addr Top s)"
| Advance: "\<lbrakk>hm_get (ptasks s) i = Some p; get_or_create_step made (pt_addr p) (pt_pc p) s = Some (pc, t)\<rbrakk> \<Longrightarrow>
    pstep s (set_ptask i (pt_addr p) pc t)"
| Cancel: "\<lbrakk>hm_get (ptasks s) i = Some p; pt_pc p = Creator_new n\<rbrakk> \<Longrightarrow>
    pstep s (set_ptask i (pt_addr p) (Drop_creating n (Inl Cancelled)) s)"
| Evict: "pstep s (pool_remove addr s)"

section \<open>At most one creator per address\<close>

text \<open>The program counters between winning the arbitration and leaving \<open>creating\<close>.\<close>

fun in_creation :: "pool_pc \<Rightarrow> bool" where
  "in_creation (Creator_map _) = True"
| "in_creation (Creator_check _) = True"
| "in_creation (Creator_new _) = True"
| "in_creation (Drop_creating _ _) = True"
| "in_creation _ = False"

definition creators :: "pool \<Rightarrow> socket_addr \<Rightarrow> nat set" where
  "creators s addr = {i. \<exists>p. hm_get (ptasks s) i = Some p \<and> pt_addr p = addr \<and> in_creation (pt_pc p)}"

lemma creators_set_ptask:
  "creators (set_ptask i addr pc s) a =
     (if a = addr \<and> in_creation pc then insert i (creators s a) else creators s a - {i})"
  by (auto simp: creators_def set_ptask_def)

lemma set_ptask_creating [simp]: "creating (set_ptask i addr pc s) = creating s"
  by (simp add: set_ptask_def)

lemma creators_cong: "ptasks s = ptasks t \<Longrightarrow> creators s = creators t"
  by (simp add: creators_def fun_eq_iff)

lemma creators_task:
  "hm_get (ptasks s) i = Some p \<Longrightarrow> i \<in> creators s a \<longleftrightarrow> a = pt_addr p \<and> in_creation (pt_pc p)"
  by (auto simp: creators_def)

text \<open>A step enters the creation section, leaves it, or changes nothing about it.\<close>

lemma get_or_create_step_kinds:
  assumes "get_or_create_step made addr pc s = Some (pc', t)"
  shows "ptasks t = ptasks s \<and>
    (in_creation pc' = in_creation pc \<and> set (creating t) = set (creating s)
     \<or> \<not> in_creation pc \<and> in_creation pc' \<and> addr \<notin> set (creating s) \<and> set (creating t) = insert addr (set (creating s))
     \<or> in_creation pc \<and> \<not> in_creation pc' \<and> set (creating t) = set (creating s) - {addr})"
  using assms by (cases pc) (auto simp: Let_def split: if_splits option.splits sum.splits)

lemma advance_flight:
  assumes p: "hm_get (ptasks s) i = Some p"
    and st: "get_or_create_step made (pt_addr p) (pt_pc p) s = Some (pc, t)"
  shows "flight_move (set (creating s)) (creators s) (set (creating t)) (creators (set_ptask i (pt_addr p) pc t))"
proof -
  note k = get_or_create_step_kinds [OF st]
  have "creators t = creators s" using k by (intro creators_cong) simp
  then have c: "creators (set_ptask i (pt_addr p) pc t) =
      (if in_creation pc then (creators s)(pt_addr p := insert i (creators s (pt_addr p)))
       else (creators s)(pt_addr p := creators s (pt_addr p) - {i}))"
    using creators_task [OF p] by (auto simp: creators_set_ptask fun_eq_iff)
  have i: "i \<in> creators s (pt_addr p) \<longleftrightarrow> in_creation (pt_pc p)" using creators_task [OF p] by simp
  from k consider
      (same) "in_creation pc = in_creation (pt_pc p)" "set (creating t) = set (creating s)"
    | (enter) "in_creation pc" "pt_addr p \<notin> set (creating s)" "set (creating t) = insert (pt_addr p) (set (creating s))"
    | (leave) "in_creation (pt_pc p)" "\<not> in_creation pc" "set (creating t) = set (creating s) - {pt_addr p}"
    by blast
  then show ?thesis
  proof cases
    case same
    then have "creators (set_ptask i (pt_addr p) pc t) = creators s" using c i by (auto simp: fun_eq_iff)
    with same show ?thesis by (simp add: flight_move_def)
  next
    case enter
    then show ?thesis unfolding flight_move_def c by (intro disjI2 disjI1 exI [of _ i] exI [of _ "pt_addr p"]) simp
  next
    case leave
    then show ?thesis unfolding flight_move_def c using i
      by (intro disjI2 exI [of _ i] exI [of _ "pt_addr p"]) simp
  qed
qed

lemma pstep_flight: "pstep s t \<Longrightarrow> flight_move (set (creating s)) (creators s) (set (creating t)) (creators t)"
proof (induction rule: pstep.induct)
  case (Call s i addr)
  then have "creators (set_ptask i addr Top s) = creators s"
    by (auto simp: creators_def set_ptask_def fun_eq_iff split: if_splits)
  then show ?case by (simp add: flight_move_def)
next
  case (Advance s i p made pc t)
  then show ?case using advance_flight [of s i p] by simp
next
  case (Cancel s i p n)
  then have "creators (set_ptask i (pt_addr p) (Drop_creating n (Inl Cancelled)) s) = creators s"
    using creators_task [OF Cancel.hyps(1)] by (auto simp: creators_set_ptask fun_eq_iff)
  then show ?case by (simp add: flight_move_def)
next
  case (Evict s addr)
  have "creators (pool_remove addr s) = creators s" by (intro creators_cong) (simp add: pool_remove_def)
  then show ?case by (simp add: flight_move_def pool_remove_def)
qed

interpretation endpoint_pool: single_flight "\<lambda>s. s = pool_new" pstep "\<lambda>s. set (creating s)" creators
  by unfold_locales (auto simp: pool_new_def creators_def intro: pstep_flight)

section \<open>Stranded waiters\<close>

text \<open>The identity whose waiters a creator will notify.\<close>

fun will_notify :: "pool_pc \<Rightarrow> nat option" where
  "will_notify (Creator_map n) = Some n"
| "will_notify (Creator_check n) = Some n"
| "will_notify (Creator_new n) = Some n"
| "will_notify (Drop_creating n _) = Some n"
| "will_notify (Drop_map n _) = Some n"
| "will_notify (Drop_notify n _) = Some n"
| "will_notify _ = None"

definition stranded :: "nat \<Rightarrow> pool_task \<Rightarrow> pool \<Rightarrow> bool" where
  "stranded i p s = (hm_get (ptasks s) i = Some p \<and>
     (\<exists>n seen. pt_pc p = Awaiting n seen \<and> count_list (calls s) n \<le> seen \<and> n < fresh_notify s
        \<and> (\<forall>j q. hm_get (ptasks s) j = Some q \<longrightarrow> will_notify (pt_pc q) \<noteq> Some n)))"

text \<open>A step notifies only what its creator holds, and a new creator holds a new identity.\<close>

lemma get_or_create_step_notify:
  assumes "get_or_create_step made addr pc s = Some (pc', t)"
  shows "ptasks t = ptasks s \<and> fresh_notify s \<le> fresh_notify t
    \<and> (calls t = calls s \<or> (\<exists>n. will_notify pc = Some n \<and> calls t = n # calls s))
    \<and> (will_notify pc' = None \<or> will_notify pc' = will_notify pc \<or> will_notify pc' = Some (fresh_notify s))"
  using assms by (cases pc) (auto simp: Let_def split: if_splits option.splits sum.splits)

lemma stranded_step:
  assumes "pstep s t" "stranded i p s"
  shows "stranded i p t"
  using assms
proof (induction rule: pstep.induct)
  case (Call s j addr)
  then show ?case by (fastforce simp: stranded_def set_ptask_def)
next
  case (Advance s j q made pc t)
  obtain n seen where n: "hm_get (ptasks s) i = Some p" "pt_pc p = Awaiting n seen"
    "count_list (calls s) n \<le> seen" "n < fresh_notify s"
    "\<And>k q. hm_get (ptasks s) k = Some q \<Longrightarrow> will_notify (pt_pc q) \<noteq> Some n"
    using Advance.prems by (auto simp: stranded_def)
  note k = get_or_create_step_notify [OF Advance.hyps(2)] and nq = n(5) [OF Advance.hyps(1)]
  have "j \<noteq> i" using Advance.hyps n(1-3) by auto
  moreover have "count_list (calls t) n \<le> seen" using k nq n(3) by auto
  moreover have "will_notify pc \<noteq> Some n" using k nq n(4) by auto
  ultimately show ?case
    using k n by (auto simp: stranded_def set_ptask_def intro!: exI [of _ n])
next
  case (Cancel s j q n)
  then show ?case by (fastforce simp: stranded_def set_ptask_def)
next
  case (Evict s addr)
  then show ?case by (simp add: stranded_def pool_remove_def)
qed

interpretation stranded_waiter: invariant_system "stranded i p" pstep "stranded i p" for i p
  by unfold_locales (auto intro: stranded_step)

text \<open>A scheduler: every entry lets one call for \<open>addr\<close> start or advance.\<close>

definition sched :: "socket_addr \<Rightarrow> endpoint \<Rightarrow> nat \<Rightarrow> pool \<Rightarrow> pool" where
  "sched addr e i s = (case hm_get (ptasks s) i of
     None \<Rightarrow> set_ptask i addr Top s
   | Some p \<Rightarrow> (case get_or_create_step (Inr e) (pt_addr p) (pt_pc p) s of
        Some (pc, t) \<Rightarrow> set_ptask i (pt_addr p) pc t | None \<Rightarrow> s))"

lemma sched_reach:
  "reach (\<lambda>s. s = pool_new) pstep s \<Longrightarrow> reach (\<lambda>s. s = pool_new) pstep (sched addr e i s)"
  by (auto simp: sched_def split: option.split intro: reach_step Call Advance)

lemma fold_sched_reach:
  "reach (\<lambda>s. s = pool_new) pstep s \<Longrightarrow> reach (\<lambda>s. s = pool_new) pstep (fold (sched addr e) is s)"
  by (induction "is" arbitrary: s) (simp_all add: sched_reach)

definition demo_ep :: endpoint where
  "demo_ep = \<lparr>ep_socket = 1, ep_target = \<lparr>sa_ip = IpV4 (Ipv4 9 9 9 9), sa_port = 53\<rparr>, ep_is_ipv6 = True\<rparr>"

text \<open>Call 1 registers its waiter between the creator's insertions into \<open>creating\<close> and into
  \<open>notify_map\<close>; the creator then finishes.\<close>

definition race :: "socket_addr \<Rightarrow> pool" where
  "race addr = fold (sched addr demo_ep) [0, 0, 0, 1, 1, 1, 1, 1, 1, 0, 0, 0, 0, 0, 0] pool_new"

lemma race_value:
  "race addr = \<lparr>cache = [(addr, demo_ep)], creating = [], notify_map = [], fresh_notify = 3, calls = [0],
     ptasks = [(0, \<lparr>pt_addr = addr, pt_pc = Returned (Inr (demo_ep, True))\<rparr>),
               (1, \<lparr>pt_addr = addr, pt_pc = Awaiting 2 0\<rparr>)]\<rparr>"
  by (simp add: race_def sched_def pool_new_def set_ptask_def hm_get_def hm_insert_def hm_remove_def Let_def)

section \<open>Properties\<close>

text \<open>\<^bold>\<open>C12.\<close>  In every interleaving of \<open>get_or_create\<close> calls, cancellations and evictions, an
  address is in \<open>creating\<close> exactly while one call is creating its endpoint, and never two.\<close>

theorem pool_single_creator:
  assumes "reach (\<lambda>s. s = pool_new) pstep s"
  shows "(addr \<in> set (creating s) \<longleftrightarrow> creators s addr \<noteq> {})
    \<and> (i \<in> creators s addr \<and> j \<in> creators s addr \<longrightarrow> i = j)"
  using endpoint_pool.busy_iff_worker [OF assms] endpoint_pool.one_worker [OF assms] by blast

theorem pool_single_creator_witness:
  "creators (fold (sched (ep_target demo_ep) demo_ep) [0, 0, 0, 1, 1, 1] pool_new) (ep_target demo_ep) \<noteq> {}"
proof -
  let ?s = "fold (sched (ep_target demo_ep) demo_ep) [0, 0, 0, 1, 1, 1] pool_new"
  have "reach (\<lambda>s. s = pool_new) pstep ?s" by (intro fold_sched_reach reach_init) simp
  moreover have "ep_target demo_ep \<in> set (creating ?s)"
    by (simp add: sched_def pool_new_def set_ptask_def hm_get_def hm_insert_def Let_def)
  ultimately show ?thesis using pool_single_creator [of ?s "ep_target demo_ep"] by blast
qed

text \<open>A call can be stranded: there is an interleaving after which the endpoint has been
  created and returned to its creator while another call for the same address waits on a
  \<open>Notify\<close> that no later step ever notifies, whatever the other calls do.\<close>

lemma pool_waiter_stranded:
  "\<exists>s p. reach (\<lambda>s. s = pool_new) pstep s \<and> get_socket s addr = Some demo_ep \<and> addr \<notin> set (creating s)
     \<and> hm_get (ptasks s) 1 = Some p \<and> pt_addr p = addr \<and> (\<exists>n seen. pt_pc p = Awaiting n seen)
     \<and> (\<forall>t. pstep\<^sup>*\<^sup>* s t \<longrightarrow> hm_get (ptasks t) 1 = Some p)"
proof (intro exI conjI allI impI)
  show "reach (\<lambda>s. s = pool_new) pstep (race addr)"
    unfolding race_def by (intro fold_sched_reach reach_init) simp
  let ?p = "\<lparr>pt_addr = addr, pt_pc = Awaiting 2 0\<rparr>"
  have st: "stranded 1 ?p (race addr)"
    by (auto simp: stranded_def race_value hm_get_def split: if_splits)
  show "hm_get (ptasks t) 1 = Some ?p" if "pstep\<^sup>*\<^sup>* (race addr) t" for t
    using stranded_waiter.steps_inv [OF that st] by (simp add: stranded_def)
qed (simp_all add: race_value get_socket_def hm_get_def)

lemma pool_waiter_stranded_witness:
  "\<exists>s p n seen. reach (\<lambda>s. s = pool_new) pstep s \<and> get_socket s (ep_target demo_ep) = Some demo_ep
     \<and> hm_get (ptasks s) 1 = Some p \<and> pt_pc p = Awaiting n seen"
  using pool_waiter_stranded [of "ep_target demo_ep"] by blast

section \<open>Datagram frames\<close>

text \<open>The frame of a datagram, and what the address reader of the protocol makes of it.\<close>

lemma response_frame_eq:
  "response_frame addr payload =
     Inr (wire_addr (ip_str (to_canonical (sa_ip addr))) @ u16_to_be (sa_port addr)
       @ u16_to_be (word_of_nat (length payload)) @ payload)"
  by (simp add: response_frame_def from_socket_addr_eq build_trojanc_addr_cached_eq ip_str_host Let_def)

lemma read_response_frame [wire]:
  "read_trojanc_addr_async (wire_addr (ip_str ip) @ u16_to_be port @ rest) = Inr ((ip_str ip, port), rest)"
  by (simp add: read_trojanc_wire ip_str_host)

end
