(* ===== verification/Server_Dns.thy ===== *)
theory Server_Dns
  imports Rust_Net Consts
begin

text \<open>
  \<open>resolve_udp_target\<close> of \<open>server/src/server.rs\<close>: the DNS cache that the UDP streams of a
  connection share, with one lookup in flight per name and port.

  \<^item> The cache is an \<open>IndexMap\<close> of another crate: the record \<open>index_ops\<close> of its operations is a
    parameter, \<open>index_ops_ok\<close> states what its documentation promises of them.
  \<^item> The outcome of \<open>tokio::net::lookup_host\<close> is an argument of the step that awaits it.
  \<^item> \<open>rstep\<close> interleaves any number of calls; a program counter stands between two accesses to
    shared state.  \<open>notified_owned()\<close> is called while the \<open>resolving\<close> lock is held, so the
    number of notifications that a waiter has seen is recorded in the same step that finds the
    entry.
\<close>

section \<open>The cache\<close>

type_synonym dns_key = "string \<times> u16"
type_synonym dns_entry = "socket_addr \<times> nat"

record 'm index_ops =
  im_get :: "'m \<Rightarrow> dns_key \<Rightarrow> dns_entry option"
  im_insert :: "dns_key \<Rightarrow> dns_entry \<Rightarrow> 'm \<Rightarrow> 'm"
  im_swap_remove :: "dns_key \<Rightarrow> 'm \<Rightarrow> 'm"
  im_len :: "'m \<Rightarrow> nat"
  im_first_key :: "'m \<Rightarrow> dns_key option"

definition index_ops_ok :: "'m index_ops \<Rightarrow> bool" where
  "index_ops_ok ops \<longleftrightarrow>
     (\<forall>m k v k'. im_get ops (im_insert ops k v m) k' = (if k' = k then Some v else im_get ops m k'))
     \<and> (\<forall>m k k'. im_get ops (im_swap_remove ops k m) k' = (if k' = k then None else im_get ops m k'))
     \<and> (\<forall>m. finite (dom (im_get ops m)) \<and> im_len ops m = card (dom (im_get ops m)))
     \<and> (\<forall>m. case im_first_key ops m of None \<Rightarrow> im_len ops m = 0 | Some k \<Rightarrow> im_get ops m k \<noteq> None)"

text \<open>The part of the critical section that consults the cache; an entry that is too old is
  removed.\<close>

definition cache_lookup :: "'m index_ops \<Rightarrow> nat \<Rightarrow> dns_key \<Rightarrow> 'm \<Rightarrow> 'm \<times> socket_addr option" where
  "cache_lookup ops now key cache =
     (case im_get ops cache key of
        Some (mapped, timestamp) \<Rightarrow>
          if now - timestamp < udp_dns_cache_ttl then (cache, Some mapped)
          else (im_swap_remove ops key cache, None)
      | None \<Rightarrow> (cache, None))"

text \<open>The second critical section: make room, then insert.\<close>

definition cache_insert :: "'m index_ops \<Rightarrow> nat \<Rightarrow> dns_key \<Rightarrow> socket_addr \<Rightarrow> 'm \<Rightarrow> 'm" where
  "cache_insert ops now key resolved cache =
     (let room = (if max_udp_dns_cache \<le> im_len ops cache
                  then (case im_first_key ops cache of
                          Some oldest_key \<Rightarrow> im_swap_remove ops oldest_key cache | None \<Rightarrow> cache)
                  else cache)
      in im_insert ops key (resolved, now) room)"

section \<open>Calls\<close>

datatype dns_error = DnsTimeout | LookupFailed | NoDnsResult | DnsCancelled

type_synonym dns_result = "dns_error + socket_addr"

datatype dns_pc =
    RTop
  | RWait nat nat
  | RLookup nat
  | RInsert nat socket_addr
  | RDrop nat dns_result
  | RNotify nat dns_result
  | RDone dns_result

record dns_task =
  dt_key :: dns_key
  dt_pc :: dns_pc

record 'm dns =
  dcache :: 'm
  resolving :: "(dns_key, nat) hashmap"
  dfresh :: nat
  dcalls :: "nat list"
  dtasks :: "(nat, dns_task) hashmap"
  answers :: "(dns_key \<times> socket_addr) list"

text \<open>The first lookup of \<open>resolve_udp_target\<close>: an address literal needs no resolution.\<close>

definition literal_target :: "string \<Rightarrow> u16 \<Rightarrow> socket_addr option" where
  "literal_target host port = map_option (\<lambda>ip. \<lparr>sa_ip = ip, sa_port = port\<rparr>) (parse_ip host)"

text \<open>The loop body up to the await: both locks are held.\<close>

definition resolve_top :: "'m index_ops \<Rightarrow> nat \<Rightarrow> dns_key \<Rightarrow> 'm dns \<Rightarrow> dns_pc \<times> 'm dns" where
  "resolve_top ops now key s =
     (case cache_lookup ops now key (dcache s) of
        (cache', Some mapped) \<Rightarrow> (RDone (Inr mapped), s\<lparr>dcache := cache'\<rparr>)
      | (cache', None) \<Rightarrow>
          (case hm_get (resolving s) key of
             Some notify \<Rightarrow> (RWait notify (count_list (dcalls s) notify), s\<lparr>dcache := cache'\<rparr>)
           | None \<Rightarrow> (RLookup (dfresh s),
                     s\<lparr>dcache := cache', resolving := hm_insert key (dfresh s) (resolving s),
                       dfresh := Suc (dfresh s)\<rparr>)))"

definition set_dtask :: "nat \<Rightarrow> dns_key \<Rightarrow> dns_pc \<Rightarrow> 'm dns \<Rightarrow> 'm dns" where
  "set_dtask i key pc s = s\<lparr>dtasks := hm_insert i \<lparr>dt_key = key, dt_pc = pc\<rparr> (dtasks s)\<rparr>"

text \<open>\<open>answers\<close> is history: what the resolver has returned for which query.\<close>

inductive rstep :: "'m index_ops \<Rightarrow> 'm dns \<Rightarrow> 'm dns \<Rightarrow> bool" for ops where
  RCall: "hm_get (dtasks s) i = None \<Longrightarrow> rstep ops s (set_dtask i key RTop s)"
| RStart: "\<lbrakk>hm_get (dtasks s) i = Some p; dt_pc p = RTop; resolve_top ops now (dt_key p) s = (pc, t)\<rbrakk> \<Longrightarrow>
    rstep ops s (set_dtask i (dt_key p) pc t)"
| RWake: "\<lbrakk>hm_get (dtasks s) i = Some p; dt_pc p = RWait n seen; seen < count_list (dcalls s) n\<rbrakk> \<Longrightarrow>
    rstep ops s (set_dtask i (dt_key p) RTop s)"
| RTimeout: "\<lbrakk>hm_get (dtasks s) i = Some p; dt_pc p = RWait n seen\<rbrakk> \<Longrightarrow>
    rstep ops s (set_dtask i (dt_key p) (RDone (Inl DnsTimeout)) s)"
| RAnswer: "\<lbrakk>hm_get (dtasks s) i = Some p; dt_pc p = RLookup n\<rbrakk> \<Longrightarrow>
    rstep ops s (set_dtask i (dt_key p) (RInsert n addr) (s\<lparr>answers := (dt_key p, addr) # answers s\<rparr>))"
| RFail: "\<lbrakk>hm_get (dtasks s) i = Some p; dt_pc p = RLookup n\<rbrakk> \<Longrightarrow>
    rstep ops s (set_dtask i (dt_key p) (RDrop n (Inl err)) s)"
| RStore: "\<lbrakk>hm_get (dtasks s) i = Some p; dt_pc p = RInsert n addr\<rbrakk> \<Longrightarrow>
    rstep ops s (set_dtask i (dt_key p) (RDrop n (Inr addr))
      (s\<lparr>dcache := cache_insert ops now (dt_key p) addr (dcache s)\<rparr>))"
| RRelease: "\<lbrakk>hm_get (dtasks s) i = Some p; dt_pc p = RDrop n r\<rbrakk> \<Longrightarrow>
    rstep ops s (set_dtask i (dt_key p) (RNotify n r) (s\<lparr>resolving := hm_remove (dt_key p) (resolving s)\<rparr>))"
| RWakeAll: "\<lbrakk>hm_get (dtasks s) i = Some p; dt_pc p = RNotify n r\<rbrakk> \<Longrightarrow>
    rstep ops s (set_dtask i (dt_key p) (RDone r) (s\<lparr>dcalls := n # dcalls s\<rparr>))"

definition dns_init :: "'m index_ops \<Rightarrow> 'm dns \<Rightarrow> bool" where
  "dns_init ops s = (im_len ops (dcache s) = 0 \<and> resolving s = [] \<and> dcalls s = [] \<and> dtasks s = [] \<and> answers s = [])"

section \<open>Bounded cache with honest entries\<close>

definition cache_ok :: "'m index_ops \<Rightarrow> (dns_key \<times> socket_addr) list \<Rightarrow> 'm \<Rightarrow> bool" where
  "cache_ok ops hist m = (im_len ops m \<le> max_udp_dns_cache
     \<and> (\<forall>k a at. im_get ops m k = Some (a, at) \<longrightarrow> (k, a) \<in> set hist))"

lemma im_facts:
  assumes "index_ops_ok ops"
  shows "finite (dom (im_get ops m))" "im_len ops m = card (dom (im_get ops m))"
    "im_get ops (im_insert ops k v m) k' = (if k' = k then Some v else im_get ops m k')"
    "im_get ops (im_swap_remove ops k m) k' = (if k' = k then None else im_get ops m k')"
    "case im_first_key ops m of None \<Rightarrow> im_len ops m = 0 | Some k \<Rightarrow> im_get ops m k \<noteq> None"
  using assms unfolding index_ops_ok_def by blast+

lemma dom_remove:
  "index_ops_ok ops \<Longrightarrow> dom (im_get ops (im_swap_remove ops k m)) = dom (im_get ops m) - {k}"
  by (auto simp: im_facts(4) dom_def)

lemma dom_insert:
  "index_ops_ok ops \<Longrightarrow> dom (im_get ops (im_insert ops k v m)) = insert k (dom (im_get ops m))"
  by (auto simp: im_facts(3) dom_def)

lemma remove_len: "index_ops_ok ops \<Longrightarrow> im_len ops (im_swap_remove ops k m) \<le> im_len ops m"
  by (simp add: im_facts(1,2) dom_remove card_Diff1_le)

lemma insert_len: "index_ops_ok ops \<Longrightarrow> im_len ops (im_insert ops k v m) \<le> Suc (im_len ops m)"
  by (simp add: im_facts(1,2) dom_insert card_insert_if)

lemma cache_lookup_ok:
  assumes "index_ops_ok ops" "cache_ok ops hist m" "cache_lookup ops now key m = (m', r)"
  shows "cache_ok ops hist m' \<and> (\<forall>a. r = Some a \<longrightarrow> (key, a) \<in> set hist)"
  using assms remove_len [OF assms(1), of key m]
  by (cases key) (auto simp: cache_lookup_def cache_ok_def im_facts(4) split: option.splits if_splits)

lemma cache_insert_len:
  assumes ok: "index_ops_ok ops" and le: "im_len ops m \<le> max_udp_dns_cache"
  shows "im_len ops (cache_insert ops now key a m) \<le> max_udp_dns_cache"
proof (cases "max_udp_dns_cache \<le> im_len ops m")
  case False
  then show ?thesis using insert_len [OF ok, of key "(a, now)" m] by (simp add: cache_insert_def)
next
  case True
  then have "im_len ops m \<noteq> 0" by (simp add: max_udp_dns_cache_def)
  then obtain k where k: "im_first_key ops m = Some k" "k \<in> dom (im_get ops m)"
    using im_facts(5) [OF ok, of m] by (auto split: option.splits)
  then have "im_len ops (im_swap_remove ops k m) < im_len ops m"
    using ok card_Diff1_less [OF im_facts(1) [OF ok]] by (metis im_facts(2) dom_remove)
  then show ?thesis
    using True k insert_len [OF ok, of key "(a, now)" "im_swap_remove ops k m"] le
    by (simp add: cache_insert_def)
qed

lemma cache_insert_ok:
  assumes "index_ops_ok ops" "cache_ok ops hist m" "(key, a) \<in> set hist"
  shows "cache_ok ops hist (cache_insert ops now key a m)"
  using assms cache_insert_len [OF assms(1), of m now key a]
  by (auto simp: cache_ok_def cache_insert_def Let_def im_facts(3,4) split: option.splits if_splits)

fun dtask_ok :: "(dns_key \<times> socket_addr) list \<Rightarrow> dns_task \<Rightarrow> bool" where
  "dtask_ok hist p = (case dt_pc p of
     RInsert _ a \<Rightarrow> (dt_key p, a) \<in> set hist
   | RDrop _ (Inr a) \<Rightarrow> (dt_key p, a) \<in> set hist
   | RNotify _ (Inr a) \<Rightarrow> (dt_key p, a) \<in> set hist
   | RDone (Inr a) \<Rightarrow> (dt_key p, a) \<in> set hist
   | _ \<Rightarrow> True)"

declare dtask_ok.simps [simp del]

definition dns_inv :: "'m index_ops \<Rightarrow> 'm dns \<Rightarrow> bool" where
  "dns_inv ops s = (cache_ok ops (answers s) (dcache s)
     \<and> (\<forall>i p. hm_get (dtasks s) i = Some p \<longrightarrow> dtask_ok (answers s) p))"

lemma set_dtask_simps [simp]:
  "dcache (set_dtask i k pc s) = dcache s" "answers (set_dtask i k pc s) = answers s"
  "resolving (set_dtask i k pc s) = resolving s" "dcalls (set_dtask i k pc s) = dcalls s"
  "hm_get (dtasks (set_dtask i k pc s)) j = (if j = i then Some \<lparr>dt_key = k, dt_pc = pc\<rparr> else hm_get (dtasks s) j)"
  by (simp_all add: set_dtask_def)

lemma dns_inv_task:
  assumes "dns_inv ops s" "dtasks t = dtasks s" "set (answers s) \<subseteq> set (answers t)"
    and "cache_ok ops (answers t) (dcache t)" "dtask_ok (answers t) \<lparr>dt_key = k, dt_pc = pc\<rparr>"
  shows "dns_inv ops (set_dtask i k pc t)"
proof -
  have "dtask_ok (answers t) p" if "dtask_ok (answers s) p" for p
    using that assms(3) by (auto simp: dtask_ok.simps split: dns_pc.splits sum.splits)
  with assms show ?thesis by (auto simp: dns_inv_def)
qed

lemma cache_ok_mono: "cache_ok ops hist m \<Longrightarrow> set hist \<subseteq> set hist' \<Longrightarrow> cache_ok ops hist' m"
  by (auto simp: cache_ok_def)

lemma dns_inv_step:
  assumes ok: "index_ops_ok ops"
  shows "rstep ops s t \<Longrightarrow> dns_inv ops s \<Longrightarrow> dns_inv ops t"
proof (induction rule: rstep.induct)
  case (RStart s i p now pc t)
  obtain m r where l: "cache_lookup ops now (dt_key p) (dcache s) = (m, r)" by fastforce
  have "cache_ok ops (answers s) m \<and> (\<forall>a. r = Some a \<longrightarrow> (dt_key p, a) \<in> set (answers s))"
    using RStart.prems by (intro cache_lookup_ok [OF ok _ l]) (simp add: dns_inv_def)
  then show ?case
    using RStart l by (intro dns_inv_task [of ops s])
      (auto simp: resolve_top_def dtask_ok.simps split: option.splits)
next
  case (RAnswer s i p n addr)
  then show ?case
    by (intro dns_inv_task [of ops s]) (auto simp: dns_inv_def dtask_ok.simps intro: cache_ok_mono)
next
  case (RStore s i p n addr now)
  then have "(dt_key p, addr) \<in> set (answers s)" by (auto simp: dns_inv_def dtask_ok.simps split: dns_pc.splits)
  with RStore show ?case
    by (intro dns_inv_task [of ops s]) (auto simp: dns_inv_def dtask_ok.simps intro: cache_insert_ok [OF ok])
next
  case (RRelease s i p n r)
  then have "dtask_ok (answers s) p" by (auto simp: dns_inv_def)
  with RRelease show ?case
    by (intro dns_inv_task [of ops s]) (auto simp: dns_inv_def dtask_ok.simps split: sum.splits)
next
  case (RWakeAll s i p n r)
  then have "dtask_ok (answers s) p" by (auto simp: dns_inv_def)
  with RWakeAll show ?case
    by (intro dns_inv_task [of ops s]) (auto simp: dns_inv_def dtask_ok.simps split: sum.splits)
qed (intro dns_inv_task, auto simp: dns_inv_def dtask_ok.simps)+


lemma dns_inv_init: "index_ops_ok ops \<Longrightarrow> dns_init ops s \<Longrightarrow> dns_inv ops s"
  by (auto simp: dns_init_def dns_inv_def cache_ok_def im_facts(2)) (metis card_0_eq domI empty_iff im_facts(1))

section \<open>One lookup per key\<close>

fun leads :: "dns_pc \<Rightarrow> nat option" where
  "leads (RLookup n) = Some n"
| "leads (RInsert n _) = Some n"
| "leads (RDrop n _) = Some n"
| "leads _ = None"

fun will_wake :: "dns_pc \<Rightarrow> nat option" where
  "will_wake (RNotify n _) = Some n"
| "will_wake pc = leads pc"

definition leaders :: "'m dns \<Rightarrow> dns_key \<Rightarrow> nat set" where
  "leaders s k = {i. \<exists>p. hm_get (dtasks s) i = Some p \<and> dt_key p = k \<and> leads (dt_pc p) \<noteq> None}"

definition in_flight_keys :: "'m dns \<Rightarrow> dns_key set" where
  "in_flight_keys s = {k. hm_get (resolving s) k \<noteq> None}"

lemma leaders_set_dtask:
  "leaders (set_dtask i k pc s) =
     (if leads pc \<noteq> None then (\<lambda>a. leaders s a - {i})(k := insert i (leaders s k)) else (\<lambda>a. leaders s a - {i}))"
  by (auto simp: leaders_def fun_eq_iff split: if_splits)

lemma leaders_task: "hm_get (dtasks s) i = Some p \<Longrightarrow>
    i \<in> leaders s k \<longleftrightarrow> k = dt_key p \<and> leads (dt_pc p) \<noteq> None"
  by (auto simp: leaders_def)

lemma leaders_cong: "dtasks s = dtasks t \<Longrightarrow> leaders s = leaders t"
  by (simp add: leaders_def fun_eq_iff)

text \<open>A task that keeps leading, or keeps not leading, leaves the leaders alone.\<close>

lemma leaders_same:
  assumes "hm_get (dtasks s) i = Some p" "dtasks t = dtasks s" "leads pc = None \<longleftrightarrow> leads (dt_pc p) = None"
  shows "leaders (set_dtask i (dt_key p) pc t) = leaders s"
proof -
  have lt: "leaders t = leaders s" using assms(2) by (rule leaders_cong)
  show ?thesis
  proof (rule ext)
    fix k show "leaders (set_dtask i (dt_key p) pc t) k = leaders s k"
      using leaders_task [OF assms(1), of k] assms(3) by (auto simp: leaders_set_dtask lt)
  qed
qed

lemma leaders_enter:
  assumes "hm_get (dtasks s) i = Some p" "dtasks t = dtasks s" "leads pc \<noteq> None" "leads (dt_pc p) = None"
  shows "leaders (set_dtask i (dt_key p) pc t) = (leaders s)(dt_key p := insert i (leaders s (dt_key p)))"
proof -
  have lt: "leaders t = leaders s" using assms(2) by (rule leaders_cong)
  show ?thesis
  proof (rule ext)
    fix k show "leaders (set_dtask i (dt_key p) pc t) k = ((leaders s)(dt_key p := insert i (leaders s (dt_key p)))) k"
      using leaders_task [OF assms(1), of k] assms(3,4) by (auto simp: leaders_set_dtask lt)
  qed
qed

lemma rstep_flight:
  "rstep ops s t \<Longrightarrow> flight_move (in_flight_keys s) (leaders s) (in_flight_keys t) (leaders t)"
proof (induction rule: rstep.induct)
  case (RCall s i key)
  then have "leaders (set_dtask i key RTop s) = leaders s"
    by (auto simp: leaders_def fun_eq_iff)
  then show ?case by (simp add: flight_move_def in_flight_keys_def)
next
  case (RStart s i p now pc t)
  have tk: "dtasks t = dtasks s"
    using RStart.hyps(3) by (auto simp: resolve_top_def split: prod.splits option.splits)
  show ?case
  proof (cases "leads pc")
    case None
    then have "resolving t = resolving s"
      using RStart.hyps(3) by (auto simp: resolve_top_def split: prod.splits option.splits)
    then show ?thesis
      using leaders_same [OF RStart.hyps(1) tk, of pc] None RStart.hyps(2)
      by (simp add: flight_move_def in_flight_keys_def)
  next
    case (Some n)
    then have "hm_get (resolving s) (dt_key p) = None"
      "resolving t = hm_insert (dt_key p) (dfresh s) (resolving s)"
      using RStart.hyps(3) by (auto simp: resolve_top_def split: prod.splits option.splits)
    then have "dt_key p \<notin> in_flight_keys s" "in_flight_keys t = insert (dt_key p) (in_flight_keys s)"
      by (auto simp: in_flight_keys_def)
    then show ?thesis
      using leaders_enter [OF RStart.hyps(1) tk, of pc] Some RStart.hyps(2)
      unfolding flight_move_def
      by (intro disjI2 disjI1 exI [of _ i] exI [of _ "dt_key p"]) (simp add: in_flight_keys_def)
  qed
next
  case (RRelease s i p n r)
  let ?t = "s\<lparr>resolving := hm_remove (dt_key p) (resolving s)\<rparr>"
  have lt: "leaders ?t = leaders s" by (rule leaders_cong) simp
  have "leaders (set_dtask i (dt_key p) (RNotify n r) ?t) =
      (leaders s)(dt_key p := leaders s (dt_key p) - {i})"
    using leaders_task [OF RRelease.hyps(1)] RRelease.hyps(2) by (intro ext) (auto simp: leaders_set_dtask lt)
  moreover have "in_flight_keys (set_dtask i (dt_key p) (RNotify n r) ?t) = in_flight_keys s - {dt_key p}"
    by (auto simp: in_flight_keys_def)
  moreover have "i \<in> leaders s (dt_key p)" using leaders_task [OF RRelease.hyps(1)] RRelease.hyps(2) by simp
  ultimately show ?case
    unfolding flight_move_def by (intro disjI2 exI [of _ i] exI [of _ "dt_key p"]) simp
qed (simp_all add: flight_move_def in_flight_keys_def leaders_same)

interpretation dns_lookup: single_flight "dns_init ops" "rstep ops" in_flight_keys leaders for ops
proof unfold_locales
  show "dns_init ops s \<Longrightarrow> in_flight_keys s = {} \<and> leaders s = (\<lambda>_. {})" for s :: "'a dns"
    by (intro conjI ext) (simp_all add: dns_init_def in_flight_keys_def leaders_def)
qed (rule rstep_flight)

section \<open>Every waiter has a leader that will notify it\<close>

definition wake_inv :: "'m dns \<Rightarrow> bool" where
  "wake_inv s =
     ((\<forall>k n. hm_get (resolving s) k = Some n \<longrightarrow>
         (\<exists>i p. hm_get (dtasks s) i = Some p \<and> dt_key p = k \<and> leads (dt_pc p) = Some n))
      \<and> (\<forall>i p n seen. hm_get (dtasks s) i = Some p \<longrightarrow> dt_pc p = RWait n seen \<longrightarrow>
         seen < count_list (dcalls s) n
         \<or> seen = count_list (dcalls s) n \<and> (\<exists>j q. hm_get (dtasks s) j = Some q \<and> will_wake (dt_pc q) = Some n)))"


text \<open>A step of task \<open>i\<close> that keeps what it will notify, or notifies it.\<close>

lemma wake_inv_task:
  assumes inv: "wake_inv s" and p: "hm_get (dtasks s) i = Some p" and t: "dtasks t = dtasks s"
    and res: "\<And>k n. hm_get (resolving t) k = Some n \<Longrightarrow>
        hm_get (resolving s) k = Some n \<and> (leads (dt_pc p) = Some n \<longrightarrow> k = dt_key p \<longrightarrow> leads pc = Some n)
        \<or> k = dt_key p \<and> leads pc = Some n"
    and calls: "dcalls t = dcalls s \<and> (will_wake (dt_pc p) \<noteq> None \<longrightarrow> will_wake pc = will_wake (dt_pc p))
        \<or> (\<exists>n. will_wake (dt_pc p) = Some n \<and> dcalls t = n # dcalls s)"
    and own: "\<And>n seen. pc = RWait n seen \<Longrightarrow> dcalls t = dcalls s \<and> leads (dt_pc p) = None
        \<and> seen = count_list (dcalls s) n \<and> hm_get (resolving s) (dt_key p) = Some n"
  shows "wake_inv (set_dtask i (dt_key p) pc t)"
proof -
  let ?t = "set_dtask i (dt_key p) pc t"
  have A: "\<exists>j q. hm_get (dtasks ?t) j = Some q \<and> dt_key q = k \<and> leads (dt_pc q) = Some n"
    if "hm_get (resolving ?t) k = Some n" for k n
  proof (cases "k = dt_key p \<and> leads pc = Some n")
    case True
    then show ?thesis by (intro exI [of _ i]) (simp add: t)
  next
    case False
    with res [of k n] that have r: "hm_get (resolving s) k = Some n"
      "leads (dt_pc p) = Some n \<longrightarrow> k \<noteq> dt_key p" by auto
    then obtain j q where "hm_get (dtasks s) j = Some q" "dt_key q = k" "leads (dt_pc q) = Some n"
      using inv unfolding wake_inv_def by blast
    with r p show ?thesis by (intro exI [of _ j] exI [of _ q]) (auto simp: t)
  qed
  have B: "seen < count_list (dcalls ?t) n \<or> seen = count_list (dcalls ?t) n
      \<and> (\<exists>j q. hm_get (dtasks ?t) j = Some q \<and> will_wake (dt_pc q) = Some n)"
    if q: "hm_get (dtasks ?t) j = Some q" "dt_pc q = RWait n seen" for j q n seen
  proof (cases "j = i")
    case True
    then have "pc = RWait n seen" using q by (auto simp: t)
    note o = own [OF this]
    then obtain j' q' where "hm_get (dtasks s) j' = Some q'" "leads (dt_pc q') = Some n"
      using inv unfolding wake_inv_def by blast
    moreover from this have "will_wake (dt_pc q') = Some n" by (cases "dt_pc q'") auto
    ultimately show ?thesis using o p by (intro disjI2 conjI exI [of _ j'] exI [of _ q']) (auto simp: t)
  next
    case False
    then have q: "hm_get (dtasks s) j = Some q" "dt_pc q = RWait n seen" using q by (simp_all add: t)
    then have w: "seen < count_list (dcalls s) n
        \<or> seen = count_list (dcalls s) n \<and> (\<exists>j q. hm_get (dtasks s) j = Some q \<and> will_wake (dt_pc q) = Some n)"
      using inv unfolding wake_inv_def by blast
    from calls show ?thesis
    proof (elim disjE conjE exE)
      assume same: "dcalls t = dcalls s" "will_wake (dt_pc p) \<noteq> None \<longrightarrow> will_wake pc = will_wake (dt_pc p)"
      have "\<exists>j q. hm_get (dtasks ?t) j = Some q \<and> will_wake (dt_pc q) = Some n"
        if h: "hm_get (dtasks s) j' = Some q'" "will_wake (dt_pc q') = Some n" for j' q'
        using h p same(2) by (cases "j' = i") (force simp: t)+
      then show ?thesis using w unfolding set_dtask_simps(4) same(1) by blast
    next
      fix m assume m: "will_wake (dt_pc p) = Some m" "dcalls t = m # dcalls s"
      have "\<exists>j q. hm_get (dtasks ?t) j = Some q \<and> will_wake (dt_pc q) = Some n"
        if h: "hm_get (dtasks s) j' = Some q'" "will_wake (dt_pc q') = Some n" "n \<noteq> m" for j' q'
        using h p m(1) by (cases "j' = i") (force simp: t)+
      moreover have "n \<noteq> m \<Longrightarrow> count_list (dcalls ?t) n = count_list (dcalls s) n" by (simp add: m(2))
      ultimately have "n \<noteq> m \<Longrightarrow> ?thesis" using w by metis
      moreover have "n = m \<Longrightarrow> ?thesis" using w by (auto simp: m(2))
      ultimately show ?thesis by blast
    qed
  qed
  show ?thesis using A B unfolding wake_inv_def by blast
qed

lemma wake_inv_step: "rstep ops s t \<Longrightarrow> wake_inv s \<Longrightarrow> wake_inv t"
proof (induction rule: rstep.induct)
  case (RCall s i key)
  then show ?case unfolding wake_inv_def by (auto; metis option.distinct(1))
next
  case (RStart s i p now pc t)
  have tk: "dtasks t = dtasks s" "dcalls t = dcalls s"
    using RStart.hyps(3) by (auto simp: resolve_top_def split: prod.splits option.splits)
  show ?case
    using RStart.hyps(2,3)
    by (intro wake_inv_task [OF RStart.prems RStart.hyps(1) tk(1)])
      (auto simp: tk resolve_top_def split: prod.splits option.splits if_splits)
next
  case (RWake s i p n seen)
  then show ?case by (intro wake_inv_task [OF RWake.prems RWake.hyps(1)]) auto
next
  case (RTimeout s i p n seen)
  then show ?case by (intro wake_inv_task [OF RTimeout.prems RTimeout.hyps(1)]) auto
next
  case (RAnswer s i p n addr)
  then show ?case by (intro wake_inv_task [OF RAnswer.prems RAnswer.hyps(1)]) auto
next
  case (RFail s i p n err)
  then show ?case by (intro wake_inv_task [OF RFail.prems RFail.hyps(1)]) auto
next
  case (RStore s i p n addr now)
  then show ?case by (intro wake_inv_task [OF RStore.prems RStore.hyps(1)]) auto
next
  case (RRelease s i p n r)
  then show ?case
    by (intro wake_inv_task [OF RRelease.prems RRelease.hyps(1)]) (auto split: if_splits)
next
  case (RWakeAll s i p n r)
  then show ?case by (intro wake_inv_task [OF RWakeAll.prems RWakeAll.hyps(1)]) auto
qed

interpretation dns_waiters: invariant_system "dns_init ops" "rstep ops" wake_inv for ops
proof unfold_locales
  show "dns_init ops s \<Longrightarrow> wake_inv s" for s :: "'a dns" by (simp add: dns_init_def wake_inv_def)
qed (rule wake_inv_step)


section \<open>Properties\<close>

text \<open>A concrete cache: an association list whose first entry is the first key.\<close>

definition alist_ops :: "(dns_key \<times> dns_entry) list index_ops" where
  "alist_ops = \<lparr>im_get = map_of, im_insert = AList.update, im_swap_remove = AList.delete,
     im_len = (\<lambda>m. length (remdups (map fst m))),
     im_first_key = (\<lambda>m. case m of [] \<Rightarrow> None | (k, _) # _ \<Rightarrow> Some k)\<rparr>"

lemma alist_ops_ok: "index_ops_ok alist_ops"
  unfolding index_ops_ok_def
proof (intro conjI allI)
  fix m :: "(dns_key \<times> dns_entry) list"
  show "finite (dom (im_get alist_ops m))" by (simp add: alist_ops_def finite_dom_map_of)
  show "im_len alist_ops m = card (dom (im_get alist_ops m))"
    by (simp add: alist_ops_def dom_map_of_conv_image_fst length_remdups_card_conv)
  show "case im_first_key alist_ops m of None \<Rightarrow> im_len alist_ops m = 0 | Some k \<Rightarrow> im_get alist_ops m k \<noteq> None"
    by (cases m) (auto simp: alist_ops_def)
qed (simp_all add: alist_ops_def update_conv delete_conv)

text \<open>One call for a name, answered and cached, and a second one that hits the cache.\<close>

definition demo_addr :: socket_addr where
  "demo_addr = \<lparr>sa_ip = IpV4 (Ipv4 9 9 9 9), sa_port = 53\<rparr>"

definition demo_dns :: "dns_pc \<Rightarrow> (dns_key \<times> dns_entry) list dns" where
  "demo_dns pc = \<lparr>dcache = [((''a.b'', 53), (demo_addr, 7))], resolving = [((''a.b'', 53), 0)], dfresh = 1,
     dcalls = [], dtasks = [(0, \<lparr>dt_key = (''a.b'', 53), dt_pc = RDrop 0 (Inr demo_addr)\<rparr>),
       (1, \<lparr>dt_key = (''a.b'', 53), dt_pc = pc\<rparr>)], answers = [((''a.b'', 53), demo_addr)]\<rparr>"

lemmas dns_demo_defs = demo_dns_def set_dtask_def hm_get_def hm_insert_def resolve_top_def cache_lookup_def
  cache_insert_def alist_ops_def max_udp_dns_cache_def udp_dns_cache_ttl_def

lemma demo_dns_reach:
  "reach (dns_init alist_ops) (rstep alist_ops) (demo_dns (RDone (Inr demo_addr)))"
  "reach (dns_init alist_ops) (rstep alist_ops) (demo_dns (RWait 0 0))"
proof -
  let ?k = "(''a.b'', 53 :: u16)"
  let ?t = "\<lambda>pc. \<lparr>dt_key = ?k, dt_pc = pc\<rparr>"
  let ?s = "\<lambda>c r f ts as. \<lparr>dcache = c, resolving = r, dfresh = f, dcalls = [], dtasks = ts, answers = as\<rparr> ::
    (dns_key \<times> dns_entry) list dns"
  let ?R = "reach (dns_init alist_ops) (rstep alist_ops)"
  have "?R (?s [] [] 0 [] [])"
    by (rule reach_init) (simp add: dns_init_def alist_ops_def)
  moreover have "rstep alist_ops (?s [] [] 0 [] []) (?s [] [] 0 [(0, ?t RTop)] [])"
    using RCall [of "?s [] [] 0 [] []" 0 alist_ops ?k] by (simp add: dns_demo_defs)
  moreover have "rstep alist_ops (?s [] [] 0 [(0, ?t RTop)] []) (?s [] [(?k, 0)] 1 [(0, ?t (RLookup 0))] [])"
    using RStart [OF _ _ surjective_pairing, of "?s [] [] 0 [(0, ?t RTop)] []" 0 "?t RTop" alist_ops 3]
    by (simp add: dns_demo_defs)
  ultimately have R1: "?R (?s [] [(?k, 0)] 1 [(0, ?t (RLookup 0))] [])" by (blast intro: reach_step)
  let ?s1 = "?s [] [(?k, 0)] 1 [(0, ?t (RLookup 0)), (1, ?t RTop)] []"
  have "rstep alist_ops (?s [] [(?k, 0)] 1 [(0, ?t (RLookup 0))] []) ?s1"
    using RCall [of "?s [] [(?k, 0)] 1 [(0, ?t (RLookup 0))] []" 1 alist_ops ?k] by (simp add: dns_demo_defs)
  then have R2: "?R ?s1" using R1 by (blast intro: reach_step)
  let ?wait = "\<lambda>pc c as. ?s c [(?k, 0)] 1 [(0, ?t pc), (1, ?t (RWait 0 0))] as"
  have w1: "rstep alist_ops ?s1 (?wait (RLookup 0) [] [])"
    using RStart [OF _ _ surjective_pairing, of ?s1 1 "?t RTop" alist_ops 4] by (simp add: dns_demo_defs)
  have w2: "rstep alist_ops (?wait (RLookup 0) [] []) (?wait (RInsert 0 demo_addr) [] [(?k, demo_addr)])"
    using RAnswer [of "?wait (RLookup 0) [] []" 0 _ 0 alist_ops demo_addr] by (simp add: dns_demo_defs)
  have w3: "rstep alist_ops (?wait (RInsert 0 demo_addr) [] [(?k, demo_addr)]) (demo_dns (RWait 0 0))"
    using RStore [of "?wait (RInsert 0 demo_addr) [] [(?k, demo_addr)]" 0 _ 0 demo_addr alist_ops 7]
    by (simp add: dns_demo_defs)
  show "?R (demo_dns (RWait 0 0))" using R2 w1 w2 w3 by (blast intro: reach_step)
  let ?hit = "\<lambda>pc c as. ?s c [(?k, 0)] 1 [(0, ?t pc), (1, ?t RTop)] as"
  have h1: "rstep alist_ops ?s1 (?hit (RInsert 0 demo_addr) [] [(?k, demo_addr)])"
    using RAnswer [of ?s1 0 _ 0 alist_ops demo_addr] by (simp add: dns_demo_defs)
  have h2: "rstep alist_ops (?hit (RInsert 0 demo_addr) [] [(?k, demo_addr)]) (demo_dns RTop)"
    using RStore [of "?hit (RInsert 0 demo_addr) [] [(?k, demo_addr)]" 0 _ 0 demo_addr alist_ops 7]
    by (simp add: dns_demo_defs)
  have h3: "rstep alist_ops (demo_dns RTop) (demo_dns (RDone (Inr demo_addr)))"
    using RStart [OF _ _ surjective_pairing, of "demo_dns RTop" 1 "?t RTop" alist_ops 9]
    by (simp add: dns_demo_defs)
  show "?R (demo_dns (RDone (Inr demo_addr)))" using R2 h1 h2 h3 by (blast intro: reach_step)
qed

text \<open>\<^bold>\<open>C13.\<close>  In every interleaving the cache holds at most \<open>MAX_UDP_DNS_CACHE\<close> entries, and a call
  only returns an address that the resolver has given for that very name and port, cached or
  not.\<close>

theorem dns_sound:
  assumes "index_ops_ok ops" "reach (dns_init ops) (rstep ops) s"
  shows "im_len ops (dcache s) \<le> 256
    \<and> (hm_get (dtasks s) i = Some p \<and> dt_pc p = RDone (Inr a) \<longrightarrow> (dt_key p, a) \<in> set (answers s))"
proof -
  have "dns_inv ops s"
    using assms(2)
  proof (induction rule: reach.induct)
    case (reach_init s)
    then show ?case by (rule dns_inv_init [OF assms(1)])
  next
    case (reach_step s t)
    then show ?case by (blast intro: dns_inv_step [OF assms(1)])
  qed
  then have "im_len ops (dcache s) \<le> 256"
    "hm_get (dtasks s) i = Some p \<Longrightarrow> dtask_ok (answers s) p"
    by (simp_all add: dns_inv_def cache_ok_def max_udp_dns_cache_def)
  then show ?thesis by (auto simp: dtask_ok.simps)
qed

theorem dns_sound_witness:
  "im_len alist_ops (dcache (demo_dns (RDone (Inr demo_addr)))) \<le> 256
   \<and> ((''a.b'', 53), demo_addr) \<in> set (answers (demo_dns (RDone (Inr demo_addr))))"
  using dns_sound [OF alist_ops_ok demo_dns_reach(1), of 1 _ demo_addr]
  by (simp add: demo_dns_def hm_get_def)

text \<open>At most one call per name and port is looking it up, and \<open>dns_resolving\<close> has an
  entry exactly while there is one.\<close>

lemma dns_single_lookup:
  assumes "reach (dns_init ops) (rstep ops) s"
  shows "(hm_get (resolving s) k \<noteq> None \<longleftrightarrow> leaders s k \<noteq> {})
    \<and> (i \<in> leaders s k \<and> j \<in> leaders s k \<longrightarrow> i = j)"
  using dns_lookup.busy_iff_worker [OF assms, of k] dns_lookup.one_worker [OF assms]
  unfolding in_flight_keys_def by blast

lemma dns_single_lookup_witness:
  "leaders (demo_dns (RWait 0 0)) (''a.b'', 53) \<noteq> {}"
  using dns_single_lookup [OF demo_dns_reach(2), of "(''a.b'', 53)"]
  by (simp add: demo_dns_def hm_get_def)

text \<open>No waiting call is forgotten: in every interleaving, a call that waits has either
  been notified already, or another call still holds the \<open>Notify\<close> it waits on and will notify
  it when it finishes, fails or is cancelled.\<close>

lemma dns_waiter_not_stranded:
  assumes "reach (dns_init ops) (rstep ops) s" "hm_get (dtasks s) i = Some p" "dt_pc p = RWait n seen"
  shows "seen < count_list (dcalls s) n \<or> (\<exists>j q. hm_get (dtasks s) j = Some q \<and> will_wake (dt_pc q) = Some n)"
  using dns_waiters.reach_inv [OF assms(1)] assms(2,3) unfolding wake_inv_def by blast

lemma dns_waiter_not_stranded_witness:
  "\<exists>j q. hm_get (dtasks (demo_dns (RWait 0 0))) j = Some q \<and> will_wake (dt_pc q) = Some 0"
  using dns_waiter_not_stranded [OF demo_dns_reach(2), of 1 _ 0 0] by (simp add: demo_dns_def hm_get_def)

end
