(* ===== verification/Server_Udp.thy ===== *)
theory Server_Udp
  imports Server_Session Udp_Pool Server_Dns
begin

text \<open>
  \<open>handle_udp_relay\<close> of \<open>server/src/server.rs\<close>: UDP over a stream, from the client to the
  targets.  The other direction is \<open>relay_responses\<close>.

  The stream is the list of bytes it delivers; what is sent is the list of destinations and
  payloads handed to \<open>send_to_addr\<close>.  \<open>resolve i host port\<close> is the result of the \<open>i\<close>-th call of
  \<open>resolve_udp_target\<close>, \<open>send_ok i\<close> the success of the \<open>i\<close>-th send.
\<close>

datatype udp_relay_error =
    UdpProto proto_error
  | UdpResolve dns_error
  | UdpDial
  | UdpSend

type_synonym sends = "(socket_addr \<times> bytes) list"

record net_env =
  resolve :: "nat \<Rightarrow> string \<Rightarrow> u16 \<Rightarrow> dns_error + socket_addr"
  send_ok :: "nat \<Rightarrow> bool"
  remote_is_ipv6 :: bool

text \<open>\<open>local_resolved\<close>: host to port to address.\<close>

type_synonym resolved = "(string, (u16, socket_addr) hashmap) hashmap"

definition resolved_get :: "resolved \<Rightarrow> string \<Rightarrow> u16 \<Rightarrow> socket_addr option" where
  "resolved_get m host port =
     (case hm_get m host of Some ports \<Rightarrow> hm_get ports port | None \<Rightarrow> None)"

definition resolved_insert :: "string \<Rightarrow> u16 \<Rightarrow> socket_addr \<Rightarrow> resolved \<Rightarrow> resolved" where
  "resolved_insert host port a m =
     (let ports = (case hm_get m host of Some ports \<Rightarrow> ports | None \<Rightarrow> []) in
      hm_insert host (hm_insert port a ports) m)"

lemma resolved_get_insert [simp]:
  "resolved_get (resolved_insert h p a m) h' p' = (if h' = h \<and> p' = p then Some a else resolved_get m h' p')"
  by (auto simp: resolved_get_def resolved_insert_def Let_def split: option.splits)

text \<open>The payload of one datagram: two bytes of length, then the data.\<close>

definition read_payload :: "bytes \<Rightarrow> proto_error + (bytes \<times> bytes)" where
  "read_payload bs =
     and_then (read_exact 2 bs) (\<lambda>(lb, bs). read_exact (unat (u16_of_be (lb ! 0) (lb ! 1))) bs)"

lemma read_payload_length: "read_payload bs = Inr (d, rest) \<Longrightarrow> length rest \<le> length bs"
  by (auto simp: read_payload_def and_then_eq_Inr dest!: read_exact_length)

text \<open>The loop of the task \<open>quic_to_remote\<close>; \<open>i\<close> counts the resolver calls, \<open>j\<close> the sends.  Any
  failure ends it.\<close>

function quic_to_remote :: "net_env \<Rightarrow> nat \<Rightarrow> nat \<Rightarrow> string \<Rightarrow> resolved \<Rightarrow> bytes \<Rightarrow> sends" where
  "quic_to_remote env i j t_addr_buf local_resolved bs =
     (case read_trojanc_addr_into_async t_addr_buf bs of
        (_, Inl _) \<Rightarrow> []
      | (t_addr, Inr (t_port, rest)) \<Rightarrow>
          (case read_payload rest of
             Inl _ \<Rightarrow> []
           | Inr (payload, rest') \<Rightarrow>
               (case resolved_get local_resolved t_addr t_port of
                  Some cached \<Rightarrow>
                    (if send_ok env j
                     then (send_to_addr cached (remote_is_ipv6 env), payload)
                          # quic_to_remote env i (Suc j) t_addr local_resolved rest'
                     else [])
                | None \<Rightarrow>
                    (case resolve env i t_addr t_port of
                       Inl _ \<Rightarrow> []
                     | Inr addr \<Rightarrow>
                         (if send_ok env j
                          then (send_to_addr addr (remote_is_ipv6 env), payload)
                               # quic_to_remote env (Suc i) (Suc j) t_addr
                                   (resolved_insert t_addr t_port addr local_resolved) rest'
                          else [])))))"
  by pat_completeness auto
termination
  by (relation "measure (\<lambda>(env, i, j, h, m, bs). length bs)")
    (auto dest!: read_into_length [OF sym] read_payload_length)

declare quic_to_remote.simps [simp del]

text \<open>\<open>dial_ok\<close>: the socket could be bound.\<close>

definition handle_udp_relay :: "net_env \<Rightarrow> bool \<Rightarrow> bool \<Rightarrow> bytes \<Rightarrow> sends \<times> (udp_relay_error + unit)" where
  "handle_udp_relay env dial_ok disable_udp_443 bs =
     (case read_trojanc_addr_async bs of
        Inl e \<Rightarrow> ([], Inl (UdpProto e))
      | Inr ((first_host, first_port), bs1) \<Rightarrow>
          if disable_udp_443 \<and> first_port = 443 then ([], Inr ())
          else (case resolve env 0 first_host first_port of
             Inl e \<Rightarrow> ([], Inl (UdpResolve e))
           | Inr first_target_addr \<Rightarrow>
               if \<not> dial_ok then ([], Inl UdpDial)
               else (case read_payload bs1 of
                  Inl e \<Rightarrow> ([], Inl (UdpProto e))
                | Inr (data, bs2) \<Rightarrow>
                    if \<not> send_ok env 0 then ([], Inl UdpSend)
                    else ((send_to_addr first_target_addr (remote_is_ipv6 env), data)
                            # quic_to_remote env 1 1 [] [] bs2, Inr ()))))"

section \<open>Frames in order\<close>

text \<open>One datagram on the stream, as the client writes it.\<close>

definition datagram_frame :: "string \<times> u16 \<times> bytes \<Rightarrow> bytes" where
  "datagram_frame d = (case d of (host, port, payload) \<Rightarrow>
     wire_addr host @ u16_to_be port @ u16_to_be (word_of_nat (length payload)) @ payload)"

definition datagram_ok :: "string \<times> u16 \<times> bytes \<Rightarrow> bool" where
  "datagram_ok d = (case d of (host, port, payload) \<Rightarrow>
     rust_str host \<and> encodable_host host \<and> length payload \<le> max_udp_payload)"

lemma read_payload_frame:
  assumes "length payload \<le> max_udp_payload"
  shows "read_payload (u16_to_be (word_of_nat (length payload)) @ payload @ rest) = Inr (payload, rest)"
proof -
  let ?w = "word_of_nat (length payload) :: u16"
  have "unat ?w = length payload"
    using assms by (simp add: max_udp_payload_def unat_of_nat)
  moreover have "u16_of_be (u16_to_be ?w ! 0) (u16_to_be ?w ! 1) = ?w" by simp
  ultimately show ?thesis by (simp add: read_payload_def)
qed

definition relayed :: "(string \<Rightarrow> u16 \<Rightarrow> socket_addr) \<Rightarrow> bool \<Rightarrow> string \<times> u16 \<times> bytes \<Rightarrow> socket_addr \<times> bytes" where
  "relayed lookup v6 d = (case d of (host, port, payload) \<Rightarrow>
     (send_to_addr (lookup (canonical_host host) port) v6, payload))"

text \<open>The environment resolves every name as \<open>lookup\<close> does and never fails to send.\<close>

definition env_steady :: "(string \<Rightarrow> u16 \<Rightarrow> socket_addr) \<Rightarrow> net_env \<Rightarrow> bool" where
  "env_steady lookup env = ((\<forall>i h p. resolve env i h p = Inr (lookup h p)) \<and> (\<forall>j. send_ok env j))"

lemma quic_to_remote_end: "quic_to_remote env i j buf m [] = []"
  by (subst quic_to_remote.simps)
    (simp add: read_trojanc_addr_into_async_def read_exact_def take_exact_def)

lemma quic_to_remote_frames:
  assumes "env_steady lookup env" "\<forall>d \<in> set ds. datagram_ok d"
    and "\<And>h p a. resolved_get m h p = Some a \<Longrightarrow> a = lookup h p"
  shows "quic_to_remote env i j buf m (concat (map datagram_frame ds)) = map (relayed lookup (remote_is_ipv6 env)) ds"
  using assms(2,3)
proof (induction ds arbitrary: i j buf m)
  case Nil
  then show ?case by (simp add: quic_to_remote_end)
next
  case (Cons d ds)
  obtain host port payload where d: "d = (host, port, payload)" by (metis prod_cases3)
  let ?rest = "concat (map datagram_frame ds)"
  have ok: "rust_str host" "encodable_host host" "length payload \<le> max_udp_payload"
    using Cons.prems(1) by (auto simp: d datagram_ok_def)
  let ?pl = "u16_to_be (word_of_nat (length payload)) @ payload @ ?rest"
  have "read_trojanc_addr_async (datagram_frame d @ ?rest) = Inr ((canonical_host host, port), ?pl)"
    using read_trojanc_wire [OF ok(1,2), of port ?pl] by (simp add: d datagram_frame_def)
  note hdr = read_into_Inr [OF this, of buf]
  note pl = read_payload_frame [OF ok(3), of ?rest]
  have env: "resolve env i h p = Inr (lookup h p)" "send_ok env j" for i j h p
    using assms(1) by (simp_all add: env_steady_def)
  have IH: "quic_to_remote env i' j' buf' m' ?rest = map (relayed lookup (remote_is_ipv6 env)) ds"
    if "\<And>h p a. resolved_get m' h p = Some a \<Longrightarrow> a = lookup h p" for i' j' buf' m'
    using Cons.prems(1) that by (intro Cons.IH) auto
  show ?case
  proof (cases "resolved_get m (canonical_host host) port")
    case None
    let ?m = "resolved_insert (canonical_host host) port (lookup (canonical_host host) port) m"
    have "quic_to_remote env (Suc i) (Suc j) (canonical_host host) ?m ?rest =
        map (relayed lookup (remote_is_ipv6 env)) ds"
      by (rule IH) (auto split: if_splits dest: Cons.prems(2))
    then show ?thesis
      using hdr pl env None by (subst quic_to_remote.simps) (simp add: d relayed_def)
  next
    case (Some a)
    then show ?thesis
      using hdr pl env IH Cons.prems(2)
      by (subst quic_to_remote.simps) (simp add: d relayed_def)
  qed
qed

lemma udp_relay_frames:
  assumes "env_steady lookup env" "\<forall>d \<in> set ((host, port, payload) # ds). datagram_ok d" "\<not> (disable \<and> port = 443)"
  shows "handle_udp_relay env True disable (concat (map datagram_frame ((host, port, payload) # ds))) =
    (map (relayed lookup (remote_is_ipv6 env)) ((host, port, payload) # ds), Inr ())"
proof -
  let ?rest = "concat (map datagram_frame ds)"
  have ok: "rust_str host" "encodable_host host" "length payload \<le> max_udp_payload"
    using assms(2) by (auto simp: datagram_ok_def)
  let ?pl = "u16_to_be (word_of_nat (length payload)) @ payload @ ?rest"
  have "read_trojanc_addr_async (datagram_frame (host, port, payload) @ ?rest) = Inr ((canonical_host host, port), ?pl)"
    using read_trojanc_wire [OF ok(1,2), of port ?pl] by (simp add: datagram_frame_def)
  moreover have "quic_to_remote env 1 1 [] [] ?rest = map (relayed lookup (remote_is_ipv6 env)) ds"
    using assms(1,2) by (intro quic_to_remote_frames) (auto simp: resolved_get_def)
  ultimately show ?thesis
    using assms(1,3) read_payload_frame [OF ok(3), of ?rest]
    by (auto simp: handle_udp_relay_def env_steady_def relayed_def)
qed

section \<open>Properties\<close>

text \<open>Every datagram that the client frames on the stream is sent, in order and with its
  payload unchanged, to the resolved address of its own host and port; caching resolved
  addresses per stream makes no difference.\<close>

lemma udp_relay_in_order:
  assumes "env_steady lookup env" "\<forall>d \<in> set ((host, port, payload) # ds). datagram_ok d" "\<not> (disable \<and> port = 443)"
  shows "handle_udp_relay env True disable (concat (map datagram_frame ((host, port, payload) # ds))) =
    (map (relayed lookup (remote_is_ipv6 env)) ((host, port, payload) # ds), Inr ())"
  using assms by (rule udp_relay_frames)

definition demo_env :: net_env where
  "demo_env = \<lparr>resolve = (\<lambda>i h p. Inr \<lparr>sa_ip = IpV4 (Ipv4 9 9 9 9), sa_port = p\<rparr>), send_ok = (\<lambda>_. True),
     remote_is_ipv6 = True\<rparr>"

lemma demo_env_steady: "env_steady (\<lambda>h p. \<lparr>sa_ip = IpV4 (Ipv4 9 9 9 9), sa_port = p\<rparr>) demo_env"
  by (simp add: env_steady_def demo_env_def)

lemma demo_datagrams_ok:
  "\<forall>d \<in> set [(''ab'', 53 :: u16, [1, 2] :: bytes), (''cd'', 443, [3])]. datagram_ok d"
  by (simp add: datagram_ok_def encodable_host_def contains_char_def max_udp_payload_def) (simp add: rust_str_ascii)

text \<open>\<open>disable_outbound_udp443\<close> only looks at the first datagram of a stream: whenever
  that one goes to another port, the whole relay behaves as if the option were off, whatever
  ports the later datagrams name.\<close>

lemma udp443_block_first_only:
  assumes "read_trojanc_addr_async bs = Inr ((first_host, first_port), rest)" "first_port \<noteq> 443"
  shows "handle_udp_relay env dial_ok True bs = handle_udp_relay env dial_ok False bs"
  using assms by (simp add: handle_udp_relay_def)

lemma udp443_block_first_only_witness:
  "handle_udp_relay demo_env True True (concat (map datagram_frame [(''ab'', 53, [1, 2]), (''cd'', 443, [3])])) =
   handle_udp_relay demo_env True False (concat (map datagram_frame [(''ab'', 53, [1, 2]), (''cd'', 443, [3])]))"
proof -
  let ?rest = "u16_to_be 2 @ [1, 2] @ datagram_frame (''cd'', 443, [3])"
  have "read_trojanc_addr_async (wire_addr ''ab'' @ u16_to_be 53 @ ?rest) = Inr ((canonical_host ''ab'', 53), ?rest)"
    using demo_datagrams_ok by (intro read_trojanc_wire) (auto simp: datagram_ok_def)
  then show ?thesis
    using udp443_block_first_only [of _ "canonical_host ''ab''" 53 ?rest demo_env True]
    by (simp add: datagram_frame_def)
qed

end
