(* ===== verification/Demux.thy ===== *)
theory Demux
  imports Rust_Net Crypto
begin

unbundle bit_operations_syntax

text \<open>
  \<open>server/src/underlay_socket.rs\<close>: \<open>DemuxUdpSocket\<close>, the UDP socket that hands QUIC datagrams
  to Quinn and queues everything else for the underlay.

  \<^item> A receive slot is a buffer with its \<open>RecvMeta\<close>; \<open>bufs.swap\<close> and \<open>meta.swap\<close> always go
    together, so the two arrays are one list of slots.
  \<^item> The wrapped socket is a parameter: what its successive \<open>poll_recv\<close> calls return, each with
    the slots it has filled.  By the contract of \<open>AsyncUdpSocket\<close> it registers the waker
    exactly when it returns \<open>Pending\<close>.
  \<^item> The bounded channel to the underlay is its queue; \<open>try_send\<close> fails when it is full or the
    receiver is gone.
  \<^item> Slicing a buffer past its end panics: \<open>None\<close>.
\<close>

section \<open>Data\<close>

record underlay_packet =
  up_peer :: socket_addr
  up_payload :: bytes

record recv_meta =
  rm_addr :: socket_addr
  rm_len :: nat
  rm_stride :: nat

type_synonym slot = "bytes \<times> recv_meta"

definition UNDERLAY_CHANNEL_CAPACITY :: nat where "UNDERLAY_CHANNEL_CAPACITY = 4096"
definition MAX_DEMUX_BATCHES_PER_POLL :: nat where "MAX_DEMUX_BATCHES_PER_POLL = 2"
definition MAX_IDLE_POLL_BEFORE_YIELD :: nat where "MAX_IDLE_POLL_BEFORE_YIELD = 1"

record demux =
  chan :: "underlay_packet list"
  chan_closed :: bool
  idle_poll_count :: nat
  dropped :: u64
  woken :: bool

definition demux_new :: demux where
  "demux_new = \<lparr>chan = [], chan_closed = False, idle_poll_count = 0, dropped = 0, woken = False\<rparr>"

datatype 'e inner_poll =
    InnerPending
  | InnerErr 'e
  | InnerReady "slot list" nat

datatype 'e poll_result = Pending | ReadyErr 'e | ReadyOk nat

section \<open>Operations\<close>

definition is_probably_quic_packet :: "bytes \<Rightarrow> bool" where
  "is_probably_quic_packet packet =
     (if packet = [] then False else hd packet AND 0x40 = 0x40)"

definition buf_slice :: "bytes \<Rightarrow> nat \<Rightarrow> nat \<Rightarrow> bytes option" where
  "buf_slice buf a b = (if a \<le> b \<and> b \<le> length buf then Some (take (b - a) (drop a buf)) else None)"

definition try_send :: "underlay_packet \<Rightarrow> demux \<Rightarrow> demux" where
  "try_send p d =
     (if chan_closed d \<or> UNDERLAY_CHANNEL_CAPACITY \<le> length (chan d)
      then d\<lparr>dropped := dropped d + 1\<rparr> else d\<lparr>chan := chan d @ [p]\<rparr>)"

text \<open>The \<open>while offset < meta[i].len\<close> loop.\<close>

function queue_segments :: "bytes \<Rightarrow> recv_meta \<Rightarrow> nat \<Rightarrow> demux \<Rightarrow> demux option" where
  "queue_segments buf m offset d =
     (if offset < rm_len m
      then let stride = max (rm_stride m) 1;
               end_off = min (offset + stride) (rm_len m)
           in case buf_slice buf offset end_off of
                None \<Rightarrow> None
              | Some payload \<Rightarrow>
                  queue_segments buf m end_off (try_send \<lparr>up_peer = rm_addr m, up_payload = payload\<rparr> d)
      else Some d)"
  by pat_completeness auto
termination
  by (relation "measure (\<lambda>(buf, m, offset, d). rm_len m - offset)") auto

declare queue_segments.simps [simp del]

definition swap_slots :: "nat \<Rightarrow> nat \<Rightarrow> slot list \<Rightarrow> slot list" where
  "swap_slots a b ss = ss[a := ss ! b, b := ss ! a]"

text \<open>The \<open>for i in 0..msgs\<close> loop: \<open>n\<close> messages from index \<open>i\<close> on are left.\<close>

fun demux_batch :: "nat \<Rightarrow> nat \<Rightarrow> nat \<Rightarrow> slot list \<Rightarrow> demux \<Rightarrow> (nat \<times> slot list \<times> demux) option" where
  "demux_batch 0 i keep ss d = Some (keep, ss, d)"
| "demux_batch (Suc n) i keep ss d =
     (if length ss \<le> i then None
      else let (buf, m) = ss ! i in
        case buf_slice buf 0 (min (rm_stride m) (rm_len m)) of
          None \<Rightarrow> None
        | Some first_pkt \<Rightarrow>
            if is_probably_quic_packet first_pkt
            then demux_batch n (Suc i) (Suc keep) (if keep \<noteq> i then swap_slots keep i ss else ss) d
            else (case queue_segments buf m 0 d of
                    None \<Rightarrow> None
                  | Some d' \<Rightarrow> demux_batch n (Suc i) keep ss d'))"

text \<open>The outer loop: at most \<open>n\<close> more batches, the wrapped socket answering in the given
  order.  The result carries the slots Quinn will read.\<close>

fun poll_batches :: "nat \<Rightarrow> 'e inner_poll list \<Rightarrow> demux \<Rightarrow>
    ('e poll_result \<times> slot list \<times> demux) option" where
  "poll_batches 0 inner d =
     (let idle_count = idle_poll_count d;
          d1 = d\<lparr>idle_poll_count := Suc idle_count\<rparr>
      in if MAX_IDLE_POLL_BEFORE_YIELD \<le> idle_count
         then Some (Pending, [], d1\<lparr>idle_poll_count := 0\<rparr>)
         else Some (Pending, [], d1\<lparr>woken := True\<rparr>))"
| "poll_batches (Suc n) [] d = None"
| "poll_batches (Suc n) (InnerPending # inner) d =
     Some (Pending, [], d\<lparr>idle_poll_count := 0, woken := True\<rparr>)"
| "poll_batches (Suc n) (InnerErr e # inner) d = Some (ReadyErr e, [], d)"
| "poll_batches (Suc n) (InnerReady ss msgs # inner) d =
     (case demux_batch msgs 0 0 ss d of
        None \<Rightarrow> None
      | Some (keep, ss', d') \<Rightarrow>
          if 0 < keep then Some (ReadyOk keep, ss', d'\<lparr>idle_poll_count := 0\<rparr>)
          else poll_batches n inner d')"

text \<open>\<open>woken\<close> says whether, after the call, something will wake the polling task again: the
  wrapped socket has registered its waker, or it has been woken here.\<close>

definition poll_recv :: "'e inner_poll list \<Rightarrow> demux \<Rightarrow> ('e poll_result \<times> slot list \<times> demux) option" where
  "poll_recv inner d = poll_batches MAX_DEMUX_BATCHES_PER_POLL inner (d\<lparr>woken := False\<rparr>)"

section \<open>Reference: split a batch by filtering\<close>

function chunks :: "nat \<Rightarrow> 'a list \<Rightarrow> 'a list list" where
  "chunks n xs = (if xs = [] then [] else take (max n 1) xs # chunks n (drop (max n 1) xs))"
  by pat_completeness auto
termination
  by (relation "measure (\<lambda>(n, xs). length xs)") auto

declare chunks.simps [simp del]

definition quic_slot :: "slot \<Rightarrow> bool" where
  "quic_slot s = is_probably_quic_packet (take (min (rm_stride (snd s)) (rm_len (snd s))) (fst s))"

definition slot_packets :: "slot \<Rightarrow> underlay_packet list" where
  "slot_packets s = map (\<lambda>p. \<lparr>up_peer = rm_addr (snd s), up_payload = p\<rparr>)
     (chunks (rm_stride (snd s)) (take (rm_len (snd s)) (fst s)))"

definition enqueue :: "underlay_packet list \<Rightarrow> demux \<Rightarrow> demux" where
  "enqueue ps d = (let room = (if chan_closed d then 0 else UNDERLAY_CHANNEL_CAPACITY - length (chan d)) in
     d\<lparr>chan := chan d @ take room ps, dropped := dropped d + word_of_nat (length ps - room)\<rparr>)"

definition slot_ok :: "slot \<Rightarrow> bool" where
  "slot_ok s = (rm_len (snd s) \<le> length (fst s))"

lemma enqueue_Nil [simp]: "enqueue [] d = d"
  by (simp add: enqueue_def Let_def)

lemma enqueue_Cons: "enqueue (p # ps) d = enqueue ps (try_send p d)"
proof (cases "chan_closed d \<or> UNDERLAY_CHANNEL_CAPACITY \<le> length (chan d)")
  case True
  then show ?thesis by (auto simp: enqueue_def Let_def try_send_def)
next
  case False
  then obtain k where "UNDERLAY_CHANNEL_CAPACITY - length (chan d) = Suc k"
    by (metis Suc_diff_Suc not_less)
  moreover from this have "UNDERLAY_CHANNEL_CAPACITY - Suc (length (chan d)) = k" by simp
  ultimately show ?thesis using False by (simp add: enqueue_def Let_def try_send_def)
qed

lemma enqueue_append: "enqueue (ps @ qs) d = enqueue qs (enqueue ps d)"
  by (induction ps arbitrary: d) (simp_all add: enqueue_Cons)

lemma concat_chunks: "concat (chunks n xs) = xs"
  by (induction n xs rule: chunks.induct) (subst chunks.simps, simp)

lemma queue_segments_enqueue:
  assumes "rm_len m \<le> length buf" "offset \<le> rm_len m"
  shows "queue_segments buf m offset d =
    Some (enqueue (map (\<lambda>p. \<lparr>up_peer = rm_addr m, up_payload = p\<rparr>)
      (chunks (rm_stride m) (drop offset (take (rm_len m) buf)))) d)"
  using assms
proof (induction "rm_len m - offset" arbitrary: offset d rule: less_induct)
  case less
  show ?case
  proof (cases "offset < rm_len m")
    case False
    with less.prems have "offset = rm_len m" by simp
    with less.prems show ?thesis
      by (subst queue_segments.simps, subst chunks.simps) simp
  next
    case True
    let ?s = "max (rm_stride m) 1" and ?x = "drop offset (take (rm_len m) buf)"
    let ?e = "min (offset + ?s) (rm_len m)"
    have ne: "?x \<noteq> []" using True less.prems by simp
    have tk: "take (?e - offset) (drop offset buf) = take ?s ?x"
      using True less.prems by (auto simp: drop_take min_def)
    have dr: "drop ?s ?x = drop ?e (take (rm_len m) buf)"
      by (auto simp: min_def add.commute)
    have "buf_slice buf offset ?e = Some (take ?s ?x)"
      using True less.prems tk by (auto simp: buf_slice_def)
    moreover have "queue_segments buf m ?e d' =
        Some (enqueue (map (\<lambda>p. \<lparr>up_peer = rm_addr m, up_payload = p\<rparr>)
          (chunks (rm_stride m) (drop ?e (take (rm_len m) buf)))) d')" for d'
      using True less.prems by (intro less.hyps) auto
    ultimately show ?thesis
      using True ne
      by (subst queue_segments.simps, subst chunks.simps) (simp add: Let_def enqueue_Cons dr del: drop_drop One_nat_def)
  qed
qed


lemma swap_slots_facts:
  assumes "keep < i" "i < length ss"
  shows "take (Suc keep) (swap_slots keep i ss) = take keep ss @ [ss ! i]"
    "drop (Suc i) (swap_slots keep i ss) = drop (Suc i) ss"
    "length (swap_slots keep i ss) = length ss"
  using assms by (simp_all add: swap_slots_def take_Suc_conv_app_nth)

lemma demux_batch_spec:
  assumes "i + n \<le> length ss" "keep \<le> i" "\<forall>s \<in> set (drop i ss). slot_ok s"
  defines "batch \<equiv> take n (drop i ss)"
  shows "\<exists>ss'. demux_batch n i keep ss d =
      Some (keep + length (filter quic_slot batch), ss',
            enqueue (concat (map slot_packets (filter (\<lambda>s. \<not> quic_slot s) batch))) d)
    \<and> take (keep + length (filter quic_slot batch)) ss' = take keep ss @ filter quic_slot batch"
  using assms(1-3) unfolding batch_def
proof (induction n arbitrary: i keep ss d)
  case 0
  then show ?case by simp
next
  case (Suc n)
  obtain buf m where bm: "ss ! i = (buf, m)" by fastforce
  have i: "i < length ss" using Suc.prems(1) by simp
  have split: "drop i ss = (buf, m) # drop (Suc i) ss" using i bm by (simp flip: Cons_nth_drop_Suc)
  have ok: "rm_len m \<le> length buf" and rest: "\<forall>s \<in> set (drop (Suc i) ss). slot_ok s"
    using Suc.prems(3) by (auto simp: split slot_ok_def)
  have fp: "buf_slice buf 0 (min (rm_stride m) (rm_len m)) = Some (take (min (rm_stride m) (rm_len m)) buf)"
    using ok by (simp add: buf_slice_def min_def)
  have qp: "is_probably_quic_packet (take (min (rm_stride m) (rm_len m)) buf) = quic_slot (buf, m)"
    by (simp add: quic_slot_def)
  show ?case
  proof (cases "quic_slot (buf, m)")
    case True
    define ss1 where "ss1 = (if keep \<noteq> i then swap_slots keep i ss else ss)"
    have l1: "length ss1 = length ss" and d1: "drop (Suc i) ss1 = drop (Suc i) ss"
      and t1: "take (Suc keep) ss1 = take keep ss @ [(buf, m)]"
      using swap_slots_facts [of keep i ss] Suc.prems(2) i bm
      by (auto simp: ss1_def take_Suc_conv_app_nth)
    have step: "demux_batch (Suc n) i keep ss d = demux_batch n (Suc i) (Suc keep) ss1 d"
      using True i by (simp add: bm fp qp ss1_def)
    have "\<exists>ss'. demux_batch n (Suc i) (Suc keep) ss1 d =
        Some (Suc keep + length (filter quic_slot (take n (drop (Suc i) ss1))), ss',
          enqueue (concat (map slot_packets (filter (\<lambda>s. \<not> quic_slot s) (take n (drop (Suc i) ss1))))) d)
      \<and> take (Suc keep + length (filter quic_slot (take n (drop (Suc i) ss1)))) ss' =
          take (Suc keep) ss1 @ filter quic_slot (take n (drop (Suc i) ss1))"
      using Suc.prems(1,2) rest by (intro Suc.IH) (simp_all add: l1 d1)
    with True show ?thesis
      by (simp add: step split d1 t1 del: demux_batch.simps)
  next
    case False
    have q: "queue_segments buf m 0 d = Some (enqueue (slot_packets (buf, m)) d)"
      using queue_segments_enqueue [OF ok, of 0 d] by (simp add: slot_packets_def)
    have "\<exists>ss'. demux_batch n (Suc i) keep ss d' =
        Some (keep + length (filter quic_slot (take n (drop (Suc i) ss))), ss',
          enqueue (concat (map slot_packets (filter (\<lambda>s. \<not> quic_slot s) (take n (drop (Suc i) ss))))) d')
      \<and> take (keep + length (filter quic_slot (take n (drop (Suc i) ss)))) ss' =
          take keep ss @ filter quic_slot (take n (drop (Suc i) ss))" for d'
      using Suc.prems(1,2) rest by (intro Suc.IH) simp_all
    with False i show ?thesis
      by (simp add: bm fp qp split q enqueue_append)
  qed
qed


section \<open>Properties\<close>

text \<open>\<^bold>\<open>C11.\<close>  One received batch is split without losing or reordering anything, and without
  a panic, as long as the wrapped socket reports lengths within its buffers: Quinn sees
  exactly the slots that start with a QUIC datagram, in order; every datagram of the others
  is queued in order, with its sender, until the channel is full, and the rest is counted.\<close>

theorem demux_batch_splits:
  assumes "msgs \<le> length ss" "\<forall>s \<in> set ss. slot_ok s"
  shows "\<exists>ss'. demux_batch msgs 0 0 ss d =
      Some (length (filter quic_slot (take msgs ss)), ss',
            enqueue (concat (map slot_packets (filter (\<lambda>s. \<not> quic_slot s) (take msgs ss)))) d)
    \<and> take (length (filter quic_slot (take msgs ss))) ss' = filter quic_slot (take msgs ss)"
  using demux_batch_spec [of 0 msgs ss 0 d] assms by simp

definition demo_slot :: "bytes \<Rightarrow> nat \<Rightarrow> slot" where
  "demo_slot bs stride = (bs @ replicate 3 9,
     \<lparr>rm_addr = \<lparr>sa_ip = IpV4 (Ipv4 10 0 0 1), sa_port = 5000\<rparr>, rm_len = length bs, rm_stride = stride\<rparr>)"

theorem demux_batch_splits_witness:
  "\<exists>ss'. demux_batch 3 0 0 [demo_slot [0, 1, 2] 2, demo_slot [0x40, 5] 2, demo_slot [0xC1] 1] demux_new =
      Some (2, ss', enqueue (slot_packets (demo_slot [0, 1, 2] 2)) demux_new)
    \<and> take 2 ss' = [demo_slot [0x40, 5] 2, demo_slot [0xC1] 1]"
proof -
  let ?ss = "[demo_slot [0, 1, 2] 2, demo_slot [0x40, 5] 2, demo_slot [0xC1] 1]"
  have "\<forall>s \<in> set ?ss. slot_ok s" by (simp add: slot_ok_def demo_slot_def)
  moreover have "\<not> quic_slot (demo_slot [0, 1, 2] 2)" "quic_slot (demo_slot [0x40, 5] 2)"
    "quic_slot (demo_slot [0xC1] 1)"
    by (simp_all add: quic_slot_def demo_slot_def is_probably_quic_packet_def)
  ultimately show ?thesis
    using demux_batch_splits [of 3 ?ss demux_new] by (simp add: numeral_2_eq_2)
qed

lemma chunks_Cons: "xs \<noteq> [] \<Longrightarrow> chunks n xs = take (max n 1) xs # chunks n (drop (max n 1) xs)"
  by (subst chunks.simps) simp

text \<open>The channel stays within its capacity.\<close>

lemma enqueue_bounded:
  "length (chan d) \<le> UNDERLAY_CHANNEL_CAPACITY \<Longrightarrow> length (chan (enqueue ps d)) \<le> UNDERLAY_CHANNEL_CAPACITY"
  by (auto simp: enqueue_def Let_def)

definition demux_inv :: "demux \<Rightarrow> bool" where
  "demux_inv d = (length (chan d) \<le> UNDERLAY_CHANNEL_CAPACITY
     \<and> idle_poll_count d \<le> MAX_IDLE_POLL_BEFORE_YIELD)"

definition inner_ok :: "'e inner_poll \<Rightarrow> bool" where
  "inner_ok r = (case r of InnerReady ss msgs \<Rightarrow> msgs \<le> length ss \<and> (\<forall>s \<in> set ss. slot_ok s) | _ \<Rightarrow> True)"

lemma idle_enqueue [simp]:
  "idle_poll_count (enqueue ps d) = idle_poll_count d" "woken (enqueue ps d) = woken d"
  by (simp_all add: enqueue_def Let_def)

text \<open>All messages of a batch are non-QUIC.\<close>

definition no_quic :: "'e inner_poll \<Rightarrow> bool" where
  "no_quic r = (case r of InnerReady ss msgs \<Rightarrow> filter quic_slot (take msgs ss) = [] | _ \<Rightarrow> False)"

text \<open>The state after the non-QUIC messages of a batch have been queued.\<close>

definition after_batch :: "slot list \<Rightarrow> nat \<Rightarrow> demux \<Rightarrow> demux" where
  "after_batch ss msgs d = enqueue (concat (map slot_packets (filter (\<lambda>s. \<not> quic_slot s) (take msgs ss)))) d"

lemma after_batch_simps [simp]:
  "idle_poll_count (after_batch ss msgs d) = idle_poll_count d" "woken (after_batch ss msgs d) = woken d"
  "length (chan d) \<le> UNDERLAY_CHANNEL_CAPACITY \<Longrightarrow> length (chan (after_batch ss msgs d)) \<le> UNDERLAY_CHANNEL_CAPACITY"
  by (simp_all add: after_batch_def enqueue_bounded)

lemma poll_ready_step:
  fixes r :: "'e inner_poll"
  assumes "inner_ok r" "r = InnerReady ss msgs"
  shows "\<exists>ss'. poll_batches (Suc n) (r # inner) d =
    (if no_quic r then poll_batches n inner (after_batch ss msgs d)
     else Some (ReadyOk (length (filter quic_slot (take msgs ss))), ss', (after_batch ss msgs d)\<lparr>idle_poll_count := 0\<rparr>))"
proof -
  let ?b = "take msgs ss"
  obtain ss' where "demux_batch msgs 0 0 ss d = Some (length (filter quic_slot ?b), ss', after_batch ss msgs d)"
    using demux_batch_spec [of 0 msgs ss 0 d] assms by (auto simp: inner_ok_def after_batch_def)
  then show ?thesis by (intro exI [of _ ss']) (simp add: no_quic_def assms(2))
qed

lemma inner_cases:
  fixes r :: "'e inner_poll"
  assumes "inner_ok r"
  obtains (pending) "r = InnerPending" | (err) e where "r = InnerErr e"
    | (ready) ss msgs where "r = InnerReady ss msgs" "inner_ok r"
  using assms by (cases r) auto

lemma poll_batches_0 [simp]:
  "poll_batches 0 inner d =
     (if 1 \<le> idle_poll_count d then Some (Pending, [], d\<lparr>idle_poll_count := 0\<rparr>)
      else Some (Pending, [], d\<lparr>idle_poll_count := Suc 0, woken := True\<rparr>))"
  by (simp add: MAX_IDLE_POLL_BEFORE_YIELD_def Let_def)

declare poll_batches.simps(1) [simp del]

text \<open>\<open>poll_recv\<close> always returns; it keeps the channel within its capacity and the idle
  counter at most one.  When it returns \<open>Pending\<close> the polling task will be woken again,
  except in one case: both batches of the call were free of QUIC and the previous call already
  was.  Then nothing has registered the waker, since the wrapped socket was ready.\<close>

lemma poll_recv_wakes:
  fixes r1 r2 :: "'e inner_poll"
  assumes "demux_inv d" "inner_ok r1" "inner_ok r2"
  shows "\<exists>res ss d'. poll_recv [r1, r2] d = Some (res, ss, d') \<and> demux_inv d'
    \<and> (res = Pending \<longrightarrow> (woken d' \<longleftrightarrow> \<not> (idle_poll_count d = 1 \<and> no_quic r1 \<and> no_quic r2)))"
proof -
  have idle: "idle_poll_count d = 0 \<or> idle_poll_count d = Suc 0" and len: "length (chan d) \<le> UNDERLAY_CHANNEL_CAPACITY"
    using assms(1) by (auto simp: demux_inv_def MAX_IDLE_POLL_BEFORE_YIELD_def)
  note facts = len demux_inv_def MAX_IDLE_POLL_BEFORE_YIELD_def
  have two: "poll_recv [r1, r2] d = poll_batches (Suc (Suc 0)) [r1, r2] (d\<lparr>woken := False\<rparr>)"
    by (simp add: poll_recv_def MAX_DEMUX_BATCHES_PER_POLL_def numeral_2_eq_2)
  from assms(2) show ?thesis
  proof (cases r1 rule: inner_cases)
    case (ready ss msgs)
    let ?d1 = "after_batch ss msgs (d\<lparr>woken := False\<rparr>)"
    obtain ss' where s1: "poll_recv [r1, r2] d = (if no_quic r1 then poll_batches (Suc 0) [r2] ?d1
        else Some (ReadyOk (length (filter quic_slot (take msgs ss))), ss', ?d1\<lparr>idle_poll_count := 0\<rparr>))"
      unfolding two using poll_ready_step [OF ready(2,1)] by blast
    from assms(3) show ?thesis
    proof (cases r2 rule: inner_cases)
      case (ready ss2 msgs2)
      let ?d2 = "after_batch ss2 msgs2 ?d1"
      obtain ss2' where s2: "poll_batches (Suc 0) [r2] ?d1 = (if no_quic r2 then poll_batches 0 [] ?d2
          else Some (ReadyOk (length (filter quic_slot (take msgs2 ss2))), ss2', ?d2\<lparr>idle_poll_count := 0\<rparr>))"
        using poll_ready_step [OF ready(2,1)] by blast
      show ?thesis using idle by (auto simp: s1 s2 facts)
    qed (use s1 idle in \<open>auto simp: facts no_quic_def\<close>)
  qed (use two idle in \<open>auto simp: facts no_quic_def\<close>)
qed


lemma poll_recv_wakes_witness:
  "\<exists>res ss d'. poll_recv [InnerReady [demo_slot [0, 7] 2] 1, InnerReady [demo_slot [1] 1] 1 :: unit inner_poll]
      (demux_new\<lparr>idle_poll_count := 1\<rparr>) = Some (res, ss, d') \<and> (res = Pending \<longrightarrow> \<not> woken d')"
proof -
  let ?r1 = "InnerReady [demo_slot [0, 7] 2] 1 :: unit inner_poll"
  let ?r2 = "InnerReady [demo_slot [1] 1] 1 :: unit inner_poll"
  have "demux_inv (demux_new\<lparr>idle_poll_count := 1\<rparr>)"
    by (simp add: demux_inv_def demux_new_def MAX_IDLE_POLL_BEFORE_YIELD_def)
  moreover have "inner_ok ?r1" "inner_ok ?r2"
    by (simp_all add: inner_ok_def slot_ok_def demo_slot_def)
  moreover have "no_quic ?r1" "no_quic ?r2"
    by (simp_all add: no_quic_def quic_slot_def demo_slot_def is_probably_quic_packet_def)
  ultimately show ?thesis
    using poll_recv_wakes [of "demux_new\<lparr>idle_poll_count := 1\<rparr>" ?r1 ?r2] by (auto simp: demux_new_def)
qed

text \<open>Packets that start with a zero byte, as every underlay salt does, are not taken for QUIC.\<close>

lemma zero_first_not_quic: "\<not> is_probably_quic_packet (0 # p)"
  by (simp add: is_probably_quic_packet_def)

end
