(* ===== verification/Server_Underlay.thy ===== *)
theory Server_Underlay
  imports Server_Session Udp_Pool Demux
begin

text \<open>
  The non-QUIC side of \<open>server/src/server.rs\<close>: the session cache with its eviction listener, the
  packet loop, the handler of a packet, and the task that relays responses back.

  \<open>relays\<close> lists the relay tasks that were spawned, each with the socket it reads, and \<open>aborted\<close>
  the tasks that were aborted.  The session cache and the endpoint pool are maps from the peer's address.  moka calls the
  eviction listener for an entry that is invalidated or replaced, and for one that it evicts on
  its own (\<open>session_evicted\<close>); the listener's body is \<open>on_session_evicted\<close>.  What the operating
  system and the pool answer (\<open>send_to\<close>, \<open>get_or_create\<close>, free permits) are arguments.
\<close>

section \<open>State\<close>

record session =
  us_target :: string
  us_cipher :: underlay_cipher
  us_relay_abort :: "nat option"

record underlay =
  sessions :: "(socket_addr, session) hashmap"
  endpoints :: "(socket_addr, endpoint) hashmap"
  aborted :: "nat list"
  relays :: "(nat \<times> nat) list"

definition on_session_evicted :: "socket_addr \<Rightarrow> session \<Rightarrow> underlay \<Rightarrow> underlay" where
  "on_session_evicted k v u = u\<lparr>
     aborted := (case us_relay_abort v of Some h \<Rightarrow> [h] | None \<Rightarrow> []) @ aborted u,
     endpoints := hm_remove k (endpoints u)\<rparr>"

text \<open>\<open>Cache::invalidate\<close>.\<close>

definition invalidate :: "socket_addr \<Rightarrow> underlay \<Rightarrow> underlay" where
  "invalidate k u =
     (case hm_get (sessions u) k of
        None \<Rightarrow> u
      | Some v \<Rightarrow> on_session_evicted k v (u\<lparr>sessions := hm_remove k (sessions u)\<rparr>))"

text \<open>\<open>Cache::insert\<close>.\<close>

definition insert_session :: "socket_addr \<Rightarrow> session \<Rightarrow> underlay \<Rightarrow> underlay" where
  "insert_session k v u =
     (case hm_get (sessions u) k of
        None \<Rightarrow> u\<lparr>sessions := hm_insert k v (sessions u)\<rparr>
      | Some old \<Rightarrow> on_session_evicted k old (u\<lparr>sessions := hm_insert k v (sessions u)\<rparr>))"

definition remove_endpoint :: "socket_addr \<Rightarrow> underlay \<Rightarrow> underlay" where
  "remove_endpoint k u = u\<lparr>endpoints := hm_remove k (endpoints u)\<rparr>"

section \<open>The packet loop\<close>

text \<open>What becomes of a received packet.  \<open>Forward\<close> carries the socket, the destination handed
  to the operating system and the plaintext.\<close>

datatype packet_outcome =
    Ignored
  | Forward nat socket_addr bytes
  | ForwardFailed
  | Undecryptable
  | NoPermit
  | Spawn underlay_packet

definition forward_to :: "endpoint \<Rightarrow> bytes \<Rightarrow> packet_outcome" where
  "forward_to e payload =
     Forward (ep_socket e) (send_to_addr (ep_target e) (ep_is_ipv6 e)) (drop SALT_LEN payload)"

definition underlay_packet_step :: "aead \<Rightarrow> bool \<Rightarrow> bool \<Rightarrow> underlay_packet \<Rightarrow> underlay \<Rightarrow> underlay \<times> packet_outcome" where
  "underlay_packet_step A send_ok permit packet u =
     (if length (up_payload packet) < underlay_salt_len then (u, Ignored)
      else
        let source = up_peer packet;
            slow = (if permit then (u, Spawn packet) else (u, NoPermit))
        in case hm_get (sessions u) source of
             None \<Rightarrow> slow
           | Some s \<Rightarrow>
               (case hm_get (endpoints u) source of
                  None \<Rightarrow> slow
                | Some e \<Rightarrow>
                    (case decrypt_in_place A (us_cipher s) (up_payload packet) of
                       Inr payload \<Rightarrow> if send_ok then (u, forward_to e payload)
                                     else (invalidate source u, ForwardFailed)
                     | Inl _ \<Rightarrow> (u, Undecryptable))))"

section \<open>The handler of a packet\<close>

text \<open>The closure given to \<open>evict\<close>: the cipher, with the buffer that \<open>decrypt_in_place\<close> has
  rewritten.  The \<open>expect\<close> is discharged by \<open>derive_subkey_of_stream_auth\<close>; a failing key
  derivation is \<open>None\<close> here.\<close>

definition authenticate_packet :: "aead \<Rightarrow> hkdf \<Rightarrow> bytes \<Rightarrow> bytes \<Rightarrow> underlay_auth \<Rightarrow> (underlay_cipher \<times> bytes) option" where
  "authenticate_packet A hkdf1 salt payload auth =
     (case derive_subkey hkdf1 (ua_psk auth) salt of
        Inl _ \<Rightarrow> None
      | Inr subkey \<Rightarrow>
          (let cipher = from_subkey subkey in
           case decrypt_in_place A cipher payload of
             Inl _ \<Rightarrow> None
           | Inr plain \<Rightarrow> Some (cipher, plain)))"

datatype handler_result = HandlerOk | HandlerErr

text \<open>A send that fails takes the endpoint and the session with it.\<close>

definition send_failed :: "socket_addr \<Rightarrow> underlay \<Rightarrow> underlay" where
  "send_failed source u =
     (let u1 = remove_endpoint source u;
          u2 = (case hm_get (sessions u1) source of
                  Some s \<Rightarrow> (case us_relay_abort s of Some h \<Rightarrow> u1\<lparr>aborted := h # aborted u1\<rparr> | None \<Rightarrow> u1)
                | None \<Rightarrow> u1)
      in invalidate source u2)"

text \<open>The branch for an existing session; \<open>made\<close> is the result of \<open>get_or_create\<close> when the
  endpoint is gone.  \<open>None\<close>: the packet is dropped.\<close>

definition handle_existing :: "aead \<Rightarrow> pool_result \<Rightarrow> bool \<Rightarrow> socket_addr \<Rightarrow> bytes \<Rightarrow> session \<Rightarrow> underlay \<Rightarrow>
    underlay \<times> packet_outcome option \<times> handler_result" where
  "handle_existing A made send_ok source payload s u =
     (case decrypt_in_place A (us_cipher s) payload of
        Inl _ \<Rightarrow> (u, None, HandlerOk)
      | Inr plain \<Rightarrow>
          (case (case hm_get (endpoints u) source of
                   Some e \<Rightarrow> Inr (e, u)
                 | None \<Rightarrow> and_then made (\<lambda>(e, _). Inr (e, u\<lparr>endpoints := hm_insert source e (endpoints u)\<rparr>)))
           of Inl _ \<Rightarrow> (u, None, HandlerErr)
            | Inr (e, u1) \<Rightarrow>
                if send_ok then (u1, Some (forward_to e plain), HandlerOk)
                else (send_failed source u1, None, HandlerErr)))"

text \<open>The branch for a new session, from the verified authentication on: the port check, the
  endpoint, the relay task \<open>handle\<close> if the endpoint is new, the session, the first packet.\<close>

definition handle_new :: "bool \<Rightarrow> pool_result \<Rightarrow> nat \<Rightarrow> bool \<Rightarrow> socket_addr \<Rightarrow> underlay_auth \<Rightarrow> underlay_cipher \<Rightarrow>
    bytes \<Rightarrow> underlay \<Rightarrow> underlay \<times> packet_outcome option \<times> handler_result" where
  "handle_new disable_udp_443 made handle send_ok source auth cipher plain u =
     (if disable_udp_443 \<and> pm_port (ua_metadata auth) = 443 then (u, None, HandlerOk)
      else case made of
        Inl _ \<Rightarrow> (u, None, HandlerErr)
      | Inr (e, is_new) \<Rightarrow>
          (let u1 = (if is_new then u\<lparr>endpoints := hm_insert source e (endpoints u),
                                 relays := (handle, ep_socket e) # relays u\<rparr> else u);
               s = \<lparr>us_target = target_addr (ua_metadata auth), us_cipher = cipher,
                    us_relay_abort = (if is_new then Some handle else None)\<rparr>;
               u2 = insert_session source s u1
           in if send_ok then (u2, Some (forward_to e plain), HandlerOk)
              else (send_failed source u2, None, HandlerErr)))"

text \<open>The whole handler, with \<open>verified\<close> the result of \<open>evict\<close>.\<close>

definition handle_non_quic_underlay_packet ::
  "aead \<Rightarrow> bool \<Rightarrow> (underlay_auth \<times> underlay_cipher \<times> bytes) option \<Rightarrow> pool_result \<Rightarrow> nat \<Rightarrow> bool \<Rightarrow>
   underlay_packet \<Rightarrow> underlay \<Rightarrow> underlay \<times> packet_outcome option \<times> handler_result" where
  "handle_non_quic_underlay_packet A disable_udp_443 verified made handle send_ok packet u =
     (if length (up_payload packet) < underlay_salt_len then (u, None, HandlerOk)
      else case hm_get (sessions u) (up_peer packet) of
        Some s \<Rightarrow> handle_existing A made send_ok (up_peer packet) (up_payload packet) s u
      | None \<Rightarrow>
          (case verified of
             None \<Rightarrow> (u, None, HandlerOk)
           | Some (auth, cipher, plain) \<Rightarrow>
               handle_new disable_udp_443 made handle send_ok (up_peer packet) auth cipher plain u))"

section \<open>Salts and responses\<close>

text \<open>\<open>rnd\<close> are the bytes of the random source, 30 for each of the 64 salts.\<close>

definition BATCH_SIZE :: nat where "BATCH_SIZE = 64"

definition generate_salt_batch :: "bytes \<Rightarrow> bytes list" where
  "generate_salt_batch rnd =
     map (\<lambda>i. [0, 0] @ take 30 (drop (i * 30) rnd)) [0..<BATCH_SIZE]"

datatype relay_back_event = Response bytes | ResponseError | RelayIdle

text \<open>The loop of the relay task: \<open>batches\<close> are the random bytes for successive refills, \<open>sent_ok\<close>
  the results of its sends; the packets sent to the peer.  The receive buffer has room for
  \<open>4 * ETHERNET_MTU\<close> bytes; the rest of a longer datagram is lost in \<open>recv_from\<close>.  Salts are
  taken from the end of the pool.\<close>

fun relay_back :: "aead \<Rightarrow> underlay_cipher \<Rightarrow> bytes list \<Rightarrow> bytes list \<Rightarrow> (relay_back_event \<times> bool) list \<Rightarrow> bytes list" where
  "relay_back A c pool batches [] = []"
| "relay_back A c pool batches ((RelayIdle, _) # es) = []"
| "relay_back A c pool batches ((ResponseError, _) # es) = []"
| "relay_back A c pool batches ((Response d, sent_ok) # es) =
     (let (pool1, batches1) =
            (if pool = [] then (case batches of [] \<Rightarrow> ([], []) | b # bs \<Rightarrow> (generate_salt_batch b, bs))
             else (pool, batches))
      in if pool1 = [] then []
         else let salt = last pool1;
                  outbuf = replicate SALT_LEN 0 @ take (4 * ethernet_mtu) d
              in case encrypt_in_place A c outbuf salt of
                   Inl _ \<Rightarrow> []
                 | Inr out \<Rightarrow>
                     if sent_ok then out # relay_back A c (butlast pool1) batches1 es else [])"

text \<open>When the task ends, normally or by an abort, the guard invalidates the session; a normal
  end then removes the endpoint as well.\<close>

definition relay_back_exit :: "bool \<Rightarrow> socket_addr \<Rightarrow> underlay \<Rightarrow> underlay" where
  "relay_back_exit normal source u =
     (let u1 = invalidate source u in if normal then remove_endpoint source u1 else u1)"

section \<open>Invariant: a session has an endpoint or none is left\<close>

lemma invalidate_facts:
  "hm_get (sessions (invalidate k u)) k' = (if k' = k then None else hm_get (sessions u) k')"
  "hm_get (sessions u) k = Some v \<Longrightarrow> hm_get (endpoints (invalidate k u)) k = None"
  "hm_get (sessions u) k = Some v \<Longrightarrow> us_relay_abort v = Some h \<Longrightarrow> h \<in> set (aborted (invalidate k u))"
  "k' \<noteq> k \<Longrightarrow> hm_get (endpoints (invalidate k u)) k' = hm_get (endpoints u) k'"
  by (auto simp: invalidate_def on_session_evicted_def split: option.splits)

lemma generate_salt_batch_salts:
  assumes "length rnd = 64 * 30" "s \<in> set (generate_salt_batch rnd)"
  shows "\<exists>r. s = generate_underlay_salt r \<and> length r = 30"
proof -
  obtain i where i: "i < 64" "s = [0, 0] @ take 30 (drop (i * 30) rnd)"
    using assms(2) by (auto simp: generate_salt_batch_def BATCH_SIZE_def)
  have "30 \<le> length rnd - i * 30" using i(1) assms(1) by simp
  then show ?thesis
    using i(2) by (intro exI [of _ "take 30 (drop (i * 30) rnd)"])
      (simp add: generate_underlay_salt_def min_absorb2)
qed

lemma generated_salt_length: "length r = 30 \<Longrightarrow> length (generate_underlay_salt r) = 32"
  by (simp add: generate_underlay_salt_def)


section \<open>Responses reach the client\<close>

lemma sealed_packet:
  assumes "aead_ok A" "length r = 30" "d \<noteq> []"
    and "encrypt_in_place A c (replicate SALT_LEN 0 @ d) (generate_underlay_salt r) = Inr out"
  shows "\<not> is_probably_quic_packet out \<and> decrypt_in_place A c out = Inr (generate_underlay_salt r @ d)
    \<and> take SALT_LEN out = generate_underlay_salt r \<and> underlay_salt_len \<le> length out"
proof -
  obtain ct tag where s: "seal A (uc_subkey c) zero_nonce [] d = Some (ct, tag)"
    and out: "out = generate_underlay_salt r @ ct @ tag"
    using assms(4) by (auto simp: encrypt_in_place_def crypto_consts and_then_eq_Inr elim!: ok_or.elims)
  have "length ct = length d \<and> length tag = 16 \<and> unseal A (uc_subkey c) zero_nonce [] ct tag = Some d"
    using assms(1) s unfolding aead_ok_def by blast
  moreover have "\<not> is_probably_quic_packet out"
    by (simp add: out generate_underlay_salt_def is_probably_quic_packet_def)
  moreover define salt where "salt = generate_underlay_salt r"
  moreover have "length salt = 32" using generated_salt_length [OF assms(2)] by (simp add: salt_def)
  ultimately show ?thesis
    using assms(3) out by (auto simp: decrypt_in_place_def crypto_consts Let_def underlay_salt_len_def)
qed

text \<open>The cipher seals every payload that fits the receive buffer.\<close>

definition seals_small :: "aead \<Rightarrow> underlay_cipher \<Rightarrow> bool" where
  "seals_small A c = (\<forall>p. length p \<le> 4 * ethernet_mtu \<longrightarrow> seal A (uc_subkey c) zero_nonce [] p \<noteq> None)"

definition carries :: "aead \<Rightarrow> underlay_cipher \<Rightarrow> bytes \<Rightarrow> bytes \<Rightarrow> bool" where
  "carries A c p d = (\<not> is_probably_quic_packet p \<and> (\<exists>salt. length salt = 32 \<and> decrypt_in_place A c p = Inr (salt @ d)))"

lemma encrypt_response_total:
  assumes "seals_small A c" "length r = 30" "length d \<le> 4 * ethernet_mtu"
  shows "\<exists>out. encrypt_in_place A c (replicate SALT_LEN 0 @ take (4 * ethernet_mtu) d) (generate_underlay_salt r) = Inr out"
  using assms generated_salt_length [OF assms(2)]
  by (fastforce simp: encrypt_in_place_def crypto_consts seals_small_def)

lemma length_generate_salt_batch [simp]: "length (generate_salt_batch b) = 64"
  by (simp add: generate_salt_batch_def BATCH_SIZE_def)

lemma generate_salt_batch_not_Nil [simp]: "generate_salt_batch b \<noteq> []"
  using length_generate_salt_batch [of b] by (metis list.size(3) zero_neq_numeral)

lemma relay_back_packets:
  assumes "aead_ok A" "seals_small A c"
    and "\<forall>b \<in> set batches. length b = 64 * 30" "\<forall>d \<in> set ds. d \<noteq> [] \<and> length d \<le> 4 * ethernet_mtu"
    and "\<forall>s \<in> set pool. \<exists>r. s = generate_underlay_salt r \<and> length r = 30"
    and "length ds \<le> length pool + 64 * length batches"
  shows "list_all2 (carries A c) (relay_back A c pool batches (map (\<lambda>d. (Response d, True)) ds)) ds"
  using assms(3-6)
proof (induction ds arbitrary: pool batches)
  case Nil
  then show ?case by simp
next
  case (Cons d ds)
  obtain pool1 batches1 where pb: "(pool1, batches1) =
      (if pool = [] then (case batches of [] \<Rightarrow> ([], []) | b # bs \<Rightarrow> (generate_salt_batch b, bs)) else (pool, batches))"
    by (metis prod.exhaust_sel)
  have salts: "\<forall>s \<in> set pool1. \<exists>r. s = generate_underlay_salt r \<and> length r = 30"
    using pb Cons.prems(1,3) generate_salt_batch_salts by (auto split: if_splits list.splits)
  have bl: "\<forall>b \<in> set batches1. length b = 64 * 30"
    using pb Cons.prems(1) by (auto split: if_splits list.splits)
  have "length (d # ds) \<le> length pool + 64 * length batches" using Cons.prems(4) .
  then have "pool1 \<noteq> [] \<and> length (d # ds) \<le> length pool1 + 64 * length batches1"
    using pb by (cases pool; cases batches) simp_all
  then have room: "pool1 \<noteq> []" "length (d # ds) \<le> length pool1 + 64 * length batches1" by auto
  obtain r where r: "last pool1 = generate_underlay_salt r" "length r = 30" using salts room(1) last_in_set by blast
  have d: "d \<noteq> []" "length d \<le> 4 * ethernet_mtu" using Cons.prems(2) by auto
  obtain out where out: "encrypt_in_place A c (replicate SALT_LEN 0 @ take (4 * ethernet_mtu) d) (last pool1) = Inr out"
    using encrypt_response_total [OF assms(2) r(2) d(2)] r(1) by auto
  let ?es = "map (\<lambda>d. (Response d, True)) ds"
  have "relay_back A c pool batches ((Response d, True) # ?es) =
      (if pool1 = [] then [] else
       case encrypt_in_place A c (replicate SALT_LEN 0 @ take (4 * ethernet_mtu) d) (last pool1) of
         Inl _ \<Rightarrow> [] | Inr out \<Rightarrow> out # relay_back A c (butlast pool1) batches1 ?es)"
    using pb [symmetric] by (auto simp: Let_def split: sum.split)
  then have "relay_back A c pool batches (map (\<lambda>d. (Response d, True)) (d # ds)) =
      out # relay_back A c (butlast pool1) batches1 (map (\<lambda>d. (Response d, True)) ds)"
    using out room(1) by (simp del: relay_back.simps)
  moreover have "carries A c out d"
    using sealed_packet [OF assms(1) r(2) d(1), of c out] d(2) out r generated_salt_length [OF r(2)]
    by (auto simp: carries_def)
  moreover have "list_all2 (carries A c) (relay_back A c (butlast pool1) batches1 (map (\<lambda>d. (Response d, True)) ds)) ds"
    using Cons.prems(2) bl salts room by (intro Cons.IH) (auto dest: in_set_butlastD)
  ultimately show ?case by simp
qed

section \<open>Properties\<close>



text \<open>A peer is torn down completely: when a forward fails, in the loop or in the handler,
  and when its relay task ends, no session and no endpoint of that peer is left, the relay
  task is aborted, and no other peer is touched.\<close>

lemma underlay_teardown:
  assumes "hm_get (sessions u) source = Some s" "us_relay_abort s = Some h"
    and "t = send_failed source u \<or> t = relay_back_exit True source u \<or> t = invalidate source u"
  shows "hm_get (sessions t) source = None \<and> hm_get (endpoints t) source = None \<and> h \<in> set (aborted t)
    \<and> (peer \<noteq> source \<longrightarrow> hm_get (sessions t) peer = hm_get (sessions u) peer
         \<and> hm_get (endpoints t) peer = hm_get (endpoints u) peer)"
  using assms by (auto simp: send_failed_def relay_back_exit_def remove_endpoint_def invalidate_def
      on_session_evicted_def Let_def)

definition demo_session :: session where
  "demo_session = \<lparr>us_target = ''9.9.9.9:53'', us_cipher = from_subkey [5], us_relay_abort = Some 4\<rparr>"

definition demo_underlay :: underlay where
  "demo_underlay = \<lparr>sessions = [(ep_target demo_ep, demo_session)], endpoints = [(ep_target demo_ep, demo_ep)],
     aborted = [], relays = [(4, 1)]\<rparr>"

lemma underlay_teardown_witness:
  "hm_get (sessions (send_failed (ep_target demo_ep) demo_underlay)) (ep_target demo_ep) = None
   \<and> 4 \<in> set (aborted (send_failed (ep_target demo_ep) demo_underlay))"
  using underlay_teardown [of demo_underlay "ep_target demo_ep" demo_session 4
      "send_failed (ep_target demo_ep) demo_underlay"]
  by (simp add: demo_underlay_def demo_session_def hm_get_def)

text \<open>A session whose endpoint has left the pool gets a new endpoint, through which its
  packets are forwarded from then on, but no relay task: no task reads the new socket, so
  responses to it never reach the client.\<close>

lemma recovered_endpoint_unread:
  assumes "hm_get (endpoints u) source = None" "underlay_salt_len \<le> length packet"
    and "hm_get (sessions u) source = Some s" "decrypt_in_place A (us_cipher s) packet = Inr plain"
    and "\<forall>h. (h, ep_socket e) \<notin> set (relays u)"
    and "handle_non_quic_underlay_packet A disable verified (Inr (e, True)) handle True
           \<lparr>up_peer = source, up_payload = packet\<rparr> u = (u', out, res)"
  shows "out = Some (forward_to e plain) \<and> hm_get (endpoints u') source = Some e
    \<and> hm_get (sessions u') source = Some s \<and> (\<forall>h. (h, ep_socket e) \<notin> set (relays u'))
    \<and> underlay_packet_step A True permit \<lparr>up_peer = source, up_payload = packet\<rparr> u' = (u', forward_to e plain)"
  using assms by (auto simp: handle_non_quic_underlay_packet_def handle_existing_def underlay_packet_step_def)

lemma recovered_endpoint_unread_witness:
  "\<exists>u'. handle_non_quic_underlay_packet toy_aead False None (Inr (demo_ep\<lparr>ep_socket := 2\<rparr>, True)) 5 True
      \<lparr>up_peer = ep_target demo_ep, up_payload = replicate 32 0 @ [12] @ replicate 15 0 @ [12]\<rparr>
      (demo_underlay\<lparr>endpoints := []\<rparr>) =
      (u', Some (forward_to (demo_ep\<lparr>ep_socket := 2\<rparr>) (replicate 32 0 @ [7])), HandlerOk)
    \<and> (\<forall>h. (h, 2) \<notin> set (relays u'))"
proof -
  let ?p = "replicate 32 0 @ [12] @ replicate 15 0 @ [12 :: byte]"
  let ?u = "demo_underlay\<lparr>endpoints := []\<rparr>" and ?e = "demo_ep\<lparr>ep_socket := 2\<rparr>"
  have d: "decrypt_in_place toy_aead (us_cipher demo_session) ?p = Inr (replicate 32 0 @ [7])"
    by (simp add: decrypt_in_place_def crypto_consts toy_aead_def toy_tag_def demo_session_def from_subkey_def Let_def)
  have s: "hm_get (sessions ?u) (ep_target demo_ep) = Some demo_session" by (simp add: demo_underlay_def hm_get_def)
  let ?u' = "?u\<lparr>endpoints := hm_insert (ep_target demo_ep) ?e []\<rparr>"
  have h: "handle_non_quic_underlay_packet toy_aead False None (Inr (?e, True)) 5 True
      \<lparr>up_peer = ep_target demo_ep, up_payload = ?p\<rparr> ?u = (?u', Some (forward_to ?e (replicate 32 0 @ [7])), HandlerOk)"
    using d s by (simp add: handle_non_quic_underlay_packet_def handle_existing_def underlay_salt_len_def)
  have "\<forall>h. (h, ep_socket ?e) \<notin> set (relays ?u')"
    using recovered_endpoint_unread [OF _ _ s d _ h] by (simp add: underlay_salt_len_def demo_underlay_def)
  then show ?thesis using h by (intro exI [of _ ?u']) simp
qed

end
