(* ===== verification/Service_Loops.thy ===== *)
theory Service_Loops
  imports Server_Setup
begin

text \<open>
  The loops that keep the programs running: the accept loops of the client (\<open>serve_with_listener\<close> in
  \<open>client/src/local.rs\<close>, \<open>start_tcp_forward\<close> in \<open>client/src/forwarder.rs\<close>), and in \<open>serve_with_shutdown\<close> of
  \<open>server/src/server.rs\<close> the sockets, the accept workers with their shutdown and the two periodic tasks.

  A semaphore is the number of its free permits.  Tasks are counted, not named: what a connection
  handler does is in the other theories.
\<close>

section \<open>Accept loops of the client\<close>

datatype accept_pc = AcquirePermit | Accepting | Backoff

record accept_loop =
  al_free :: nat
  al_pc :: accept_pc
  al_active :: nat

definition accept_loop_new :: "accept_loop \<Rightarrow> bool" where
  "accept_loop_new s = (s = \<lparr>al_free = max_concurrent_tcp_connections, al_pc = AcquirePermit, al_active = 0\<rparr>)"

text \<open>\<open>Finished\<close> is the end of a spawned handler, which drops its permit, with or without an error.\<close>

inductive accept_step :: "accept_loop \<Rightarrow> accept_loop \<Rightarrow> bool" where
  Acquire: "al_pc s = AcquirePermit \<Longrightarrow> 0 < al_free s \<Longrightarrow> accept_step s (s\<lparr>al_free := al_free s - 1, al_pc := Accepting\<rparr>)"
| Accept: "al_pc s = Accepting \<Longrightarrow> accept_step s (s\<lparr>al_active := al_active s + 1, al_pc := AcquirePermit\<rparr>)"
| Accept_error: "al_pc s = Accepting \<Longrightarrow> accept_step s (s\<lparr>al_free := al_free s + 1, al_pc := Backoff\<rparr>)"
| Retry: "al_pc s = Backoff \<Longrightarrow> accept_step s (s\<lparr>al_pc := AcquirePermit\<rparr>)"
| Finished: "0 < al_active s \<Longrightarrow> accept_step s (s\<lparr>al_active := al_active s - 1, al_free := al_free s + 1\<rparr>)"

inductive_cases accept_stepE: "accept_step s t"

definition permits_kept :: "accept_loop \<Rightarrow> bool" where
  "permits_kept s =
     (al_free s + al_active s + (if al_pc s = Accepting then 1 else 0) = max_concurrent_tcp_connections)"

interpretation client_accept: invariant_system accept_loop_new accept_step permits_kept
  by unfold_locales (auto simp: accept_loop_new_def permits_kept_def elim!: accept_stepE)

section \<open>Sockets of the server\<close>

text \<open>What can fail for one socket, in the order of the code.\<close>

datatype socket_fault = CreateSocket | SetNonblocking | CloneSocket | SidecarNonblocking | SidecarFromStd | WrapSocket | NewEndpoint

datatype serve_error = SocketFailed nat socket_fault | NoSockets | ServeSetup setup_error | NoRuntime

record server_sockets =
  sk_sidecar :: "nat option"
  sk_endpoints :: "(nat \<times> nat) list"
  sk_receivers :: "nat list"

text \<open>Socket \<open>i\<close> feeds channel \<open>i\<close>; only the first sidecar is registered with the runtime.\<close>

fun open_sockets :: "(nat \<Rightarrow> socket_fault option) \<Rightarrow> nat list \<Rightarrow> server_sockets \<Rightarrow> serve_error + server_sockets" where
  "open_sockets fault [] s = Inr s"
| "open_sockets fault (i # is) s =
     (case (if i \<noteq> 0 \<and> fault i = Some SidecarFromStd then None else fault i) of
        Some e \<Rightarrow> Inl (SocketFailed i e)
      | None \<Rightarrow> open_sockets fault is
          \<lparr>sk_sidecar = (if i = 0 then Some i else sk_sidecar s), sk_endpoints = sk_endpoints s @ [(i, i)],
           sk_receivers = sk_receivers s @ [i]\<rparr>)"

text \<open>Up to the start of the workers; \<open>num_sockets\<close> is the number of cores.\<close>

definition serve_sockets :: "(nat \<Rightarrow> socket_fault option) \<Rightarrow> bool \<Rightarrow> nat \<Rightarrow> string \<Rightarrow>
    serve_error + ((domain \<times> bool) \<times> nat \<times> server_sockets)" where
  "serve_sockets fault runtime num_sockets addr =
     and_then (map_err ServeSetup (listen_addr addr)) (\<lambda>(a, dual_stack).
     if \<not> runtime then Inl NoRuntime
     else and_then (open_sockets fault [0..<num_sockets] \<lparr>sk_sidecar = None, sk_endpoints = [], sk_receivers = []\<rparr>) (\<lambda>s.
     and_then (ok_or NoSockets (sk_sidecar s)) (\<lambda>first.
       Inr (create_reuseport_socket a dual_stack, first, s))))"

lemma open_sockets_all:
  "open_sockets fault is s = Inr s' \<Longrightarrow>
   sk_endpoints s' = sk_endpoints s @ map (\<lambda>i. (i, i)) is \<and> sk_receivers s' = sk_receivers s @ is
   \<and> sk_sidecar s' = (if 0 \<in> set is then Some 0 else sk_sidecar s)"
  by (induction "is" arbitrary: s) (auto split: option.splits if_splits)

lemma serve_sockets_ok:
  assumes "serve_sockets fault runtime n addr = Inr (d, first, s)"
  shows "first = 0" "0 < n" "sk_receivers s = [0..<n]" "sk_endpoints s = map (\<lambda>i. (i, i)) [0..<n]"
proof -
  have o: "open_sockets fault [0..<n] \<lparr>sk_sidecar = None, sk_endpoints = [], sk_receivers = []\<rparr> = Inr s" "sk_sidecar s = Some first"
    using assms by (auto simp: serve_sockets_def and_then_eq_Inr elim!: ok_or.elims split: if_splits)
  from open_sockets_all [OF o(1)] o(2)
  show "first = 0" "0 < n" "sk_receivers s = [0..<n]" "sk_endpoints s = map (\<lambda>i. (i, i)) [0..<n]"
    by (auto split: if_splits)
qed

section \<open>Accept workers of the server\<close>

definition max_concurrent_connection_handlers :: nat where "max_concurrent_connection_handlers = 1024"

text \<open>\<open>Admitting\<close>: a connection was accepted and waits for a permit.  \<open>Reaping\<close>: the handlers still running after the
  grace period were aborted and are joined.\<close>

datatype worker_pc = Selecting | Admitting | Draining | Reaping | Ended

record accept_worker =
  wk_free :: nat
  wk_pc :: worker_pc
  wk_active :: nat
  wk_cancelled :: nat

definition worker_new :: accept_worker where
  "worker_new = \<lparr>wk_free = max_concurrent_connection_handlers, wk_pc = Selecting, wk_active = 0, wk_cancelled = 0\<rparr>"

text \<open>Aborting a task takes effect when it next waits, so a cancelled handler ends later than the call.\<close>

definition cancel_handlers :: "worker_pc \<Rightarrow> accept_worker \<Rightarrow> accept_worker" where
  "cancel_handlers pc w = w\<lparr>wk_pc := pc, wk_active := 0, wk_cancelled := wk_cancelled w + wk_active w\<rparr>"

inductive worker_step :: "bool \<Rightarrow> accept_worker \<Rightarrow> accept_worker \<Rightarrow> bool" for requested where
  See_shutdown: "requested \<Longrightarrow> wk_pc w = Selecting \<Longrightarrow> worker_step requested w (w\<lparr>wk_pc := Draining\<rparr>)"
| Endpoint_closed: "wk_pc w = Selecting \<Longrightarrow> worker_step requested w (w\<lparr>wk_pc := Draining\<rparr>)"
| Incoming: "wk_pc w = Selecting \<Longrightarrow> worker_step requested w (w\<lparr>wk_pc := Admitting\<rparr>)"
| Admit: "wk_pc w = Admitting \<Longrightarrow> 0 < wk_free w \<Longrightarrow>
    worker_step requested w (w\<lparr>wk_free := wk_free w - 1, wk_active := wk_active w + 1, wk_pc := Selecting\<rparr>)"
| Handler_ends: "0 < wk_active w \<Longrightarrow> worker_step requested w (w\<lparr>wk_active := wk_active w - 1, wk_free := wk_free w + 1\<rparr>)"
| Cancelled_ends: "0 < wk_cancelled w \<Longrightarrow> worker_step requested w (w\<lparr>wk_cancelled := wk_cancelled w - 1, wk_free := wk_free w + 1\<rparr>)"
| Drained: "wk_pc w = Draining \<Longrightarrow> wk_active w = 0 \<Longrightarrow> worker_step requested w (w\<lparr>wk_pc := Ended\<rparr>)"
| Drain_expired: "wk_pc w = Draining \<Longrightarrow> 0 < wk_active w \<Longrightarrow> worker_step requested w (cancel_handlers Reaping w)"
| Reaped: "wk_pc w = Reaping \<Longrightarrow> wk_cancelled w = 0 \<Longrightarrow> worker_step requested w (w\<lparr>wk_pc := Ended\<rparr>)"

inductive_cases worker_stepE: "worker_step r w w'"

text \<open>\<open>Joining\<close>: the guards were dropped, which aborts each worker where it waits; with it go its handlers.\<close>

datatype serve_phase = Serving | Stopping | Joining | Returned

record serve_state =
  sr_phase :: serve_phase
  sr_workers :: "accept_worker list"

definition serve_new :: "nat \<Rightarrow> serve_state \<Rightarrow> bool" where
  "serve_new n s = (s = \<lparr>sr_phase = Serving, sr_workers = replicate n worker_new\<rparr>)"

text \<open>The steps of \<open>serve\<close> itself after the shutdown request, which wait for no worker and no handler, and all steps.\<close>

inductive serve_own_step :: "serve_state \<Rightarrow> serve_state \<Rightarrow> bool" where
  Drop_guards: "sr_phase s = Stopping \<Longrightarrow> serve_own_step s (s\<lparr>sr_phase := Joining\<rparr>)"
| Abort_worker: "sr_phase s = Joining \<Longrightarrow> i < length (sr_workers s) \<Longrightarrow> wk_pc (sr_workers s ! i) \<noteq> Ended \<Longrightarrow>
    serve_own_step s (s\<lparr>sr_workers := (sr_workers s)[i := cancel_handlers Ended (sr_workers s ! i)]\<rparr>)"
| Return: "sr_phase s = Joining \<Longrightarrow> list_all (\<lambda>w. wk_pc w = Ended) (sr_workers s) \<Longrightarrow> serve_own_step s (s\<lparr>sr_phase := Returned\<rparr>)"

inductive serve_step :: "serve_state \<Rightarrow> serve_state \<Rightarrow> bool" where
  Work: "i < length (sr_workers s) \<Longrightarrow> worker_step (sr_phase s \<noteq> Serving) (sr_workers s ! i) w \<Longrightarrow>
    serve_step s (s\<lparr>sr_workers := (sr_workers s)[i := w]\<rparr>)"
| Shutdown: "sr_phase s = Serving \<Longrightarrow> serve_step s (s\<lparr>sr_phase := Stopping\<rparr>)"
| Own: "serve_own_step s t \<Longrightarrow> serve_step s t"

definition worker_ok :: "bool \<Rightarrow> accept_worker \<Rightarrow> bool" where
  "worker_ok guarded w =
     (wk_free w + wk_active w + wk_cancelled w = max_concurrent_connection_handlers
      \<and> (wk_pc w = Ended \<or> wk_pc w = Reaping \<longrightarrow> wk_active w = 0)
      \<and> (guarded \<and> wk_pc w \<noteq> Reaping \<longrightarrow> wk_cancelled w = 0))"

definition serve_ok :: "nat \<Rightarrow> serve_state \<Rightarrow> bool" where
  "serve_ok n s =
     (length (sr_workers s) = n
      \<and> (\<forall>w \<in> set (sr_workers s). worker_ok (sr_phase s = Serving \<or> sr_phase s = Stopping) w)
      \<and> (sr_phase s = Returned \<longrightarrow> (\<forall>w \<in> set (sr_workers s). wk_pc w = Ended)))"

lemma worker_step_ok: "worker_ok g w \<Longrightarrow> worker_step r w w' \<Longrightarrow> worker_ok g w'"
  by (auto simp: worker_ok_def cancel_handlers_def elim!: worker_stepE)

lemma worker_step_ended: "worker_step r w w' \<Longrightarrow> wk_pc w = Ended \<Longrightarrow> wk_pc w' = Ended"
  by (auto elim!: worker_stepE)

lemma worker_ok_unguarded: "worker_ok g w \<Longrightarrow> worker_ok False w"
  by (auto simp: worker_ok_def)

lemma ball_list_update: "P w \<Longrightarrow> \<forall>x \<in> set ws. P x \<Longrightarrow> \<forall>x \<in> set (ws[i := w]). P x"
  using set_update_subset_insert [of ws i w] by blast

lemma serve_step_ok:
  assumes "serve_ok n s" "serve_step s t"
  shows "serve_ok n t"
  using assms(2)
proof cases
  case (Work i w)
  define g where "g = (sr_phase s = Serving \<or> sr_phase s = Stopping)"
  define ws where "ws = (sr_workers s)[i := w]"
  have t: "sr_workers t = ws" "sr_phase t = sr_phase s" "length ws = length (sr_workers s)" by (simp_all add: Work(1) ws_def)
  have i: "sr_workers s ! i \<in> set (sr_workers s)" using Work(2) by simp
  have all: "\<forall>w \<in> set (sr_workers s). worker_ok g w" "sr_phase s = Returned \<Longrightarrow> \<forall>w \<in> set (sr_workers s). wk_pc w = Ended" "length (sr_workers s) = n"
    using assms(1) unfolding serve_ok_def g_def by blast+
  have "worker_ok g w" using worker_step_ok [OF _ Work(3)] all(1) i by blast
  then have ok: "\<forall>x \<in> set ws. worker_ok g x" unfolding ws_def using all(1) by (rule ball_list_update)
  have ended: "\<forall>x \<in> set ws. wk_pc x = Ended" if "sr_phase s = Returned"
    unfolding ws_def
  proof (rule ball_list_update)
    show "wk_pc w = Ended" using worker_step_ended [OF Work(3)] all(2) [OF that] i by blast
    show "\<forall>x \<in> set (sr_workers s). wk_pc x = Ended" using all(2) [OF that] .
  qed
  show ?thesis unfolding serve_ok_def t using all(3) ok ended unfolding g_def by blast
next
  case Own
  then show ?thesis
  proof cases
  case (Abort_worker i)
  have i: "sr_workers s ! i \<in> set (sr_workers s)" using Abort_worker(3) by simp
  have all: "\<forall>w \<in> set (sr_workers s). worker_ok False w" using assms(1) Abort_worker(2) by (simp add: serve_ok_def)
  then have "worker_ok False (sr_workers s ! i)" using i by blast
  then have "worker_ok False (cancel_handlers Ended (sr_workers s ! i))" by (simp add: worker_ok_def cancel_handlers_def)
  from ball_list_update [OF this all, of i]
  show ?thesis using assms(1) Abort_worker(1,2) by (simp add: serve_ok_def)
  qed (use assms(1) in \<open>auto simp: serve_ok_def list_all_iff intro: worker_ok_unguarded\<close>)
qed (use assms(1) in \<open>auto simp: serve_ok_def list_all_iff intro: worker_ok_unguarded\<close>)

interpretation serving: invariant_system "serve_new n" serve_step "serve_ok n" for n
proof unfold_locales
  show "serve_new n s \<Longrightarrow> serve_ok n s" for s
    by (simp add: serve_new_def serve_ok_def worker_ok_def worker_new_def)
qed (rule serve_step_ok)

text \<open>What \<open>serve\<close> has left to do after the request, in steps of its own: the workers never add to it.\<close>

definition running_workers :: "accept_worker list \<Rightarrow> nat" where
  "running_workers ws = length (filter (\<lambda>w. wk_pc w \<noteq> Ended) ws)"

definition stop_work :: "serve_state \<Rightarrow> nat" where
  "stop_work s =
     (case sr_phase s of Returned \<Rightarrow> 0 | Joining \<Rightarrow> Suc (running_workers (sr_workers s)) | _ \<Rightarrow> Suc (Suc (running_workers (sr_workers s))))"

lemma running_workers_update:
  assumes "i < length ws"
  shows "running_workers (ws[i := w]) + (if wk_pc (ws ! i) \<noteq> Ended then 1 else 0) = running_workers ws + (if wk_pc w \<noteq> Ended then 1 else 0)"
proof -
  have "running_workers ws = running_workers (take i ws @ ws ! i # drop (Suc i) ws)"
    using id_take_nth_drop [OF assms] by simp
  moreover have "running_workers (ws[i := w]) = running_workers (take i ws @ w # drop (Suc i) ws)"
    using upd_conv_take_nth_drop [OF assms, of w] by simp
  ultimately show ?thesis by (simp add: running_workers_def)
qed

lemma running_workers_le: "running_workers ws \<le> length ws"
  by (simp add: running_workers_def)

lemma own_step_decreases:
  assumes "serve_own_step s t"
  shows "stop_work t < stop_work s"
  using assms
proof cases
  case (Abort_worker i)
  have "running_workers (sr_workers t) < running_workers (sr_workers s)"
    using running_workers_update [OF Abort_worker(3), of "cancel_handlers Ended (sr_workers s ! i)"] Abort_worker(1,4)
    by (simp add: cancel_handlers_def)
  then show ?thesis using Abort_worker(1,2) by (simp add: stop_work_def)
qed (simp_all add: stop_work_def)

lemma serve_step_no_more_work:
  assumes "serve_step s t" "sr_phase s \<noteq> Serving"
  shows "stop_work t \<le> stop_work s \<and> sr_phase t \<noteq> Serving"
  using assms(1)
proof cases
  case (Work i w)
  have "running_workers (sr_workers t) \<le> running_workers (sr_workers s)"
    using running_workers_update [OF Work(2), of w] worker_step_ended [OF Work(3)] Work(1) by (auto split: if_splits)
  then show ?thesis using Work(1) assms(2) by (cases "sr_phase s") (simp_all add: stop_work_def)
next
  case Own
  have "sr_phase t \<noteq> Serving" using Own by cases simp_all
  then show ?thesis using own_step_decreases [OF Own] by simp
qed (use assms(2) in simp)

lemma own_step_enabled:
  assumes "sr_phase s = Stopping \<or> sr_phase s = Joining"
  shows "\<exists>t. serve_own_step s t"
proof (cases "sr_phase s = Joining \<and> \<not> list_all (\<lambda>w. wk_pc w = Ended) (sr_workers s)")
  case True
  then obtain i where "i < length (sr_workers s)" "wk_pc (sr_workers s ! i) \<noteq> Ended" by (auto simp: list_all_length)
  then show ?thesis using True Abort_worker by blast
next
  case False
  then show ?thesis using assms Drop_guards Return by blast
qed

lemma own_steps_return:
  "sr_phase s \<noteq> Serving \<Longrightarrow> \<exists>k \<le> stop_work s. \<exists>t. (serve_own_step ^^ k) s t \<and> sr_phase t = Returned"
proof (induction "stop_work s" arbitrary: s rule: less_induct)
  case less
  show ?case
  proof (cases "sr_phase s = Returned")
    case True
    then show ?thesis by (intro exI [of _ 0]) simp
  next
    case False
    then obtain t where t: "serve_own_step s t" using own_step_enabled less.prems by (cases "sr_phase s") blast+
    have d: "stop_work t < stop_work s" by (rule own_step_decreases [OF t])
    moreover have "sr_phase t \<noteq> Serving" using serve_step_no_more_work [OF Own [OF t] less.prems] by blast
    ultimately obtain k u where k: "k \<le> stop_work t" "(serve_own_step ^^ k) t u" "sr_phase u = Returned" using less.hyps by blast
    then have "(serve_own_step ^^ Suc k) s u" using t by (metis relpowp_Suc_I2)
    moreover have "Suc k \<le> stop_work s" using k(1) d by simp
    ultimately show ?thesis using k(3) by blast
  qed
qed

section \<open>Periodic tasks\<close>

definition cleanup_interval :: nat where "cleanup_interval = in_flight_underlay_ttl div 2"

text \<open>The table of underlay authentications with the time and the next tick of its cleanup task, which
  runs when it is due.\<close>

record key_clock =
  kc_now :: nat
  kc_next :: nat
  kc_table :: inflight

definition key_clock_new :: "nat \<Rightarrow> key_clock \<Rightarrow> bool" where
  "key_clock_new evict_ms s = (kc_next s = kc_now s \<and> kc_table s = inflight_new in_flight_underlay_ttl evict_ms)"

inductive key_step :: "key_clock \<Rightarrow> key_clock \<Rightarrow> bool" where
  Time: "kc_now s \<le> now \<Longrightarrow> now \<le> kc_next s \<Longrightarrow> key_step s (s\<lparr>kc_now := now\<rparr>)"
| Tick: "kc_now s = kc_next s \<Longrightarrow>
    key_step s (s\<lparr>kc_table := cleanup (kc_now s) (kc_table s), kc_next := kc_next s + cleanup_interval\<rparr>)"
| Key_stored: "key_step s (s\<lparr>kc_table := store (kc_now s) key auth (kc_table s)\<rparr>)"
| Key_verified: "evict_verify (kc_table s) key check auth at = (t, pc :: unit evict_pc) \<Longrightarrow> key_step s (s\<lparr>kc_table := t\<rparr>)"
| Key_awaited: "evict_register (kc_now s) (kc_now s) (kc_table s) key = (t, pc :: unit evict_pc) \<Longrightarrow> key_step s (s\<lparr>kc_table := t\<rparr>)"

text \<open>Where the entries of the table come from, one operation at a time.\<close>

definition entries_from :: "nat \<Rightarrow> inflight \<Rightarrow> inflight \<Rightarrow> bool" where
  "entries_from now t t' =
     (inflight_wf t' \<and> ttl t' = ttl t \<and> evict_timeout t' = evict_timeout t
      \<and> (\<forall>k a at. hm_get (auths t') k = Some (a, at) \<longrightarrow> at = now \<or> hm_get (auths t) k = Some (a, at))
      \<and> (\<forall>k n at. hm_get (waiting t') k = Some (n, at) \<longrightarrow> at = now \<or> hm_get (waiting t) k = Some (n, at)))"

lemma entries_fields [simp]:
  "ttl (retain_auths now t) = ttl t" "evict_timeout (retain_auths now t) = evict_timeout t" "waiting (retain_auths now t) = waiting t"
  "ttl (retain_waiting now t) = ttl t" "evict_timeout (retain_waiting now t) = evict_timeout t"
  by (simp_all add: retain_auths_def retain_waiting_def Let_def)

lemma retained_auth:
  "inflight_wf t \<Longrightarrow> hm_get (auths (retain_auths now t)) k = Some (a, at) \<longleftrightarrow> hm_get (auths t) k = Some (a, at) \<and> now - at \<le> ttl t"
  by (auto simp: retain_auths_def inflight_wf_def hm_get_retain split: option.splits if_splits)

lemma retained_waiter:
  "inflight_wf t \<Longrightarrow>
   hm_get (waiting (retain_waiting now t)) k = Some (n, at) \<longleftrightarrow> hm_get (waiting t) k = Some (n, at) \<and> now - at \<le> evict_timeout t"
  by (auto simp: retain_waiting_def inflight_wf_def hm_get_retain Let_def split: option.splits if_splits)

lemma insert_auth_entries:
  "inflight_wf t \<Longrightarrow> inflight_wf (insert_auth now key auth t) \<Longrightarrow> entries_from now t (insert_auth now key auth t)"
  by (auto simp: entries_from_def insert_auth_def Let_def hm_get_insert hm_get_remove split: option.splits if_splits)

lemma store_entries:
  assumes "inflight_wf t"
  shows "entries_from now t (store now key auth t)"
proof -
  have wf: "inflight_wf (store now key auth t)" "inflight_wf (retain_auths now t)"
    using assms by (simp_all add: store_wf retain_auths_wf)
  have "entries_from now t u" if "entries_from now (retain_auths now t) u" for u
    using that retained_auth [OF assms] by (fastforce simp: entries_from_def)
  moreover have "entries_from now (retain_auths now t) (retain_auths now t)" using wf by (simp add: entries_from_def)
  ultimately show ?thesis
    using wf assms insert_auth_entries [of t now key auth] insert_auth_entries [of "retain_auths now t" now key auth]
    by (auto simp: store_def Let_def split: if_splits)
qed

lemma evict_verify_entries:
  "inflight_wf t \<Longrightarrow> evict_verify t key check auth at = (t', pc) \<Longrightarrow> entries_from now t t'"
  using evict_verify_wf [of t key check auth at t' pc]
  by (auto simp: evict_verify_def entries_from_def hm_get_remove split: option.splits if_splits)

lemma waiter_entry_entries:
  "waiter_entry now t key = (t', pc) \<Longrightarrow> inflight_wf t' \<Longrightarrow> entries_from now t t'"
  by (auto simp: waiter_entry_def entries_from_def hm_get_insert split: option.splits if_splits)

lemma evict_register_entries:
  assumes "inflight_wf t" "evict_register now now t key = (t', pc)"
  shows "entries_from now t t'"
proof -
  have wf: "inflight_wf t'" "inflight_wf (retain_waiting now t)"
    using assms by (simp_all add: evict_register_wf retain_waiting_wf)
  have "entries_from now t u" if "entries_from now (retain_waiting now t) u" for u
    using that retained_waiter [OF assms(1)] by (fastforce simp: entries_from_def)
  moreover have "entries_from now (retain_waiting now t) (retain_waiting now t)" "entries_from now t t"
    using wf assms(1) by (simp_all add: entries_from_def)
  ultimately show ?thesis
    using assms(2) wf by (auto simp: evict_register_def Let_def split: if_splits dest: waiter_entry_entries)
qed

definition keys_fresh :: "nat \<Rightarrow> key_clock \<Rightarrow> bool" where
  "keys_fresh evict_ms s =
     (inflight_wf (kc_table s) \<and> ttl (kc_table s) = in_flight_underlay_ttl \<and> evict_timeout (kc_table s) = evict_ms
      \<and> kc_now s \<le> kc_next s \<and> kc_next s \<le> kc_now s + cleanup_interval
      \<and> (\<forall>k a at. hm_get (auths (kc_table s)) k = Some (a, at) \<longrightarrow>
           at \<le> kc_now s \<and> kc_next s \<le> at + in_flight_underlay_ttl + cleanup_interval)
      \<and> (\<forall>k n at. hm_get (waiting (kc_table s)) k = Some (n, at) \<longrightarrow>
           at \<le> kc_now s \<and> kc_next s \<le> at + evict_ms + cleanup_interval))"

lemma keys_fresh_entries: "keys_fresh e s \<Longrightarrow> entries_from (kc_now s) (kc_table s) t \<Longrightarrow> keys_fresh e (s\<lparr>kc_table := t\<rparr>)"
  unfolding keys_fresh_def entries_from_def by fastforce

lemma keys_fresh_tick:
  assumes "keys_fresh e s" "kc_now s = kc_next s"
  shows "keys_fresh e (s\<lparr>kc_table := cleanup (kc_now s) (kc_table s), kc_next := kc_next s + cleanup_interval\<rparr>)"
proof -
  have wf: "inflight_wf (kc_table s)" using assms(1) by (simp add: keys_fresh_def)
  note r = retained_auth [OF wf] retained_waiter [OF retain_auths_wf [OF wf]]
  show ?thesis
    using assms cleanup_wf [OF wf] by (auto simp: keys_fresh_def cleanup_def r)
qed

lemma key_step_fresh:
  assumes f: "keys_fresh e s" and "key_step s t"
  shows "keys_fresh e t"
proof -
  have wf: "inflight_wf (kc_table s)" using f by (simp add: keys_fresh_def)
  show ?thesis using assms(2)
  proof cases
    case (Time now)
    then show ?thesis using f by (fastforce simp: keys_fresh_def)
  next
    case Tick
    then show ?thesis using keys_fresh_tick [OF f] by simp
  next
    case (Key_stored key auth)
    then show ?thesis using keys_fresh_entries [OF f store_entries [OF wf]] by simp
  next
    case (Key_verified key check auth at t' pc)
    then show ?thesis using keys_fresh_entries [OF f evict_verify_entries [OF wf]] by simp
  next
    case (Key_awaited key t' pc)
    then show ?thesis using keys_fresh_entries [OF f evict_register_entries [OF wf]] by simp
  qed
qed

interpretation key_table: invariant_system "key_clock_new evict_ms" key_step "keys_fresh evict_ms" for evict_ms
proof unfold_locales
  show "key_clock_new evict_ms s \<Longrightarrow> keys_fresh evict_ms s" for s
    by (simp add: key_clock_new_def keys_fresh_def inflight_new_def inflight_wf_def hm_contains_def hm_get_def)
qed (rule key_step_fresh)

text \<open>The certificate task: every entry is one tick, with what the file system and the TLS library answer; \<open>None\<close> when the
  blocking task itself fails.\<close>

definition certificate_loop :: "((string \<Rightarrow> nat option) \<times> (string \<Rightarrow> string \<Rightarrow> 'k option)) option list \<Rightarrow> 'k resolver \<Rightarrow> 'k resolver" where
  "certificate_loop ticks r =
     fold (\<lambda>tick r. case tick of Some (mtime, load) \<Rightarrow> fst (reload mtime load r) | None \<Rightarrow> r) ticks r"

lemma reload_parts:
  "cert_path (fst (reload mtime load r)) = cert_path r" "key_path (fst (reload mtime load r)) = key_path r"
  "cached_key (fst (reload mtime load r)) = cached_key r \<or> load (cert_path r) (key_path r) = Some (cached_key (fst (reload mtime load r)))"
  by (auto simp: reload_def split: sum.split option.split)

lemma certificate_loop_serves:
  "resolve_cert (certificate_loop ticks r) = resolve_cert r
   \<or> (\<exists>mtime load. Some (mtime, load) \<in> set ticks \<and> load (cert_path r) (key_path r) = Some (resolve_cert (certificate_loop ticks r)))"
proof (induction ticks arbitrary: r)
  case (Cons tick ticks)
  show ?case
  proof (cases tick)
    case None
    then show ?thesis using Cons.IH [of r] by (auto simp: certificate_loop_def)
  next
    case (Some p)
    obtain mtime load where p: "p = (mtime, load)" by (cases p)
    define r' where "r' = fst (reload mtime load r)"
    have loop: "certificate_loop (tick # ticks) r = certificate_loop ticks r'" by (simp add: certificate_loop_def Some p r'_def)
    have paths: "cert_path r' = cert_path r" "key_path r' = key_path r"
      and key: "resolve_cert r' = resolve_cert r \<or> load (cert_path r) (key_path r) = Some (resolve_cert r')"
      using reload_parts [of mtime load r] by (simp_all add: r'_def resolve_cert_def)
    from Cons.IH [of r'] show ?thesis
    proof
      assume "resolve_cert (certificate_loop ticks r') = resolve_cert r'"
      moreover have "Some (mtime, load) \<in> set (tick # ticks)" using Some p by simp
      ultimately show ?thesis using key unfolding loop by metis
    qed (auto simp: loop paths)
  qed
qed (simp add: certificate_loop_def)

section \<open>Properties\<close>

lemma client_connections_bounded:
  assumes "reach accept_loop_new accept_step s"
  shows "al_active s \<le> max_concurrent_tcp_connections"
    "al_active s < max_concurrent_tcp_connections \<Longrightarrow> \<exists>t. accept_step\<^sup>*\<^sup>* s t \<and> al_pc t = Accepting"
proof -
  have inv: "permits_kept s" using client_accept.reach_inv [OF assms] .
  then show "al_active s \<le> max_concurrent_tcp_connections" by (simp add: permits_kept_def)
  assume less: "al_active s < max_concurrent_tcp_connections"
  have acquire: "\<exists>t. accept_step\<^sup>*\<^sup>* u t \<and> al_pc t = Accepting" if "al_pc u = AcquirePermit" "0 < al_free u" for u
    using Acquire [OF that] by (intro exI [of _ "u\<lparr>al_free := al_free u - 1, al_pc := Accepting\<rparr>"]) auto
  show "\<exists>t. accept_step\<^sup>*\<^sup>* s t \<and> al_pc t = Accepting"
  proof (cases "al_pc s")
    case AcquirePermit
    then show ?thesis using inv less acquire [of s] by (simp add: permits_kept_def)
  next
    case Accepting
    then show ?thesis by blast
  next
    case Backoff
    have "\<exists>t. accept_step\<^sup>*\<^sup>* (s\<lparr>al_pc := AcquirePermit\<rparr>) t \<and> al_pc t = Accepting"
      using inv less Backoff acquire [of "s\<lparr>al_pc := AcquirePermit\<rparr>"] by (simp add: permits_kept_def)
    then show ?thesis using Retry [OF Backoff] by (meson converse_rtranclp_into_rtranclp)
  qed
qed

text \<open>\<^bold>\<open>C39.\<close>  An authentication that no packet claims is forgotten: with the cleanup task running every half time
  to live, no entry of the table is older than 15 seconds, and no waiter is registered for longer
  than its timeout and 5 seconds, in every interleaving with the connections and packets that use
  the table.\<close>

theorem keys_expire:
  assumes "reach (key_clock_new evict_ms) key_step s"
  shows "(hm_get (auths (kc_table s)) k = Some (auth, at) \<longrightarrow> at \<le> kc_now s \<and> kc_now s - at \<le> 15000)
    \<and> (hm_get (waiting (kc_table s)) k' = Some (notify, since) \<longrightarrow> since \<le> kc_now s \<and> kc_now s - since \<le> evict_ms + 5000)"
proof -
  have "keys_fresh evict_ms s" using key_table.reach_inv [OF assms] .
  then show ?thesis unfolding keys_fresh_def cleanup_interval_def in_flight_underlay_ttl_def by fastforce
qed

theorem keys_expire_witness:
  "\<exists>s. reach (key_clock_new 100) key_step s \<and> hm_get (auths (kc_table s)) [1] = Some (sample_auth, 7) \<and> kc_now s = 10000
     \<and> kc_now s - 7 \<le> 15000"
proof -
  let ?init = "\<lambda>s. key_clock_new 100 s"
  define t0 where "t0 = cleanup 0 (inflight_new in_flight_underlay_ttl 100)"
  define t where "t = store 7 [1] sample_auth t0"
  have t0: "t0 = inflight_new in_flight_underlay_ttl 100"
    by (simp add: t0_def cleanup_def retain_auths_def retain_waiting_def inflight_new_def hm_retain_def)
  have g: "hm_get (auths t) [1] = Some (sample_auth, 7)" "ttl t = 10000" "inflight_wf t"
    by (simp_all add: t_def t0 store_def insert_auth_def inflight_new_def inflight_wf_def hm_wf_def hm_contains_def hm_get_def hm_insert_def
      max_in_flight_underlay_entries_def in_flight_underlay_ttl_def)
  have "reach ?init key_step \<lparr>kc_now = 0, kc_next = 0, kc_table = inflight_new in_flight_underlay_ttl 100\<rparr>"
    by (rule reach_init) (simp add: key_clock_new_def)
  from reach_step [OF this Tick] have "reach ?init key_step \<lparr>kc_now = 0, kc_next = 5000, kc_table = t0\<rparr>"
    by (simp add: t0_def cleanup_interval_def in_flight_underlay_ttl_def)
  from reach_step [OF this Time, of 7] have "reach ?init key_step \<lparr>kc_now = 7, kc_next = 5000, kc_table = t0\<rparr>" by simp
  from reach_step [OF this Key_stored, of "[1]" sample_auth] have "reach ?init key_step \<lparr>kc_now = 7, kc_next = 5000, kc_table = t\<rparr>"
    by (simp add: t_def)
  from reach_step [OF this Time, of 5000] have "reach ?init key_step \<lparr>kc_now = 5000, kc_next = 5000, kc_table = t\<rparr>" by simp
  from reach_step [OF this Tick] have "reach ?init key_step \<lparr>kc_now = 5000, kc_next = 10000, kc_table = cleanup 5000 t\<rparr>"
    by (simp add: cleanup_interval_def in_flight_underlay_ttl_def)
  from reach_step [OF this Time, of 10000] have r: "reach ?init key_step \<lparr>kc_now = 10000, kc_next = 10000, kc_table = cleanup 5000 t\<rparr>" by simp
  have "hm_get (auths (cleanup 5000 t)) [1] = Some (sample_auth, 7)" using g by (simp add: cleanup_def retained_auth)
  then show ?thesis using r keys_expire [OF r, of "[1]" sample_auth 7]
    by (intro exI [of _ "\<lparr>kc_now = 10000, kc_next = 10000, kc_table = cleanup 5000 t\<rparr>"]) simp
qed

text \<open>\<^bold>\<open>C40.\<close>  Connection handlers are bounded and do not outlive the server: a worker never has more than 1024, counting
  those already cancelled; a worker that ended by itself has left none behind; when \<open>serve\<close> has
  returned every handler has ended or was cancelled.  Once the shutdown is requested, no handler can keep
  \<open>serve\<close> from returning: until it has returned a step of its own, which waits for no worker and no handler,
  is possible; in every interleaving it has at most two more of them left than there are workers, each
  leaves less to do and the workers never add to it; and its own steps alone lead to the return.\<close>

theorem serve_shutdown_clean:
  assumes "reach (serve_new n) serve_step s"
  shows "list_all (\<lambda>w. wk_active w + wk_cancelled w \<le> 1024) (sr_workers s)
    \<and> (sr_phase s \<noteq> Joining \<and> sr_phase s \<noteq> Returned \<longrightarrow>
         list_all (\<lambda>w. wk_pc w = Ended \<longrightarrow> wk_active w = 0 \<and> wk_cancelled w = 0) (sr_workers s))
    \<and> (sr_phase s = Returned \<longrightarrow> length (sr_workers s) = n \<and> list_all (\<lambda>w. wk_pc w = Ended \<and> wk_active w = 0) (sr_workers s))
    \<and> (sr_phase s \<noteq> Serving \<and> sr_phase s \<noteq> Returned \<longrightarrow> (\<exists>t. serve_own_step s t))
    \<and> (sr_phase s \<noteq> Serving \<longrightarrow> stop_work s \<le> n + 2
        \<and> (\<forall>t. serve_step s t \<longrightarrow> stop_work t \<le> stop_work s \<and> (serve_own_step s t \<longrightarrow> stop_work t < stop_work s))
        \<and> (\<exists>k \<le> n + 2. \<exists>t. (serve_own_step ^^ k) s t \<and> sr_phase t = Returned))"
proof -
  have inv: "serve_ok n s" using serving.reach_inv [OF assms] .
  then have "running_workers (sr_workers s) \<le> n" using running_workers_le [of "sr_workers s"] by (simp add: serve_ok_def)
  then have bound: "stop_work s \<le> n + 2" by (simp add: stop_work_def split: serve_phase.split)
  have "\<exists>k \<le> n + 2. \<exists>t. (serve_own_step ^^ k) s t \<and> sr_phase t = Returned" if "sr_phase s \<noteq> Serving"
    using own_steps_return [OF that] bound le_trans by blast
  moreover have "\<exists>t. serve_own_step s t" if "sr_phase s \<noteq> Serving" "sr_phase s \<noteq> Returned"
    using that own_step_enabled [of s] by (cases "sr_phase s") blast+
  moreover have "w \<in> set (sr_workers s) \<Longrightarrow> worker_ok (sr_phase s = Serving \<or> sr_phase s = Stopping) w" for w
    using inv by (simp add: serve_ok_def)
  moreover from this have "w \<in> set (sr_workers s) \<Longrightarrow> wk_active w + wk_cancelled w \<le> 1024" for w
    by (fastforce simp: worker_ok_def max_concurrent_connection_handlers_def)
  moreover have "list_all (\<lambda>w. wk_pc w = Ended \<longrightarrow> wk_active w = 0 \<and> wk_cancelled w = 0) (sr_workers s)"
    if "sr_phase s \<noteq> Joining" "sr_phase s \<noteq> Returned"
    using calculation(3) that by (cases "sr_phase s") (auto simp: worker_ok_def list_all_iff)
  moreover have "length (sr_workers s) = n \<and> list_all (\<lambda>w. wk_pc w = Ended \<and> wk_active w = 0) (sr_workers s)"
    if "sr_phase s = Returned"
    using inv that by (auto simp: serve_ok_def worker_ok_def list_all_iff)
  ultimately show ?thesis
    using bound own_step_decreases serve_step_no_more_work unfolding list_all_iff by blast
qed

theorem serve_shutdown_clean_witness:
  "\<exists>k \<le> 3. \<exists>t. (serve_own_step ^^ k)
     \<lparr>sr_phase = Stopping, sr_workers = [\<lparr>wk_free = 1023, wk_pc = Selecting, wk_active = 1, wk_cancelled = 0\<rparr>]\<rparr> t \<and> sr_phase t = Returned"
proof -
  let ?w = "\<lparr>wk_free = 1023, wk_pc = Selecting, wk_active = 1, wk_cancelled = 0\<rparr>"
  have "reach (serve_new 1) serve_step \<lparr>sr_phase = Serving, sr_workers = [worker_new]\<rparr>"
    by (rule reach_init) (simp add: serve_new_def)
  from reach_step [OF this Work [of 0, OF _ Incoming]]
  have "reach (serve_new 1) serve_step \<lparr>sr_phase = Serving, sr_workers = [worker_new\<lparr>wk_pc := Admitting\<rparr>]\<rparr>"
    by (simp add: worker_new_def)
  from reach_step [OF this Work [of 0, OF _ Admit]]
  have "reach (serve_new 1) serve_step \<lparr>sr_phase = Serving, sr_workers = [?w]\<rparr>"
    by (simp add: worker_new_def max_concurrent_connection_handlers_def)
  from reach_step [OF this Shutdown] have "reach (serve_new 1) serve_step \<lparr>sr_phase = Stopping, sr_workers = [?w]\<rparr>" by simp
  from serve_shutdown_clean [OF this]
  have "\<exists>k \<le> 1 + 2. \<exists>t. (serve_own_step ^^ k) \<lparr>sr_phase = Stopping, sr_workers = [?w]\<rparr> t \<and> sr_phase t = Returned" by simp
  moreover have "1 + 2 = (3 :: nat)" by simp
  ultimately show ?thesis by metis
qed

end
