(* ===== verification/Commands.thy ===== *)
theory Commands
  imports Forwarder Server_Setup
begin

text \<open>
  The command line programs, \<open>server/src/main.rs\<close> and \<open>client/src/main.rs\<close>: what \<open>run\<close> starts and what
  \<open>export\<close> prints.

  Parameters (\<open>export_env\<close>): the interfaces of \<open>if_addrs\<close>, the answers of \<open>dialoguer\<close>, the PEM and
  X.509 readers, the verdict of \<open>webpki\<close>, SHA-256, the hex and base64 encoders, the serialiser of
  share links and the QR code writers.  \<open>None\<close> is an error of such a call.  Logging and the parsing of
  arguments are left out.
\<close>

section \<open>Addresses for the share link\<close>

record if_addr =
  ia_name :: string
  ia_ip :: ip_addr
  ia_loopback :: bool

datatype pem_item = PemCertificate bytes | PemOther

record export_env =
  xe_addrs :: "if_addr list option"
  xe_multi_select :: "string list \<Rightarrow> nat list option"
  xe_input :: "string \<Rightarrow> string option"
  xe_select :: "string list \<Rightarrow> nat option"
  xe_confirm :: "bool option"
  xe_domains :: "string \<Rightarrow> cert_domains option"
  xe_pem_first :: "string \<Rightarrow> pem_item option option"
  xe_pem_certs :: "string \<Rightarrow> bytes list option"
  xe_webpki :: "bytes list \<Rightarrow> bool option"
  xe_sha :: "bytes \<Rightarrow> bytes"
  xe_hex :: "bytes \<Rightarrow> string"
  xe_b64 :: "bytes \<Rightarrow> string"
  xe_serialize :: "string \<Rightarrow> string"
  xe_qr :: "string \<Rightarrow> bool"
  xe_png :: "string \<Rightarrow> string \<Rightarrow> bool"

datatype export_error = NoInterfaceList | InterfaceNotFound string | InterfaceWithoutIp string | PromptFailed
  | NoAddresses | NothingSelected | OutOfBounds | UnwrapNone | EmptyDomain | LinkFailed link_error | QrFailed | PngFailed
  | JsonFailed config_error

text \<open>IPv6 addresses are put in brackets.\<close>

fun url_ip :: "ip_addr \<Rightarrow> string" where
  "url_ip (IpV4 ip) = ip_str (IpV4 ip)"
| "url_ip (IpV6 ip) = ''['' @ ip_str (IpV6 ip) @ '']''"

definition get_interface_ips :: "export_env \<Rightarrow> string \<Rightarrow> export_error + string list" where
  "get_interface_ips x interface_name =
     and_then (ok_or NoInterfaceList (xe_addrs x)) (\<lambda>addrs.
       let matching = filter (\<lambda>a. ia_name a = interface_name) addrs;
           found = matching \<noteq> [];
           ips = map (url_ip \<circ> ia_ip) matching
       in if \<not> found then Inl (InterfaceNotFound interface_name)
          else if ips = [] then Inl (InterfaceWithoutIp interface_name) else Inr ips)"

definition candidate :: "if_addr \<Rightarrow> string \<times> string" where
  "candidate a = (ia_name a @ '' ('' @ url_ip (ia_ip a) @ '')'', url_ip (ia_ip a))"

definition interactive_select_interfaces :: "export_env \<Rightarrow> export_error + string list" where
  "interactive_select_interfaces x =
     and_then (ok_or NoInterfaceList (xe_addrs x)) (\<lambda>addrs.
       let candidates = map candidate (filter (\<lambda>a. \<not> ia_loopback a) addrs) in
       if candidates = [] then Inl NoAddresses
       else and_then (ok_or PromptFailed (xe_multi_select x (map fst candidates))) (\<lambda>selections.
         if selections = [] then Inl NothingSelected
         else if list_all (\<lambda>i. i < length candidates) selections then Inr (map (\<lambda>i. snd (candidates ! i)) selections)
         else Inl OutOfBounds))"

definition resolve_export_hosts :: "export_env \<Rightarrow> string option \<Rightarrow> export_error + string list" where
  "resolve_export_hosts x iface =
     (case iface of Some name \<Rightarrow> get_interface_ips x name | None \<Rightarrow> interactive_select_interfaces x)"

section \<open>SNI\<close>

definition interactive_input_domain :: "export_env \<Rightarrow> string \<Rightarrow> export_error + string" where
  "interactive_input_domain x wildcard_pattern =
     and_then (ok_or PromptFailed (xe_input x wildcard_pattern)) (\<lambda>domain. if domain = [] then Inl EmptyDomain else Inr domain)"

definition interactive_select_domain :: "export_env \<Rightarrow> string list \<Rightarrow> export_error + string" where
  "interactive_select_domain x domains =
     and_then (ok_or PromptFailed (xe_select x domains)) (\<lambda>i. if i < length domains then Inr (domains ! i) else Inl OutOfBounds)"

definition resolve_export_sni :: "export_env \<Rightarrow> config \<Rightarrow> string option \<Rightarrow> export_error + string option" where
  "resolve_export_sni x c domain =
     (case domain of
        Some d \<Rightarrow> Inr (Some d)
      | None \<Rightarrow>
          if cf_certificate c = [] then Inr (non_empty (cf_sni c))
          else case xe_domains x (cf_certificate c) of
            None \<Rightarrow> Inr (non_empty (cf_sni c))
          | Some domains \<Rightarrow>
              (case pick_preferred_domain domains None of
                 Some preferred \<Rightarrow> Inr (Some preferred)
               | None \<Rightarrow>
                   if cd_is_wildcard domains \<and> length (cd_sans domains) \<le> 1
                   then (case or_else (case cd_sans domains of s # _ \<Rightarrow> Some s | [] \<Rightarrow> None) (cd_cn domains) of
                           None \<Rightarrow> Inl UnwrapNone
                         | Some pattern \<Rightarrow> and_then (interactive_input_domain x pattern) (\<lambda>d. Inr (Some d)))
                   else if cd_sans domains \<noteq> []
                   then and_then (interactive_select_domain x (cd_sans domains)) (\<lambda>d. Inr (Some d))
                   else Inr (cd_cn domains)))"

section \<open>Pins\<close>

definition compute_cert_sha256 :: "export_env \<Rightarrow> string \<Rightarrow> string option" where
  "compute_cert_sha256 x path =
     (case xe_pem_first x path of Some (Some (PemCertificate der)) \<Rightarrow> Some (xe_hex x (xe_sha x der)) | _ \<Rightarrow> None)"

definition compute_cert_chain_hash :: "export_env \<Rightarrow> string \<Rightarrow> string option" where
  "compute_cert_chain_hash x path =
     (case xe_pem_certs x path of
        None \<Rightarrow> None
      | Some raw_certs \<Rightarrow> if raw_certs = [] then None else Some (xe_b64 x (generate_cert_chain_hash (xe_sha x) raw_certs)))"

definition is_cert_trusted :: "export_env \<Rightarrow> string \<Rightarrow> bool option" where
  "is_cert_trusted x path =
     (case xe_pem_certs x path of
        None \<Rightarrow> None
      | Some certs_der \<Rightarrow> if certs_der = [] then None else xe_webpki x certs_der)"

record export_args =
  ea_link :: bool
  ea_qrcode :: bool
  ea_qrcode_png :: "string option"
  ea_json_server :: bool
  ea_json_client :: bool
  ea_socks_port :: u16
  ea_interface :: "string option"
  ea_domain :: "string option"
  ea_with_cert_sha256 :: bool
  ea_with_certchain_sha256 :: bool

text \<open>Without an output flag the link is printed.\<close>

definition do_link :: "export_args \<Rightarrow> bool" where
  "do_link a = (ea_link a \<or> \<not> ea_link a \<and> \<not> ea_qrcode a \<and> ea_qrcode_png a = None \<and> \<not> ea_json_server a \<and> \<not> ea_json_client a)"

definition requested_pin :: "export_env \<Rightarrow> export_args \<Rightarrow> config \<Rightarrow> string option" where
  "requested_pin x a c =
     (if ea_with_cert_sha256 a \<and> cf_certificate c \<noteq> [] then compute_cert_sha256 x (cf_certificate c)
      else if ea_with_certchain_sha256 a \<and> cf_certificate c \<noteq> [] then compute_cert_chain_hash x (cf_certificate c)
      else None)"

definition auto_pin :: "export_env \<Rightarrow> export_args \<Rightarrow> config \<Rightarrow> export_error + string option" where
  "auto_pin x a c =
     (if \<not> ea_with_cert_sha256 a \<and> \<not> ea_with_certchain_sha256 a \<and> do_link a \<and> cf_certificate c \<noteq> []
      then (case is_cert_trusted x (cf_certificate c) of
              Some False \<Rightarrow>
                and_then (ok_or PromptFailed (xe_confirm x)) (\<lambda>yes.
                  Inr (if yes then compute_cert_chain_hash x (cf_certificate c) else None))
            | _ \<Rightarrow> Inr None)
      else Inr None)"

definition export_pin :: "export_env \<Rightarrow> export_args \<Rightarrow> config \<Rightarrow> export_error + string option" where
  "export_pin x a c = and_then (auto_pin x a c) (\<lambda>auto. Inr (or_else (requested_pin x a c) auto))"

section \<open>Export\<close>

datatype export_output = OutLink string | OutQr string | OutPng string string | OutJson "(string \<times> json) list"

definition safe_host :: "string \<Rightarrow> string" where
  "safe_host host = map (\<lambda>ch. if ch = CHR ''['' \<or> ch = CHR '']'' \<or> ch = CHR '':'' then CHR ''_'' else ch) host"

definition png_path :: "nat \<Rightarrow> string \<Rightarrow> string \<Rightarrow> string" where
  "png_path hosts host base_path =
     (if 1 < hosts
      then (case rsplit_once (CHR ''.'') base_path of
              Some (stem, ext) \<Rightarrow> stem @ ''-'' @ safe_host host @ ''.'' @ ext
            | None \<Rightarrow> base_path @ ''-'' @ safe_host host)
      else base_path)"

text \<open>What was written so far and whether the command goes on.\<close>

type_synonym written = "export_output list \<times> (export_error + unit)"

definition emit :: "bool \<Rightarrow> bool \<Rightarrow> export_error \<Rightarrow> export_output \<Rightarrow> written \<Rightarrow> written" where
  "emit wanted ok e out w =
     (case w of (os, Inl e') \<Rightarrow> (os, Inl e')
      | (os, Inr _) \<Rightarrow> if \<not> wanted then w else if ok then (os @ [out], Inr ()) else (os, Inl e))"

definition export_host :: "export_env \<Rightarrow> export_args \<Rightarrow> config \<Rightarrow> string option \<Rightarrow> string option \<Rightarrow> nat \<Rightarrow> string \<Rightarrow> written \<Rightarrow> written" where
  "export_host x a c sni pin hosts host w =
     (case w of (os, Inl e) \<Rightarrow> w
      | (os, Inr _) \<Rightarrow>
          (case generate_share_link (xe_serialize x) c (Some host) sni pin of
             Inl e \<Rightarrow> (os, Inl (LinkFailed e))
           | Inr link \<Rightarrow>
               let w1 = emit (do_link a) True QrFailed (OutLink link) w;
                   w2 = emit (ea_qrcode a) (xe_qr x link) QrFailed (OutQr link) w1
               in case ea_qrcode_png a of
                    None \<Rightarrow> w2
                  | Some base_path \<Rightarrow>
                      let out_path = png_path hosts host base_path in
                      emit True (xe_png x link out_path) PngFailed (OutPng link out_path) w2))"

definition export_links :: "export_env \<Rightarrow> export_args \<Rightarrow> config \<Rightarrow> string option \<Rightarrow> written" where
  "export_links x a c pin =
     (case resolve_export_hosts x (ea_interface a) of
        Inl e \<Rightarrow> ([], Inl e)
      | Inr hosts \<Rightarrow>
          (case resolve_export_sni x c (ea_domain a) of
             Inl e \<Rightarrow> ([], Inl e)
           | Inr sni \<Rightarrow> fold (export_host x a c sni pin (length hosts)) hosts ([], Inr ())))"

definition server_export :: "export_env \<Rightarrow> export_args \<Rightarrow> config \<Rightarrow> written" where
  "server_export x a c =
     (case export_pin x a c of
        Inl e \<Rightarrow> ([], Inl e)
      | Inr pin \<Rightarrow>
          let w = (if do_link a \<or> ea_qrcode a \<or> ea_qrcode_png a \<noteq> None then export_links x a c pin else ([], Inr ()));
              w1 = emit (ea_json_server a) True QrFailed (OutJson (to_server_json c)) w
          in if \<not> ea_json_client a then w1
             else case to_client_json_from_server (ea_socks_port a) c of
               Inl e \<Rightarrow> (case w1 of (os, Inl e') \<Rightarrow> (os, Inl e') | (os, Inr _) \<Rightarrow> (os, Inl (JsonFailed e)))
             | Inr j \<Rightarrow> emit True True QrFailed (OutJson j) w1)"

record client_export_args =
  cx_link :: bool
  cx_qrcode :: bool
  cx_qrcode_png :: "string option"
  cx_json :: bool

definition client_export :: "export_env \<Rightarrow> client_export_args \<Rightarrow> config \<Rightarrow> written" where
  "client_export x a c =
     (let w = (if cx_link a \<or> cx_qrcode a \<or> cx_qrcode_png a \<noteq> None
               then (case generate_share_link (xe_serialize x) c None None None of
                       Inl e \<Rightarrow> ([], Inl (LinkFailed e))
                     | Inr link \<Rightarrow>
                         let w1 = emit (cx_link a) True QrFailed (OutLink link) ([], Inr ());
                             w2 = emit (cx_qrcode a) (xe_qr x link) QrFailed (OutQr link) w1
                         in case cx_qrcode_png a of
                              None \<Rightarrow> w2 | Some path \<Rightarrow> emit True (xe_png x link path) PngFailed (OutPng link path) w2)
               else ([], Inr ()))
      in emit (cx_json a) True QrFailed (OutJson (to_client_json c)) w)"

section \<open>Run\<close>

datatype run_error = RunConfig config_error | RunClient client_error | RunForward forward_error | RunSetup setup_error

datatype service = Preconnect | ForwardTasks "forward_task list" | LocalProxy string | WaitForever

definition set_fwmark :: "u32 option \<Rightarrow> config \<Rightarrow> config" where
  "set_fwmark fwmark c = (case fwmark of Some m \<Rightarrow> c\<lparr>cf_fwmark := Some m\<rparr> | None \<Rightarrow> c)"

text \<open>The services of a client, in the order in which they are started.\<close>

definition client_run :: "(string \<Rightarrow> bool) \<Rightarrow> (config \<Rightarrow> client_error + juicity_client) \<Rightarrow> u32 option \<Rightarrow> config \<Rightarrow>
    run_error + (juicity_client \<times> service list)" where
  "client_run uuid_ok new fwmark c =
     (let c1 = set_fwmark fwmark c in
      and_then (map_err RunConfig (validate_for_client uuid_ok c1)) (\<lambda>_.
      and_then (map_err RunClient (new c1)) (\<lambda>client.
      and_then (if cf_forward c1 \<noteq> [] then and_then (map_err RunForward (forwarder_new (cf_forward c1))) (\<lambda>es. Inr [ForwardTasks (forwarder_start es)])
                else Inr []) (\<lambda>fs.
        Inr (client, [Preconnect] @ fs @ [if cf_listen c1 \<noteq> [] then LocalProxy (cf_listen c1) else WaitForever])))))"

definition server_run :: "(string \<Rightarrow> bool) \<Rightarrow> (string \<Rightarrow> bool) \<Rightarrow> (config \<Rightarrow> setup_error + juicity_server) \<Rightarrow> config \<Rightarrow>
    run_error + (juicity_server \<times> (socket_addr \<times> bool))" where
  "server_run uuid_ok exists_file new c =
     and_then (map_err RunConfig (validate_for_server uuid_ok exists_file c)) (\<lambda>_.
     and_then (map_err RunSetup (new c)) (\<lambda>server.
     and_then (map_err RunSetup (listen_addr (cf_listen c))) (\<lambda>a. Inr (server, a))))"

definition chosen_log_level :: "string option \<Rightarrow> config \<Rightarrow> string" where
  "chosen_log_level log_level c = (case log_level of Some l \<Rightarrow> l | None \<Rightarrow> cf_log_level c)"

section \<open>Lemmas\<close>

lemma chain_pin:
  "export_pin x a c = Inr (Some pin) \<Longrightarrow> \<not> ea_with_cert_sha256 a \<Longrightarrow> compute_cert_chain_hash x (cf_certificate c) = Some pin"
  by (auto simp: export_pin_def auto_pin_def requested_pin_def and_then_eq_Inr split: if_splits option.splits bool.splits
      elim!: or_else.elims)

lemma cert_pin:
  "export_pin x a c = Inr (Some pin) \<Longrightarrow> ea_with_cert_sha256 a \<Longrightarrow> \<exists>der. pin = xe_hex x (xe_sha x der)"
  by (auto simp: export_pin_def auto_pin_def requested_pin_def compute_cert_sha256_def and_then_eq_Inr
      split: if_splits option.splits pem_item.splits elim!: or_else.elims)

lemma link_carries_pin:
  assumes "generate_share_link ser c host sni (Some pin) = Inr link" "pin \<noteq> []"
  shows "\<exists>front. link = front @ ''&pinned_certchain_sha256='' @ url_encode_param ser pin"
proof -
  have j: "join ''&'' (xs @ [y, z]) = join ''&'' (xs @ [y]) @ ''&'' @ z" for xs y z
    by (induction xs rule: induct_list012) simp_all
  have c: "\<exists>xs y. s # b @ [u, v] = xs @ [y, v]" for s u v :: string and b by (rule exI [of _ "s # b"]) simp
  have "\<exists>xs y. link_query ser c h s (Some pin) = xs @ [y, ''pinned_certchain_sha256='' @ url_encode_param ser pin]" for h s
    using assms(2) by (simp add: link_query_def Let_def non_empty_def c)
  then obtain xs y where q: "link_query ser c h s (Some pin) = xs h s @ [y h s, ''pinned_certchain_sha256='' @ url_encode_param ser pin]" for h s
    by metis
  let ?addr = "if cf_server c \<noteq> [] then cf_server c else cf_listen c"
  obtain up hp where u: "link_credentials c = Inr up" and p: "parse_host_port ?addr = Inr hp"
    using assms(1) unfolding generate_share_link_def and_then_eq_Inr by (auto simp: and_then_eq_Inr)
  let ?h = "case host of Some h \<Rightarrow> h | None \<Rightarrow> fst hp"
  let ?front = "''juicity://'' @ encode_credential ser (fst up) @ '':'' @ encode_credential ser (snd up) @ ''@'' @ ?h @ '':''
      @ dec_str (unat (snd hp)) @ ''?''"
  have "link = ?front @ join ''&'' (link_query ser c ?h sni (Some pin))"
    using assms(1) [symmetric] by (simp only: generate_share_link_def u p case_prod_beta Let_def and_then.simps sum.inject append_assoc)
  then show ?thesis
    by (intro exI [of _ "?front @ join ''&'' (xs ?h sni @ [y ?h sni])"]) (simp only: q j append_assoc, simp)
qed

text \<open>The files of different addresses do not overwrite each other.\<close>

lemma safe_host_inj: "safe_host (url_ip a) = safe_host (url_ip b) \<Longrightarrow> a = b"
proof -
  assume eq: "safe_host (url_ip a) = safe_host (url_ip b)"
  let ?f = "\<lambda>ch. if ch = CHR ''['' \<or> ch = CHR '']'' \<or> ch = CHR '':'' then CHR ''_'' else ch"
  have v4: "map ?f (v4_str i) = v4_str i" for i
    by (rule map_idI) (use v4_str_chars [of _ i] in fastforce)
  have v4n: "CHR ''_'' \<notin> set (v4_str i)" for i using v4_str_chars [of "CHR ''_''" i] by auto
  have v6n: "CHR ''_'' \<notin> set (v6_str i)" for i by (rule v6_str_notin) (simp_all add: to_digit_def)
  have v6: "map ?f (v6_str i) = map ?f (v6_str j) \<Longrightarrow> v6_str i = v6_str j" for i j
    using v6_str_no_bracket(1,2) v6n by (intro map_inj_on [of ?f "v6_str i" "v6_str j"]) (auto simp: inj_on_def split: if_splits)
  have mark: "CHR ''_'' \<in> set (safe_host (url_ip (IpV6 i)))" "CHR ''_'' \<notin> set (safe_host (url_ip (IpV4 i')))" for i i'
    using v4n by (simp_all add: safe_host_def v4)
  have ip: "ip_str a = ip_str b \<Longrightarrow> a = b" for a b by (metis option.inject parse_ip_str)
  show "a = b"
  proof (cases a; cases b)
    fix i j assume ab: "a = IpV4 i" "b = IpV4 j"
    then show ?thesis using eq ip [of a b] by (simp add: safe_host_def v4)
  next
    fix i j assume ab: "a = IpV6 i" "b = IpV6 j"
    then show ?thesis using eq ip [of a b] v6 [of i j] by (simp add: safe_host_def)
  next
    fix i j assume ab: "a = IpV4 i" "b = IpV6 j"
    then show ?thesis using eq mark(1) [of j] mark(2) [of i] by simp
  next
    fix i j assume ab: "a = IpV6 i" "b = IpV4 j"
    then show ?thesis using eq mark(1) [of i] mark(2) [of j] by simp
  qed
qed

lemma png_path_inj: "1 < n \<Longrightarrow> png_path n (url_ip a) p = png_path n (url_ip b) p \<Longrightarrow> a = b"
  by (auto simp: png_path_def dest: safe_host_inj split: option.splits)

text \<open>A base path without an extension but with a dot in a directory name is cut at that dot.\<close>

lemma png_path_in_dotted_dir: "png_path 2 ''h'' ''./qr'' = ''-h./qr''"
  by (simp add: png_path_def rsplit_once_def safe_host_def)

text \<open>Reading the domains never panics, as long as the prompts answer with one of the items shown.\<close>

lemma export_sni_total:
  assumes "\<And>d. xe_domains x (cf_certificate c) = Some d \<Longrightarrow> \<exists>name alts. d = cert_domains_of name alts"
    and "\<And>l i. xe_select x l = Some i \<Longrightarrow> i < length l"
  shows "resolve_export_sni x c domain \<noteq> Inl UnwrapNone" "resolve_export_sni x c domain \<noteq> Inl OutOfBounds"
proof -
  have i: "interactive_input_domain x p \<noteq> Inl UnwrapNone" "interactive_input_domain x p \<noteq> Inl OutOfBounds" for p
    by (cases "xe_input x p"; simp add: interactive_input_domain_def)+
  have s: "interactive_select_domain x l \<noteq> Inl UnwrapNone" "interactive_select_domain x l \<noteq> Inl OutOfBounds" for l
    using assms(2) [of l] by (cases "xe_select x l"; simp add: interactive_select_domain_def)+
  have t: "and_then r (\<lambda>d. Inr (f d)) = Inl e \<longleftrightarrow> r = Inl e" for r :: "export_error + 'b" and f :: "'b \<Rightarrow> 'c" and e
    by (cases r) simp_all
  show "resolve_export_sni x c domain \<noteq> Inl UnwrapNone" "resolve_export_sni x c domain \<noteq> Inl OutOfBounds"
    using assms(1) i s
    by (auto simp: resolve_export_sni_def t cert_domains_of_def split: option.splits list.splits)
qed

lemma client_run_serves:
  "client_run uuid_ok new fwmark c = Inr (client, ss) \<Longrightarrow>
   (\<exists>l. LocalProxy l \<in> set ss) \<or> (\<exists>es. ForwardTasks es \<in> set ss)"
  by (cases fwmark) (auto simp: client_run_def set_fwmark_def Let_def and_then_eq_Inr validate_for_client_def ensure_def split: if_splits)

section \<open>Properties\<close>

text \<open>What is used of the encoders: URL-safe base64 is undone by its decoder, and hexadecimal text has two
  lower-case digits per byte.\<close>

definition b64_faithful :: "(bytes \<Rightarrow> string) \<Rightarrow> (string \<Rightarrow> bytes option) \<Rightarrow> bool" where
  "b64_faithful enc dec = (\<forall>bs. dec (enc bs) = Some bs \<and> (bs \<noteq> [] \<longrightarrow> enc bs \<noteq> []))"

definition hex_digit :: "char \<Rightarrow> bool" where
  "hex_digit c = (let n = of_char c :: nat in 48 \<le> n \<and> n \<le> 57 \<or> 97 \<le> n \<and> n \<le> 102)"

definition hex_encoder :: "(bytes \<Rightarrow> string) \<Rightarrow> bool" where
  "hex_encoder enc = (\<forall>bs. length (enc bs) = 2 * length bs \<and> list_all hex_digit (enc bs))"

text \<open>Base64 gives three bytes for four digits; hexadecimal digits are digits of base64.\<close>

definition b64_decodes_hex :: "(string \<Rightarrow> bytes option) \<Rightarrow> bool" where
  "b64_decodes_hex dec = (\<forall>s n. length s = 4 * n \<and> list_all hex_digit s \<longrightarrow> (\<exists>h. dec s = Some h \<and> length h = 3 * n))"

text \<open>\<^bold>\<open>C34.\<close>  A pin exported by the server lets the client in and nobody else: when the server exports a
  link with a chain pin (asked for or offered for an untrusted certificate), the link ends with it, and
  a client configured with it, with \<open>allow_insecure\<close> off, decodes it to the hash of the server's chain and
  accepts this chain.  It accepts another chain of this length only if a text that is hashed for the other
  chain (a certificate, or a hash before a hash) collides under SHA-256 with a different text that is
  hashed for the server's chain; for a chain of another length, unless the first certificate of one of
  the chains is a mere 64 bytes.\<close>

theorem exported_chain_pin_accepted:
  assumes "sha256_ok (xe_sha x)" "b64_faithful (xe_b64 x) b64_url"
    and "export_pin x a c = Inr (Some pin)" "\<not> ea_with_cert_sha256 a" "xe_pem_certs x (cf_certificate c) = Some (der # chain)"
    and "generate_share_link (xe_serialize x) c host sni (Some pin) = Inr link"
  shows "\<exists>front h. link = front @ ''&pinned_certchain_sha256='' @ url_encode_param (xe_serialize x) pin
    \<and> decode_pin b64_url b64_std hex pin = Inr h
    \<and> verify_server_cert (xe_sha x) (tls_verifier (build_tls_config False h early)) webpki der chain
    \<and> (der' # chain' \<noteq> der # chain
       \<and> verify_server_cert (xe_sha x) (tls_verifier (build_tls_config False h early)) webpki der' chain' \<longrightarrow>
       (\<exists>u \<in> set (chain_inputs (xe_sha x) None (der' # chain')). \<exists>v \<in> set (chain_inputs (xe_sha x) None (der # chain)).
          u \<noteq> v \<and> xe_sha x u = xe_sha x v)
       \<or> length chain' \<noteq> length chain \<and> (length der' = 64 \<or> length der = 64))"
proof -
  let ?h = "generate_cert_chain_hash (xe_sha x) (der # chain)"
  have pin: "pin = xe_b64 x ?h" using chain_pin [OF assms(3,4)] assms(5) by (simp add: compute_cert_chain_hash_def)
  have bind: "der' # chain' \<noteq> der # chain \<and> generate_cert_chain_hash (xe_sha x) (der' # chain') = ?h \<longrightarrow>
      chain_collision (xe_sha x) (der' # chain') (der # chain)
      \<or> length chain' \<noteq> length chain \<and> (length der' = 64 \<or> length der = 64)"
    using cert_chain_hash_binding [OF assms(1), of "der' # chain'" "der # chain"] by (simp del: chain_inputs.simps)
  have "length ?h = 32" by (rule chain_hash_length [OF assms(1)]) simp
  then have ne: "?h \<noteq> []" by auto
  then have "pin \<noteq> []" "b64_url pin = Some ?h" using assms(2) by (simp_all add: pin b64_faithful_def)
  moreover obtain front where "link = front @ ''&pinned_certchain_sha256='' @ url_encode_param (xe_serialize x) pin"
    using link_carries_pin [OF assms(6)] calculation(1) by blast
  moreover have "tls_verifier (build_tls_config False ?h early) = PinVerify ?h" using ne by (simp add: build_tls_config_def)
  ultimately show ?thesis using bind unfolding chain_collision_def
    by (intro exI [of _ front] exI [of _ ?h]) (simp add: decode_pin_def verify_server_cert_def del: chain_inputs.simps)
qed

text \<open>\<^bold>\<open>C35.\<close>  The pin of a single certificate locks every client out: \<open>--with-cert-sha256\<close> puts 64 hexadecimal
  digits into the link; the client tries base64 first, which decodes them to 48 bytes, so it refuses
  every chain, the server's own included.\<close>

theorem exported_cert_pin_refused:
  assumes "sha256_ok (xe_sha x)" "hex_encoder (xe_hex x)" "b64_decodes_hex b64_url"
    and "export_pin x a c = Inr (Some pin)" "ea_with_cert_sha256 a"
  shows "length pin = 64 \<and> (\<exists>h. decode_pin b64_url b64_std hex pin = Inr h
    \<and> (\<forall>webpki der chain. \<not> verify_server_cert (xe_sha x) (tls_verifier (build_tls_config False h early)) webpki der chain))"
proof -
  obtain der where pin: "pin = xe_hex x (xe_sha x der)" using cert_pin [OF assms(4,5)] by blast
  have len: "length pin = 4 * 16" "list_all hex_digit pin" using assms(1,2) by (simp_all add: pin hex_encoder_def sha256_ok_def)
  then obtain h where h: "b64_url pin = Some h" "length h = 3 * 16" using assms(3) unfolding b64_decodes_hex_def by blast
  have "pin \<noteq> []" using len(1) by auto
  then have "decode_pin b64_url b64_std hex pin = Inr h
      \<and> \<not> verify_server_cert (xe_sha x) (tls_verifier (build_tls_config False h early)) webpki der chain" for webpki der chain
    using h assms(1) by (intro hex_pin_never_matches) simp_all
  then show ?thesis using len(1) by auto
qed

text \<open>An environment with toy encoders that have the stated properties.\<close>

definition demo_hex :: "bytes \<Rightarrow> string" where
  "demo_hex bs = replicate (2 * length bs) (CHR ''a'')"

definition demo_export :: export_env where
  "demo_export = \<lparr>xe_addrs = Some [], xe_multi_select = (\<lambda>_. None), xe_input = (\<lambda>_. None), xe_select = (\<lambda>_. None), xe_confirm = Some True,
     xe_domains = (\<lambda>_. None), xe_pem_first = (\<lambda>_. Some (Some (PemCertificate [1]))), xe_pem_certs = (\<lambda>_. Some [[1], [2]]),
     xe_webpki = (\<lambda>_. Some False), xe_sha = (\<lambda>b. replicate 32 (sum_list b)), xe_hex = demo_hex, xe_b64 = bytes_str,
     xe_serialize = (\<lambda>s. CHR ''='' # s), xe_qr = (\<lambda>_. True), xe_png = (\<lambda>_ _. True)\<rparr>"

definition demo_export_args :: "bool \<Rightarrow> export_args" where
  "demo_export_args cert = \<lparr>ea_link = True, ea_qrcode = False, ea_qrcode_png = None, ea_json_server = False, ea_json_client = False,
     ea_socks_port = 1080, ea_interface = None, ea_domain = None, ea_with_cert_sha256 = cert, ea_with_certchain_sha256 = False\<rparr>"

definition demo_server_config :: config where
  "demo_server_config = config_default\<lparr>cf_listen := ''[::]:443'', cf_users := [(''u'', ''p'')], cf_certificate := ''c''\<rparr>"

lemma demo_export_sha: "sha256_ok (xe_sha demo_export)"
  by (simp add: sha256_ok_def demo_export_def)

theorem exported_chain_pin_accepted_witness:
  "\<exists>pin h. export_pin demo_export (demo_export_args False) demo_server_config = Inr (Some pin)
     \<and> decode_pin (\<lambda>s. Some (str_bytes s)) (\<lambda>_. None) (\<lambda>_. None) pin = Inr h
     \<and> verify_server_cert (xe_sha demo_export) (tls_verifier (build_tls_config False h True)) False [1] [[2]]"
proof -
  let ?pin = "bytes_str (generate_cert_chain_hash (xe_sha demo_export) [[1], [2]])"
  have pin: "export_pin demo_export (demo_export_args False) demo_server_config = Inr (Some ?pin)"
    by (simp add: export_pin_def auto_pin_def requested_pin_def is_cert_trusted_def compute_cert_chain_hash_def demo_export_def
      demo_export_args_def do_link_def demo_server_config_def)
  have "dec_str 443 = ''443''" by code_simp
  then obtain link where link: "generate_share_link (xe_serialize demo_export) demo_server_config (Some ''h'') None (Some ?pin) = Inr link"
    using parse_host_port_bracket [of "''::''" 443]
    by (simp add: generate_share_link_def link_credentials_def demo_server_config_def config_default_def Let_def)
  have "bytes_str bs = [] \<longleftrightarrow> bs = []" for bs by (simp add: bytes_str_def)
  then have enc: "b64_faithful (xe_b64 demo_export) (\<lambda>s. Some (str_bytes s))"
    and certs: "xe_pem_certs demo_export (cf_certificate demo_server_config) = Some [[1], [2]]"
    by (simp_all add: b64_faithful_def demo_export_def)
  have flag: "\<not> ea_with_cert_sha256 (demo_export_args False)" by (simp add: demo_export_args_def)
  obtain h where "decode_pin (\<lambda>s. Some (str_bytes s)) (\<lambda>_. None) (\<lambda>_. None) ?pin = Inr h"
    "verify_server_cert (xe_sha demo_export) (tls_verifier (build_tls_config False h True)) False [1] [[2]]"
    using exported_chain_pin_accepted [OF demo_export_sha enc pin flag certs link,
        where b64_std = "\<lambda>_. None" and hex = "\<lambda>_. None" and early = True and webpki = False and der' = "[]" and chain' = "[]"]
    by (elim exE conjE) (rule that)
  then show ?thesis using pin by (intro exI [of _ ?pin] exI [of _ h]) simp
qed

lemma hex_digit_b64: "hex_digit c \<Longrightarrow> \<exists>v. b64_value c = Some v"
  by (auto simp: hex_digit_def b64_value_def Let_def)

lemma b64_quads_hex: "b64_decodes_hex b64_quads"
proof -
  have "\<exists>h. b64_quads s = Some h \<and> length h = 3 * n" if "length s = 4 * n" "list_all hex_digit s" for s n
    using that
  proof (induction s arbitrary: n rule: b64_quads.induct)
    case (2 a b c d s)
    obtain m where n: "n = Suc m" using 2(2) by (cases n) simp_all
    obtain h where h: "b64_quads s = Some h" "length h = 3 * m" using 2 n hex_digit_b64 by fastforce
    moreover obtain w x y z where "b64_value a = Some w" "b64_value b = Some x" "b64_value c = Some y" "b64_value d = Some z"
      using 2(3) hex_digit_b64 [of a] hex_digit_b64 [of b] hex_digit_b64 [of c] hex_digit_b64 [of d] by auto
    ultimately show ?case using n by (simp add: Let_def)
  qed (simp_all, presburger+)
  then show ?thesis by (simp add: b64_decodes_hex_def)
qed

theorem exported_cert_pin_refused_witness:
  "\<exists>h. decode_pin b64_quads b64_quads (\<lambda>_. None) (replicate 64 (CHR ''a'')) = Inr h
     \<and> \<not> verify_server_cert (xe_sha demo_export) (tls_verifier (build_tls_config False h True)) False [1] [[2]]"
proof -
  have pin: "export_pin demo_export (demo_export_args True) demo_server_config = Inr (Some (replicate 64 (CHR ''a'')))"
    by (simp add: export_pin_def auto_pin_def requested_pin_def compute_cert_sha256_def demo_export_def demo_export_args_def
      demo_server_config_def demo_hex_def)
  have "hex_encoder (xe_hex demo_export)" "ea_with_cert_sha256 (demo_export_args True)"
    by (simp_all add: hex_encoder_def demo_export_def demo_hex_def demo_export_args_def hex_digit_def list_all_iff)
  then show ?thesis using exported_cert_pin_refused [OF demo_export_sha _ b64_quads_hex pin, of b64_quads "\<lambda>_. None" True] by blast
qed

end
