(* ===== verification/Gui_Config.thy ===== *)
theory Gui_Config
  imports Text_Lemmas
begin

text \<open>
  The desktop application's data and storage: \<open>gui/src/config.rs\<close>, \<open>gui/src/util.rs\<close>,
  \<open>gui/src/validate.rs\<close> and the loading part of \<open>gui/src/state.rs\<close>.

  A file system is a map from paths to entries.  An entry that exists but cannot be read (a
  directory, missing permissions) is \<open>Unreadable\<close>.  Where a system call of \<open>write_atomic\<close> fails is
  an argument; the same states are those a crash leaves behind.  \<open>parse\<close> and \<open>print\<close> stand for
  \<open>serde_json\<close>.
\<close>

section \<open>Profiles and settings\<close>

datatype proxy_protocol = Juicity | Shadowsocks

datatype system_proxy_mode = ProxyDisable | ProxyPac | ProxyGlobal

datatype pac_mode = PacLocal | PacOnline

datatype pac_rule_mode = BypassChina | ProxyGfw

record proxy_profile =
  pp_name :: string
  pp_protocol :: proxy_protocol
  pp_server :: string
  pp_server_port :: u16
  pp_password :: string
  pp_uuid :: string
  pp_sni :: "string option"
  pp_allow_insecure :: bool
  pp_pinned :: "string option"
  pp_congestion_control :: "string option"
  pp_method :: string
  pp_plugin :: "string option"
  pp_plugin_opts :: "string option"
  pp_plugin_args :: "string option"
  pp_timeout :: u32
  pp_group :: "string option"
  pp_config_path :: "string option"
  pp_link :: "string option"

definition new_server :: string where "new_server = ''New Server''"

definition profile_default :: proxy_profile where
  "profile_default = \<lparr>pp_name = new_server, pp_protocol = Juicity, pp_server = [], pp_server_port = 443,
     pp_password = [], pp_uuid = [], pp_sni = None, pp_allow_insecure = False, pp_pinned = None,
     pp_congestion_control = None, pp_method = ''chacha20-ietf-poly1305'', pp_plugin = None, pp_plugin_opts = None,
     pp_plugin_args = None, pp_timeout = 5, pp_group = None, pp_config_path = None, pp_link = None\<rparr>"

definition normalize_congestion_control :: "string \<Rightarrow> string option" where
  "normalize_congestion_control v =
     (let s = to_lower (trim v) in
      if s = ''bbr'' then Some ''bbr''
      else if s = ''cubic'' then Some ''cubic''
      else if s = ''newreno'' \<or> s = ''new_reno'' then Some ''new_reno''
      else None)"

definition display_name :: "proxy_profile \<Rightarrow> string" where
  "display_name p =
     (if pp_name p \<noteq> [] \<and> pp_name p \<noteq> new_server then pp_name p
      else if pp_server p \<noteq> [] then pp_server p @ '':'' @ dec_str (unat (pp_server_port p))
      else new_server)"

record app_config =
  ac_mixed_listen :: string
  ac_system_proxy_mode :: system_proxy_mode
  ac_pac_mode :: pac_mode
  ac_pac_rule_mode :: pac_rule_mode
  ac_pac_listen :: string
  ac_online_pac_url :: "string option"
  ac_pac_direct_url :: string
  ac_pac_proxy_url :: string
  ac_pac_auto_update_hours :: u32

definition app_config_default :: app_config where
  "app_config_default = \<lparr>ac_mixed_listen = ''127.0.0.1:1080'', ac_system_proxy_mode = ProxyDisable,
     ac_pac_mode = PacLocal, ac_pac_rule_mode = BypassChina, ac_pac_listen = ''127.0.0.1:1090'',
     ac_online_pac_url = None,
     ac_pac_direct_url = ''https://raw.githubusercontent.com/Loyalsoldier/v2ray-rules-dat/release/direct-list.txt'',
     ac_pac_proxy_url = ''https://raw.githubusercontent.com/Loyalsoldier/v2ray-rules-dat/release/proxy-list.txt'',
     ac_pac_auto_update_hours = 0\<rparr>"

datatype startup_connection_state = StartOff | StartOn | LastState

datatype language_preference = LangFollowSystem | LangEn | LangZhCn | LangZhTw | LangRu

datatype appearance_preference = AppearanceFollowSystem | AppearanceLight | AppearanceDark

record runtime_state =
  rn_language :: language_preference
  rn_appearance :: appearance_preference
  rn_auto_start :: bool
  rn_selected_profile :: nat
  rn_close_to_tray :: bool
  rn_hide_window_on_startup :: bool
  rn_startup_connection_state :: startup_connection_state
  rn_was_running :: bool

definition runtime_default :: runtime_state where
  "runtime_default = \<lparr>rn_language = LangFollowSystem, rn_appearance = AppearanceFollowSystem, rn_auto_start = False,
     rn_selected_profile = 0, rn_close_to_tray = True, rn_hide_window_on_startup = False,
     rn_startup_connection_state = StartOff, rn_was_running = False\<rparr>"

section \<open>Addresses and validation\<close>

fun find_sub :: "string \<Rightarrow> string \<Rightarrow> nat option" where
  "find_sub p [] = (if p = [] then Some 0 else None)"
| "find_sub p (c # s) = (if starts_with p (c # s) then Some 0 else map_option Suc (find_sub p s))"

definition port_or_zero :: "string \<Rightarrow> u16" where
  "port_or_zero s = (case parse_u16 s of Some p \<Rightarrow> p | None \<Rightarrow> 0)"

definition split_host_port :: "string \<Rightarrow> string \<times> u16" where
  "split_host_port addr =
     (case strip_prefix ''['' addr of
        Some rest \<Rightarrow>
          (case find_sub '']:'' rest of
             Some pos \<Rightarrow> (take pos rest, port_or_zero (drop (pos + 2) rest))
           | None \<Rightarrow> (take (length addr - 1 - 1) (drop 1 addr), 0))
      | None \<Rightarrow>
          (case rfind_char (CHR '':'') addr of
             Some pos \<Rightarrow> (take pos addr, port_or_zero (drop (pos + 1) addr))
           | None \<Rightarrow> (addr, 0)))"

definition format_host_port :: "string \<Rightarrow> u16 \<Rightarrow> string" where
  "format_host_port host port =
     (if contains_char (CHR '':'') host then ''['' @ host @ '']:'' @ dec_str (unat port)
      else host @ '':'' @ dec_str (unat port))"

datatype required_field = RequiredServer | RequiredUuid | RequiredPassword

definition missing_fields :: "proxy_profile \<Rightarrow> required_field list" where
  "missing_fields p =
     (if trim (pp_server p) = [] then [RequiredServer] else [])
     @ (case pp_protocol p of
          Juicity \<Rightarrow> (if trim (pp_uuid p) = [] then [RequiredUuid] else [])
            @ (if pp_password p = [] then [RequiredPassword] else [])
        | Shadowsocks \<Rightarrow> (if pp_password p = [] \<and> pp_method p \<notin> {''none'', ''plain''} then [RequiredPassword] else []))"

definition non_empty_text :: "string \<Rightarrow> string option" where
  "non_empty_text s = (let t = trim s in if t = [] then None else Some t)"

section \<open>Storage\<close>

datatype entry = File bytes | Unreadable

type_synonym files = "string \<Rightarrow> entry option"

text \<open>\<open>Path::with_extension\<close> for a path with a file name.\<close>

definition with_extension :: "string \<Rightarrow> string \<Rightarrow> string" where
  "with_extension ext path =
     (let (dir, name) = (case rfind_char (CHR ''/'') path of
            Some i \<Rightarrow> (take (Suc i) path, drop (Suc i) path) | None \<Rightarrow> ([], path));
          stem = (case rfind_char (CHR ''.'') name of
            Some i \<Rightarrow> if i = 0 then name else take i name | None \<Rightarrow> name)
      in dir @ stem @ ''.'' @ ext)"

record config_paths =
  cp_config_dir :: string
  cp_app_json :: string
  cp_profiles_json :: string
  cp_runtime_json :: string

definition in_dir :: "string \<Rightarrow> config_paths" where
  "in_dir dir = \<lparr>cp_config_dir = dir, cp_app_json = dir @ ''/app.json'', cp_profiles_json = dir @ ''/profiles.json'',
     cp_runtime_json = dir @ ''/runtime.json''\<rparr>"

datatype storage_error = ReadFailed string | InvalidJson string | MkdirFailed | CreateFailed | WriteFailed | SyncFailed
  | RenameFailed | PrintFailed

datatype io_fault = MkdirFault | CreateFault | WriteFault nat | SyncFault | RenameFault

definition load_with_bytes :: "(bytes \<Rightarrow> 'a option) \<Rightarrow> 'a \<Rightarrow> files \<Rightarrow> string \<Rightarrow> storage_error + ('a \<times> bytes option)" where
  "load_with_bytes parse dflt m path =
     (case m path of
        None \<Rightarrow> Inr (dflt, None)
      | Some Unreadable \<Rightarrow> Inl (ReadFailed path)
      | Some (File content) \<Rightarrow>
          (case parse content of
             None \<Rightarrow> Inl (InvalidJson path)
           | Some v \<Rightarrow> Inr (v, Some content)))"

text \<open>A rename onto an entry that is not a file fails.\<close>

definition write_atomic :: "io_fault option \<Rightarrow> string \<Rightarrow> bytes \<Rightarrow> files \<Rightarrow> files \<times> (storage_error + unit)" where
  "write_atomic fault path payload m =
     (let tmp = with_extension ''tmp'' path in
      case fault of
        Some MkdirFault \<Rightarrow> (m, Inl MkdirFailed)
      | Some CreateFault \<Rightarrow> (m, Inl CreateFailed)
      | Some (WriteFault k) \<Rightarrow> (m(tmp \<mapsto> File (take k payload)), Inl WriteFailed)
      | Some SyncFault \<Rightarrow> (m(tmp \<mapsto> File payload), Inl SyncFailed)
      | Some RenameFault \<Rightarrow> (m(tmp \<mapsto> File payload), Inl RenameFailed)
      | None \<Rightarrow> if m path = Some Unreadable then (m(tmp \<mapsto> File payload), Inl RenameFailed)
                else ((m(tmp := None))(path \<mapsto> File payload), Inr ()))"

definition save_pretty_json :: "('a \<Rightarrow> bytes option) \<Rightarrow> io_fault option \<Rightarrow> string \<Rightarrow> 'a \<Rightarrow> files \<Rightarrow>
    files \<times> (storage_error + unit)" where
  "save_pretty_json print fault path v m =
     (case print v of None \<Rightarrow> (m, Inl PrintFailed) | Some payload \<Rightarrow> write_atomic fault path payload m)"

text \<open>\<open>renamed\<close>: moving the bad file aside succeeded.\<close>

definition load_or_recover :: "bool \<Rightarrow> string \<Rightarrow> 'a \<Rightarrow> storage_error + 'a \<Rightarrow> files \<Rightarrow> 'a \<times> files" where
  "load_or_recover renamed path dflt loaded m =
     (case loaded of
        Inr v \<Rightarrow> (v, m)
      | Inl _ \<Rightarrow> (dflt, if renamed then (m(with_extension ''json.bad'' path := m path))(path := None) else m))"

section \<open>State\<close>

record gui_state =
  gs_config :: app_config
  gs_profiles :: "proxy_profile list"
  gs_runtime :: runtime_state

record ('a, 'b, 'c) json_parsers =
  parse_app :: "bytes \<Rightarrow> 'a option"
  parse_profiles :: "bytes \<Rightarrow> 'b option"
  parse_runtime :: "bytes \<Rightarrow> 'c option"

type_synonym gui_parsers = "(app_config, proxy_profile list, runtime_state) json_parsers"

definition load_tracked :: "gui_parsers \<Rightarrow> bool \<Rightarrow> config_paths \<Rightarrow> files \<Rightarrow>
    gui_state \<times> (bytes option \<times> bytes option \<times> bytes option) \<times> files" where
  "load_tracked ps renamed paths m =
     (let ((config, app), m1) = load_or_recover renamed (cp_app_json paths) (app_config_default, None)
            (load_with_bytes (parse_app ps) app_config_default m (cp_app_json paths)) m;
          ((profiles, profiles_bytes), m2) = load_or_recover renamed (cp_profiles_json paths) ([], None)
            (load_with_bytes (parse_profiles ps) [] m1 (cp_profiles_json paths)) m1;
          ((rt, runtime_bytes), m3) = load_or_recover renamed (cp_runtime_json paths) (runtime_default, None)
            (load_with_bytes (parse_runtime ps) runtime_default m2 (cp_runtime_json paths)) m2;
          state = (if profiles = []
            then \<lparr>gs_config = config, gs_profiles = [profile_default], gs_runtime = rt\<lparr>rn_selected_profile := 0\<rparr>\<rparr>
            else \<lparr>gs_config = config, gs_profiles = profiles, gs_runtime = rt\<rparr>)
      in (state, (app, profiles_bytes, runtime_bytes), m3))"

definition selected_profile :: "gui_state \<Rightarrow> proxy_profile option" where
  "selected_profile s =
     (let i = rn_selected_profile (gs_runtime s) in if i < length (gs_profiles s) then Some (gs_profiles s ! i) else None)"

definition normalize_selected_index :: "gui_state \<Rightarrow> gui_state" where
  "normalize_selected_index s =
     (let s' = (if gs_profiles s = [] then s\<lparr>gs_profiles := [profile_default]\<rparr> else s) in
      if length (gs_profiles s') \<le> rn_selected_profile (gs_runtime s')
      then s'\<lparr>gs_runtime := (gs_runtime s')\<lparr>rn_selected_profile := length (gs_profiles s') - 1\<rparr>\<rparr>
      else s')"

section \<open>Lemmas\<close>

lemma find_sub_append:
  assumes "\<And>a b. s = a @ b \<Longrightarrow> b \<noteq> [] \<Longrightarrow> \<not> starts_with p (b @ p @ t)"
  shows "p \<noteq> [] \<Longrightarrow> find_sub p (s @ p @ t) = Some (length s)"
  using assms
proof (induction s)
  case Nil
  have "starts_with p (p @ t)" by (simp add: starts_with_def)
  then show ?case using Nil by (cases p) simp_all
next
  case (Cons c s)
  have "\<not> starts_with p ((c # s) @ p @ t)" by (rule Cons.prems(2) [of "[]"]) simp_all
  moreover have "find_sub p (s @ p @ t) = Some (length s)"
    using Cons.prems(2) [of "c # _"] by (intro Cons.IH [OF Cons.prems(1)]) simp
  ultimately show ?case by simp
qed

text \<open>Writing and splitting an address.\<close>

lemma split_format_host_port:
  assumes "\<not> starts_with ''['' host" "CHR '']'' \<notin> set host"
  shows "split_host_port (format_host_port host port) = (host, port)"
proof (cases "contains_char (CHR '':'') host")
  case True
  let ?t = "dec_str (unat port)"
  have "\<not> starts_with '']:'' (b @ '']:'' @ ?t)" if "host = a @ b" "b \<noteq> []" for a b
    using assms(2) that by (cases b) (auto simp: starts_with_def)
  then have "find_sub '']:'' (host @ '']:'' @ ?t) = Some (length host)"
    by (intro find_sub_append) simp_all
  then show ?thesis
    using True by (simp add: format_host_port_def split_host_port_def strip_prefix_def starts_with_def
        port_or_zero_def parse_u16_dec_str)
next
  case False
  let ?a = "host @ CHR '':'' # dec_str (unat port)"
  have "\<not> starts_with ''['' ?a" using assms(1) by (cases host) auto
  moreover have "rfind_char (CHR '':'') ?a = Some (length host)"
    using dec_str_no_char by (intro rfind_char_append) blast
  ultimately show ?thesis
    using False by (simp add: format_host_port_def split_host_port_def strip_prefix_def
        port_or_zero_def parse_u16_dec_str)
qed

lemma normalized_selection: "\<exists>p. selected_profile (normalize_selected_index s) = Some p"
  by (auto simp: selected_profile_def normalize_selected_index_def Let_def)

lemma loaded_profiles_not_empty: "gs_profiles (fst (load_tracked ps renamed paths m)) \<noteq> []"
  by (simp add: load_tracked_def Let_def split: prod.split)

lemma write_atomic_path:
  assumes "with_extension ''tmp'' path \<noteq> path"
  shows "fst (write_atomic fault path payload m) path \<in> {m path, Some (File payload)}"
    "snd (write_atomic fault path payload m) = Inr () \<Longrightarrow> fst (write_atomic fault path payload m) path = Some (File payload)"
    "q \<noteq> path \<Longrightarrow> q \<noteq> with_extension ''tmp'' path \<Longrightarrow> fst (write_atomic fault path payload m) q = m q"
  using assms by (auto simp: write_atomic_def Let_def split: option.splits io_fault.splits if_splits)

lemma with_extension_file:
  assumes "CHR ''/'' \<notin> set stem" "CHR ''/'' \<notin> set e" "CHR ''.'' \<notin> set e" "stem \<noteq> []"
  shows "with_extension ext (dir @ ''/'' @ stem @ ''.'' @ e) = dir @ ''/'' @ stem @ ''.'' @ ext"
proof -
  have "rfind_char (CHR ''/'') (dir @ CHR ''/'' # stem @ CHR ''.'' # e) = Some (length dir)"
    using assms by (intro rfind_char_append) auto
  moreover have "rfind_char (CHR ''.'') (stem @ CHR ''.'' # e) = Some (length stem)"
    using assms by (intro rfind_char_append) auto
  ultimately show ?thesis using assms(4) by (simp add: with_extension_def)
qed

text \<open>The three files and their temporary files never get in each other's way.\<close>

lemma config_paths_tmp:
  "with_extension ''tmp'' (cp_app_json (in_dir dir)) = dir @ ''/app.tmp''"
  "with_extension ''tmp'' (cp_profiles_json (in_dir dir)) = dir @ ''/profiles.tmp''"
  "with_extension ''tmp'' (cp_runtime_json (in_dir dir)) = dir @ ''/runtime.tmp''"
  using with_extension_file [of "''app''" "''json''" "''tmp''" dir] with_extension_file [of "''profiles''" "''json''" "''tmp''" dir]
    with_extension_file [of "''runtime''" "''json''" "''tmp''" dir]
  by (simp_all add: in_dir_def)

section \<open>Properties\<close>

text \<open>Saving a configuration file never loses it: wherever the write fails or the
  application dies, loading afterwards gives either the value stored before or the new one,
  and the new one if the save was reported as successful; no other file changes except the
  temporary one.\<close>

lemma save_crash_safe:
  assumes "with_extension ''tmp'' path \<noteq> path" "print v = Some payload" "parse payload = Some v"
    and "m path = Some (File old)" "parse old = Some v0" "save_pretty_json print fault path v m = (m', res)"
  shows "load_with_bytes parse dflt m' path \<in> {Inr (v0, Some old), Inr (v, Some payload)}
    \<and> (res = Inr () \<longrightarrow> load_with_bytes parse dflt m' path = Inr (v, Some payload))
    \<and> (\<forall>q. q \<noteq> path \<and> q \<noteq> with_extension ''tmp'' path \<longrightarrow> m' q = m q)"
proof -
  have "write_atomic fault path payload m = (m', res)" using assms(2,6) by (simp add: save_pretty_json_def)
  then show ?thesis
    using write_atomic_path(1,2) [OF assms(1), of fault payload m] write_atomic_path(3) [OF assms(1), of _ fault payload m] assms(3-5)
    by (auto simp: load_with_bytes_def)
qed

lemma save_crash_safe_witness:
  "\<exists>m' res. save_pretty_json Some (Some (WriteFault 1)) ''d/app.json'' [2, 3] [''d/app.json'' \<mapsto> File [1]] = (m', res)
    \<and> load_with_bytes Some [] m' ''d/app.json'' \<in> {Inr ([1], Some [1]), Inr ([2, 3], Some [2, 3])}"
proof -
  have t: "with_extension ''tmp'' ''d/app.json'' \<noteq> ''d/app.json''" by code_simp
  obtain m' res where r: "save_pretty_json Some (Some (WriteFault 1)) ''d/app.json'' [2, 3] [''d/app.json'' \<mapsto> File [1]] = (m', res)"
    by fastforce
  then show ?thesis
    using save_crash_safe [OF t, where print = Some and v = "[2, 3]" and payload = "[2, 3]" and parse = Some
        and m = "[''d/app.json'' \<mapsto> File [1]]" and old = "[1]" and ?v0.0 = "[1]" and dflt = "[]", OF _ _ _ _ r]
    by simp
qed

end
