(* ===== verification/Gui_Core.thy ===== *)
theory Gui_Core
  imports Gui_Link Client
begin

text \<open>
  The core manager of the desktop application, \<open>gui/src/core.rs\<close>.

  State: the running core, the runtime, and every \<open>FlowCounters\<close> ever created together with the
  reader thread that shares it (the running core names its counters by their position).

  Parameters: \<open>load_file\<close> and \<open>load_ss\<close> read a complete configuration file, \<open>ss_json\<close> is the JSON
  loader of \<open>shadowsocks-service\<close>, \<open>ne\<close> is \<open>u64::from_ne_bytes\<close>, and \<open>reading\<close> is what
  \<open>JuicityClient::traffic\<close> returns.  The outcomes of starting the runtime, of binding, and of
  \<open>Server::new\<close> are arguments.
\<close>

section \<open>Building configurations\<close>

datatype core_error =
    CoreConfig config_error
  | CoreRead string
  | CoreSsConfig
  | CoreRuntime
  | CoreClient client_error
  | CoreIo nat
  | CoreFlowStat

definition core_non_empty :: "string option \<Rightarrow> string option" where
  "core_non_empty v = (case map_option trim v of Some t \<Rightarrow> if t \<noteq> [] then Some t else None | None \<Rightarrow> None)"

text \<open>\<open>exists_file\<close> is \<open>Path::exists\<close>.\<close>

definition build_juicity_config :: "(string \<Rightarrow> bool) \<Rightarrow> (string \<Rightarrow> config option) \<Rightarrow> (string \<Rightarrow> bool) \<Rightarrow>
    app_config \<Rightarrow> proxy_profile \<Rightarrow> core_error + config" where
  "build_juicity_config exists_file load_file uuid_ok cfg p =
     (let checked = (\<lambda>c. and_then (map_err CoreConfig (validate_for_client uuid_ok c)) (\<lambda>_. Inr c));
          built = config_default\<lparr>
            cf_server := format_host_port (pp_server p) (pp_server_port p),
            cf_uuid := pp_uuid p, cf_password := pp_password p,
            cf_sni := (case filled (pp_sni p) of Some s \<Rightarrow> s | None \<Rightarrow> pp_server p),
            cf_allow_insecure := pp_allow_insecure p,
            cf_pinned_certchain_sha256 := (case core_non_empty (pp_pinned p) of Some s \<Rightarrow> s | None \<Rightarrow> []),
            cf_congestion_control := (case core_non_empty (pp_congestion_control p) of Some s \<Rightarrow> s | None \<Rightarrow> ''bbr''),
            cf_listen := ac_mixed_listen cfg, cf_log_level := ''info''\<rparr>
      in case pp_config_path p of
           Some path \<Rightarrow>
             if exists_file path then and_then (ok_or (CoreRead path) (load_file path)) checked
             else checked built
         | None \<Rightarrow> checked built)"

text \<open>The JSON value handed to the Shadowsocks loader.\<close>

datatype ss_json = SStr string | SNum nat | SArr "ss_json list" | SObj "(string \<times> ss_json) list"

definition shadowsocks_json :: "app_config \<Rightarrow> proxy_profile \<Rightarrow> ss_json" where
  "shadowsocks_json cfg p =
     (let (addr, port) = split_host_port (ac_mixed_listen cfg) in
      SObj ([(''server'', SStr (pp_server p)), (''server_port'', SNum (unat (pp_server_port p))),
             (''password'', SStr (pp_password p)), (''method'', SStr (pp_method p)),
             (''locals'', SArr [SObj [(''local_address'', SStr addr), (''local_port'', SNum (unat port)),
                                    (''protocol'', SStr ''socks'')]]),
             (''timeout'', SNum (unat (pp_timeout p)))]
        @ (case filled (pp_plugin p) of
             None \<Rightarrow> []
           | Some plugin \<Rightarrow> [(''plugin'', SStr plugin)]
               @ (case filled (pp_plugin_opts p) of Some opts \<Rightarrow> [(''plugin_opts'', SStr opts)] | None \<Rightarrow> [])
               @ (case filled (pp_plugin_args p) of
                    Some args \<Rightarrow> [(''plugin_args'', SArr (map SStr (split_whitespace args)))] | None \<Rightarrow> []))))"

definition build_shadowsocks_config :: "(string \<Rightarrow> bool) \<Rightarrow> (string \<Rightarrow> 's option) \<Rightarrow> (ss_json \<Rightarrow> 's option) \<Rightarrow>
    app_config \<Rightarrow> proxy_profile \<Rightarrow> core_error + 's" where
  "build_shadowsocks_config exists_file load_ss load_json cfg p =
     (case pp_config_path p of
        Some path \<Rightarrow>
          if exists_file path then ok_or (CoreRead path) (load_ss path)
          else ok_or CoreSsConfig (load_json (shadowsocks_json cfg p))
      | None \<Rightarrow> ok_or CoreSsConfig (load_json (shadowsocks_json cfg p)))"

section \<open>Retrying a bind\<close>

text \<open>\<open>op n\<close> is the outcome of the attempt number \<open>n\<close>.  The result tells how often \<open>op\<close> was
  called and how often the loop slept; the outcome \<open>None\<close> is the panic of \<open>expect\<close>.\<close>

datatype bind_error = AddrInUse | OtherIo nat

function retry_from :: "nat \<Rightarrow> nat \<Rightarrow> (nat \<Rightarrow> bind_error + 'a) \<Rightarrow> nat \<Rightarrow> bind_error option \<Rightarrow> nat \<times> nat \<times> (bind_error + 'a) option" where
  "retry_from attempts attempt op sleeps last_err =
     (if attempt < attempts then
        (case op attempt of
           Inr v \<Rightarrow> (Suc attempt, sleeps, Some (Inr v))
         | Inl AddrInUse \<Rightarrow>
             retry_from attempts (Suc attempt) op (if Suc attempt < attempts then Suc sleeps else sleeps) (Some AddrInUse)
         | Inl e \<Rightarrow> (Suc attempt, sleeps, Some (Inl e)))
      else (attempt, sleeps, map_option Inl last_err))"
  by pat_completeness auto
termination
  by (relation "measure (\<lambda>(n, i, _). n - i)") auto

declare retry_from.simps [simp del]

definition retry_on_addr_in_use :: "nat \<Rightarrow> (nat \<Rightarrow> bind_error + 'a) \<Rightarrow> nat \<times> nat \<times> (bind_error + 'a) option" where
  "retry_on_addr_in_use attempts op = retry_from attempts 0 op 0 None"

definition bind_retry_attempts :: nat where "bind_retry_attempts = 5"

definition bind_retried :: "(nat \<Rightarrow> bind_error + 'a) \<Rightarrow> bind_error + 'a" where
  "bind_retried op = (case snd (snd (retry_on_addr_in_use bind_retry_attempts op)) of Some r \<Rightarrow> r | None \<Rightarrow> Inl AddrInUse)"

section \<open>The manager\<close>

record flow_counters =
  fl_tx :: u64
  fl_rx :: u64
  fl_stop :: bool
  fl_reading :: bool

definition flow_default :: flow_counters where
  "flow_default = \<lparr>fl_tx = 0, fl_rx = 0, fl_stop = False, fl_reading = True\<rparr>"

definition flow_set :: "u64 \<Rightarrow> u64 \<Rightarrow> flow_counters \<Rightarrow> flow_counters" where
  "flow_set tx rx c = c\<lparr>fl_tx := tx, fl_rx := rx\<rparr>"

definition flow_get :: "flow_counters \<Rightarrow> u64 \<times> u64" where
  "flow_get c = (fl_tx c, fl_rx c)"

definition flow_stop :: "flow_counters \<Rightarrow> flow_counters" where
  "flow_stop c = c\<lparr>fl_stop := True\<rparr>"

definition flow_stopped :: "flow_counters \<Rightarrow> bool" where
  "flow_stopped c = fl_stop c"

datatype task_state = TaskRunning | TaskReturned | TaskAborted | TaskPanicked

record running_core =
  rc_protocol :: proxy_protocol
  rc_task :: task_state
  rc_client :: "juicity_client option"
  rc_flow_stat :: "nat option"
  rc_last_traffic :: "u64 \<times> u64"

record core_manager =
  cm_runtime :: bool
  cm_running :: "running_core option"
  cm_counters :: "flow_counters list"

definition core_manager_new :: core_manager where
  "core_manager_new = \<lparr>cm_runtime = False, cm_running = None, cm_counters = []\<rparr>"

definition counters_stop :: "nat \<Rightarrow> core_manager \<Rightarrow> core_manager" where
  "counters_stop i m = m\<lparr>cm_counters := (cm_counters m)[i := flow_stop (cm_counters m ! i)]\<rparr>"

definition traffic :: "(juicity_client \<Rightarrow> (u64 \<times> u64) option) \<Rightarrow> core_manager \<Rightarrow> core_manager \<times> (u64 \<times> u64) option" where
  "traffic reading m =
     (case cm_running m of
        None \<Rightarrow> (m, None)
      | Some r \<Rightarrow>
          let fresh = (case rc_client r of
                Some client \<Rightarrow> reading client
              | None \<Rightarrow> map_option (\<lambda>i. flow_get (cm_counters m ! i)) (rc_flow_stat r));
              r' = (case fresh of Some v \<Rightarrow> r\<lparr>rc_last_traffic := v\<rparr> | None \<Rightarrow> r)
          in (m\<lparr>cm_running := Some r'\<rparr>, Some (rc_last_traffic r')))"

definition ensure_runtime :: "bool \<Rightarrow> core_manager \<Rightarrow> core_manager \<times> (core_error + unit)" where
  "ensure_runtime builds m =
     (if cm_runtime m then (m, Inr ())
      else if builds then (m\<lparr>cm_runtime := True\<rparr>, Inr ())
      else (m, Inl CoreRuntime))"

definition stop_and_wait :: "core_manager \<Rightarrow> core_manager" where
  "stop_and_wait m =
     (case cm_running m of
        None \<Rightarrow> m
      | Some r \<Rightarrow>
          let m' = m\<lparr>cm_running := None\<rparr> in
          (case rc_flow_stat r of Some i \<Rightarrow> counters_stop i m' | None \<Rightarrow> m'))"

definition core_failed :: "task_state \<Rightarrow> bool" where
  "core_failed t = (t = TaskPanicked)"

text \<open>The reason: the protocol, and whether the task failed.\<close>

definition poll :: "core_manager \<Rightarrow> core_manager \<times> (proxy_protocol \<times> bool) option" where
  "poll m =
     (case cm_running m of
        None \<Rightarrow> (m, None)
      | Some r \<Rightarrow>
          if rc_task r = TaskRunning then (m, None)
          else (m\<lparr>cm_running := None\<rparr>, Some (rc_protocol r, cm_runtime m \<and> core_failed (rc_task r))))"

section \<open>Starting a core\<close>

text \<open>What the environment answers while a core starts: whether the runtime can be built, what
  creating the endpoint of the client, the
  successive binds and \<open>Server::new\<close> return, and whether the listener for the flow statistics and
  its thread can be created.\<close>

record start_env =
  se_runtime :: bool
  se_endpoint :: endpoint_env
  se_bind :: "nat \<Rightarrow> bind_error + unit"
  se_flow_stat :: bool
  se_server :: "nat \<Rightarrow> bind_error + unit"

text \<open>The third-party and operating-system functions of the builders.\<close>

record 's core_deps =
  cd_exists :: "string \<Rightarrow> bool"
  cd_load_file :: "string \<Rightarrow> config option"
  cd_load_ss :: "string \<Rightarrow> 's option"
  cd_load_json :: "ss_json \<Rightarrow> 's option"
  cd_parse_uuid :: "string \<Rightarrow> uuid option"
  cd_b64_url :: "string \<Rightarrow> bytes option"
  cd_b64_std :: "string \<Rightarrow> bytes option"
  cd_hex :: "string \<Rightarrow> bytes option"

fun io_code :: "bind_error \<Rightarrow> core_error" where
  "io_code AddrInUse = CoreIo 0"
| "io_code (OtherIo n) = CoreIo (Suc n)"

definition start_juicity :: "'s core_deps \<Rightarrow> start_env \<Rightarrow> app_config \<Rightarrow> proxy_profile \<Rightarrow> core_error + juicity_client" where
  "start_juicity d e cfg p =
     and_then (build_juicity_config (cd_exists d) (cd_load_file d) (\<lambda>u. cd_parse_uuid d u \<noteq> None) cfg p) (\<lambda>c.
     and_then (map_err CoreClient (juicity_client_new (cd_parse_uuid d) (cd_b64_url d) (cd_b64_std d) (cd_hex d) (se_endpoint e) c)) (\<lambda>client.
     and_then (map_err io_code (bind_retried (se_bind e))) (\<lambda>_. Inr client)))"

definition start_flow_stat_reader :: "start_env \<Rightarrow> core_manager \<Rightarrow> core_manager \<times> (core_error + nat)" where
  "start_flow_stat_reader e m =
     (if se_flow_stat e
      then (m\<lparr>cm_counters := cm_counters m @ [flow_default]\<rparr>, Inr (length (cm_counters m)))
      else (m, Inl CoreFlowStat))"

definition start_shadowsocks :: "'s core_deps \<Rightarrow> start_env \<Rightarrow> app_config \<Rightarrow> proxy_profile \<Rightarrow> core_manager \<Rightarrow>
    core_manager \<times> (core_error + nat)" where
  "start_shadowsocks d e cfg p m =
     (case build_shadowsocks_config (cd_exists d) (cd_load_ss d) (cd_load_json d) cfg p of
        Inl err \<Rightarrow> (m, Inl err)
      | Inr _ \<Rightarrow>
          (case start_flow_stat_reader e m of
             (m1, Inl err) \<Rightarrow> (m1, Inl err)
           | (m1, Inr i) \<Rightarrow>
               (case bind_retried (se_server e) of
                  Inl err \<Rightarrow> (counters_stop i m1, Inl (io_code err))
                | Inr _ \<Rightarrow> (m1, Inr i))))"

definition running_core_new :: "proxy_protocol \<Rightarrow> juicity_client option \<Rightarrow> nat option \<Rightarrow> running_core" where
  "running_core_new proto client flow =
     \<lparr>rc_protocol = proto, rc_task = TaskRunning, rc_client = client, rc_flow_stat = flow, rc_last_traffic = (0, 0)\<rparr>"

definition start_profile :: "'s core_deps \<Rightarrow> start_env \<Rightarrow> app_config \<Rightarrow> proxy_profile \<Rightarrow> core_manager \<Rightarrow>
    core_manager \<times> (core_error + unit)" where
  "start_profile d e cfg p m =
     (case ensure_runtime (se_runtime e) (stop_and_wait m) of
        (m1, Inl err) \<Rightarrow> (m1, Inl err)
      | (m1, Inr _) \<Rightarrow>
          (case pp_protocol p of
             Juicity \<Rightarrow>
               (case start_juicity d e cfg p of
                  Inl err \<Rightarrow> (m1, Inl err)
                | Inr client \<Rightarrow> (m1\<lparr>cm_running := Some (running_core_new Juicity (Some client) None)\<rparr>, Inr ()))
           | Shadowsocks \<Rightarrow>
               (case start_shadowsocks d e cfg p m1 of
                  (m2, Inl err) \<Rightarrow> (m2, Inl err)
                | (m2, Inr i) \<Rightarrow> (m2\<lparr>cm_running := Some (running_core_new Shadowsocks None (Some i))\<rparr>, Inr ()))))"

section \<open>The reader thread\<close>

text \<open>One turn of its loop.  A connection delivers \<open>bytes\<close> before it ends or the read times out.\<close>

datatype accepted = Connection bytes | WouldBlock | AcceptFailed

definition read_flow_report :: "bytes \<Rightarrow> bytes option" where
  "read_flow_report stream = map_option fst (take_exact 16 stream)"

definition reader_turn :: "(bytes \<Rightarrow> u64) \<Rightarrow> accepted \<Rightarrow> flow_counters \<Rightarrow> flow_counters" where
  "reader_turn ne a c =
     (if \<not> fl_reading c then c
      else if flow_stopped c then c\<lparr>fl_reading := False\<rparr>
      else case a of
        Connection stream \<Rightarrow>
          (case read_flow_report stream of
             Some buf \<Rightarrow> flow_set (ne (take 8 buf)) (ne (drop 8 buf)) c
           | None \<Rightarrow> c)
      | WouldBlock \<Rightarrow> c
      | AcceptFailed \<Rightarrow> c\<lparr>fl_reading := False\<rparr>)"

section \<open>Runs\<close>

text \<open>Everything that happens to a manager: the calls of the user interface, the end of the task,
  and the turns of the reader threads.\<close>

inductive core_step :: "'s core_deps \<Rightarrow> (bytes \<Rightarrow> u64) \<Rightarrow> core_manager \<Rightarrow> core_manager \<Rightarrow> bool"
  for d :: "'s core_deps" and ne :: "bytes \<Rightarrow> u64" where
  Start: "core_step d ne m (fst (start_profile d e cfg p m))"
| Stop: "core_step d ne m (stop_and_wait m)"
| Poll: "core_step d ne m (fst (poll m))"
| Traffic: "core_step d ne m (fst (traffic reading m))"
| TaskEnd: "cm_running m = Some r \<Longrightarrow> rc_task r = TaskRunning \<Longrightarrow> t \<noteq> TaskRunning \<Longrightarrow>
    core_step d ne m (m\<lparr>cm_running := Some (r\<lparr>rc_task := t\<rparr>)\<rparr>)"
| Reader: "i < length (cm_counters m) \<Longrightarrow>
    core_step d ne m (m\<lparr>cm_counters := (cm_counters m)[i := reader_turn ne a (cm_counters m ! i)]\<rparr>)"

text \<open>The counters named by the running core exist, and a Juicity core has none.\<close>

definition core_wf :: "core_manager \<Rightarrow> bool" where
  "core_wf m = (case cm_running m of
     None \<Rightarrow> True
   | Some r \<Rightarrow> cm_runtime m \<and> (rc_protocol r = Juicity \<longleftrightarrow> rc_client r \<noteq> None)
       \<and> (rc_client r = None \<longleftrightarrow> rc_flow_stat r \<noteq> None)
       \<and> (\<forall>i. rc_flow_stat r = Some i \<longrightarrow> i < length (cm_counters m)))"

text \<open>A reader thread that nobody will stop.\<close>

definition orphan :: "core_manager \<Rightarrow> nat \<Rightarrow> bool" where
  "orphan m i = (i < length (cm_counters m) \<and> \<not> fl_stop (cm_counters m ! i)
     \<and> (\<forall>r. cm_running m = Some r \<longrightarrow> rc_flow_stat r \<noteq> Some i))"


section \<open>Lemmas\<close>

lemma retry_from_eq:
  assumes "attempt \<le> k" "k \<le> attempts" "\<forall>i. attempt \<le> i \<and> i < k \<longrightarrow> op i = Inl AddrInUse"
    and "k < attempts \<Longrightarrow> op k \<noteq> Inl AddrInUse" "k = attempts \<Longrightarrow> attempt < k \<or> err = Some AddrInUse"
  shows "retry_from attempts attempt op sleeps err =
    (if k < attempts then (Suc k, sleeps + (k - attempt), Some (op k))
     else (attempts, sleeps + (attempts - 1 - attempt), Some (Inl AddrInUse)))"
  using assms
proof (induction attempts attempt op sleeps err rule: retry_from.induct)
  case (1 n i op sleeps err)
  show ?case
  proof (cases "i < k")
    case True
    then have "op i = Inl AddrInUse" "i < n" using 1 by auto
    then show ?thesis
      using 1 True by (subst retry_from.simps) auto
  next
    case False
    then have "i = k" using 1 by simp
    then show ?thesis
      using 1 by (subst retry_from.simps) (auto split: sum.splits bind_error.splits)
  qed
qed

lemma counters_stop_running [simp]: "cm_running (counters_stop i m) = cm_running m" "cm_runtime (counters_stop i m) = cm_runtime m"
  "length (cm_counters (counters_stop i m)) = length (cm_counters m)"
  by (simp_all add: counters_stop_def)

lemma counters_stop_nth: "j < length (cm_counters m) \<Longrightarrow>
    cm_counters (counters_stop i m) ! j = (if i = j then flow_stop (cm_counters m ! j) else cm_counters m ! j)"
  by (simp add: counters_stop_def nth_list_update)

lemma fl_stop_flow_stop [simp]: "fl_stop (flow_stop c)"
  by (simp add: flow_stop_def)

lemma reader_turn_stop [simp]: "fl_stop (reader_turn ne a c) = fl_stop c"
  by (auto simp: reader_turn_def flow_set_def split: accepted.splits option.splits)

lemma stop_and_wait_running [simp]: "cm_running (stop_and_wait m) = None"
  by (simp add: stop_and_wait_def Let_def split: option.split)

lemma stop_and_wait_orphan: "orphan (stop_and_wait m) i \<longleftrightarrow> orphan m i"
  by (auto simp: orphan_def stop_and_wait_def Let_def counters_stop_nth split: option.splits if_splits)

lemma ensure_runtime_cases:
  "ensure_runtime b m = (m1, Inr ()) \<Longrightarrow> m1 = m\<lparr>cm_runtime := True\<rparr>"
  "ensure_runtime b m = (m1, Inl err) \<Longrightarrow> m1 = m"
  by (auto simp: ensure_runtime_def split: if_splits)

lemma start_shadowsocks_cases:
  assumes "start_shadowsocks d e cfg p m = (m2, r)"
  shows "(case r of Inl _ \<Rightarrow> m2 = m \<or> m2 = counters_stop (length (cm_counters m)) (m\<lparr>cm_counters := cm_counters m @ [flow_default]\<rparr>)
    | Inr i \<Rightarrow> i = length (cm_counters m) \<and> m2 = m\<lparr>cm_counters := cm_counters m @ [flow_default]\<rparr>)"
  using assms by (auto simp: start_shadowsocks_def start_flow_stat_reader_def split: sum.splits if_splits)


lemma stop_and_wait_counters [simp]: "length (cm_counters (stop_and_wait m)) = length (cm_counters m)"
  by (simp add: stop_and_wait_def Let_def split: option.split)

lemma orphan_runtime [simp]: "orphan (m\<lparr>cm_runtime := b\<rparr>) i \<longleftrightarrow> orphan m i"
  by (simp add: orphan_def)

lemma orphan_new_counters:
  assumes "cm_running m = None"
  shows "orphan (counters_stop (length (cm_counters m)) (m\<lparr>cm_counters := cm_counters m @ [flow_default]\<rparr>)) i \<longleftrightarrow> orphan m i"
    and "orphan (m\<lparr>cm_counters := cm_counters m @ [flow_default],
      cm_running := Some (running_core_new Shadowsocks None (Some (length (cm_counters m))))\<rparr>) i \<longleftrightarrow> orphan m i"
  using assms
  by (auto simp: orphan_def counters_stop_nth nth_append running_core_new_def less_Suc_eq)

text \<open>What starting a profile leaves behind.\<close>

lemma start_profile_cases:
  obtains (Failed) err m' where "start_profile d e cfg p m = (m', Inl err)" "cm_running m' = None" "\<And>i. orphan m' i \<longleftrightarrow> orphan m i"
  | (Started) r m' where "start_profile d e cfg p m = (m', Inr ())" "cm_running m' = Some r" "core_wf m'"
      "rc_protocol r = pp_protocol p" "rc_task r = TaskRunning" "rc_last_traffic r = (0, 0)" "\<And>i. orphan m' i \<longleftrightarrow> orphan m i"
proof -
  obtain m1 r1 where rt: "ensure_runtime (se_runtime e) (stop_and_wait m) = (m1, r1)" by fastforce
  show thesis
  proof (cases r1)
    case (Inl err)
    then show thesis using Failed [of m1 err] rt ensure_runtime_cases(2) stop_and_wait_orphan
      by (fastforce simp: start_profile_def)
  next
    case (Inr u)
    then have m1: "m1 = (stop_and_wait m)\<lparr>cm_runtime := True\<rparr>" using rt ensure_runtime_cases(1) by auto
    then have run: "cm_running m1 = None" and orp: "orphan m1 i \<longleftrightarrow> orphan m i" for i
      by (simp_all add: stop_and_wait_orphan)
    show thesis
    proof (cases "pp_protocol p")
      case Juicity
      show thesis
      proof (cases "start_juicity d e cfg p")
        case (Inl err)
        then show thesis using Failed [of m1 err] rt \<open>r1 = Inr u\<close> Juicity run orp by (simp add: start_profile_def)
      next
        case (Inr client)
        then show thesis
          using Started [of "m1\<lparr>cm_running := Some (running_core_new Juicity (Some client) None)\<rparr>"] rt \<open>r1 = Inr u\<close> Juicity orp m1 run
          by (simp add: start_profile_def running_core_new_def core_wf_def orphan_def)
      qed
    next
      case Shadowsocks
      obtain m2 r2 where ss: "start_shadowsocks d e cfg p m1 = (m2, r2)" by fastforce
      show thesis
      proof (cases r2)
        case (Inl err)
        then show thesis
          using Failed [of m2 err] rt \<open>r1 = Inr u\<close> Shadowsocks ss start_shadowsocks_cases [OF ss] run orp orphan_new_counters(1) [OF run]
          by (fastforce simp: start_profile_def)
      next
        case (Inr i)
        then show thesis
          using Started [of "m2\<lparr>cm_running := Some (running_core_new Shadowsocks None (Some i))\<rparr>"] rt \<open>r1 = Inr u\<close>
            Shadowsocks ss start_shadowsocks_cases [OF ss] orp m1 orphan_new_counters(2) [OF run]
          by (simp add: start_profile_def) (simp add: running_core_new_def core_wf_def)
      qed
    qed
  qed
qed


lemma parse_sock_two_brackets: "parse_sock (CHR ''['' # CHR ''['' # s) = None"
proof -
  have d: "to_digit r (CHR ''['') = None" if "r \<le> 16" for r
    using that by (simp add: to_digit_def of_char_def)
  have num: "read_number r md z lim (CHR ''['' # t) = None" if "r \<le> 16" for r md z lim t
    using d [OF that] by (simp add: read_number_def)
  have v4: "read_ipv4 (CHR ''['' # t) = None" for t by (simp add: read_ipv4_def read_octet_def num)
  have "read_groups 0 k (CHR ''['' # t) = ([], False, CHR ''['' # t)" for k t
    by (cases k) (simp_all add: read_sep_def v4 num)
  then have "read_ipv6 (CHR ''['' # t) = None" for t by (simp add: read_ipv6_def read_given_char_def)
  then show ?thesis by (simp add: parse_sock_def parse_all_def read_sock_v4_def read_sock_v6_def v4 read_given_char_def)
qed

lemma parse_server_two_brackets: "parse_server (CHR ''['' # CHR ''['' # s) sni \<noteq> Inr x"
  by (auto simp: parse_server_def parse_sock_two_brackets and_then_eq_Inr starts_with_def split: prod.splits if_splits)

lemma imported_ipv6_server:
  assumes "form_urlencoded ser" "pp_protocol p = Juicity" "visible (pp_server p)" "contains_char (CHR '':'') (pp_server p)"
    and "export_share_link b64 ser p = Inr link" "url_parse link = Some (link_url b64 ser p)"
  shows "\<exists>i. import_share_link url_parse engines link = Inr i \<and> il_server i = ''['' @ pp_server p @ '']''"
  using assms(2,4,6) juicity_link_text [OF assms(1,3,2,5)] form_not_Nil [OF assms(1)]
  by (simp add: import_share_link_def parse_juicity_link_def Let_def)
    (simp add: link_url_def url_host_text_def split: prod.split)

lemma format_ip: "format_host_port (ip_str ip) port = sock_str \<lparr>sa_ip = ip, sa_port = port\<rparr>"
  by (cases ip) (simp_all add: format_host_port_def sock_str_def contains_char_def)

lemma parse_server_format:
  assumes "host = ip_str ip \<or> host \<noteq> [] \<and> CHR '':'' \<notin> set host \<and> \<not> starts_with ''['' host
      \<and> parse_sock (format_host_port host port) = None"
  shows "parse_server (format_host_port host port) sni = Inr (host, port, if sni = [] then host else sni)" "host \<noteq> []"
proof -
  have "parse_server (sock_str a) sni = Inr (ip_str (sa_ip a), sa_port a, if sni = [] then ip_str (sa_ip a) else sni)" for a
    by (simp add: parse_server_def)
  then have "parse_server (format_host_port (ip_str ip) port) sni = Inr (ip_str ip, port, if sni = [] then ip_str ip else sni)"
    by (simp add: format_ip)
  then show "parse_server (format_host_port host port) sni = Inr (host, port, if sni = [] then host else sni)"
    using assms parse_server_accepts [of host port sni] format_host_port_def [of host port]
    by (elim disjE) (simp_all add: contains_char_def)
  have "ip_str ip \<noteq> []"
  proof (cases ip)
    case (IpV6 a)
    have "set (v6_str a) \<noteq> set []" using colon_in_v6_str [of a] by (metis empty_iff list.set(1))
    then show ?thesis using IpV6 by auto
  qed simp
  then show "host \<noteq> []" using assms by auto
qed

lemma format_host_port_colon: "contains_char (CHR '':'') (format_host_port host port)" "format_host_port host port \<noteq> []"
  by (simp_all add: format_host_port_def contains_char_def)

inductive_cases core_stepE: "core_step d ne m m'"

lemma traffic_running:
  "cm_running m = None \<Longrightarrow> fst (traffic reading m) = m"
  "cm_running m = Some r \<Longrightarrow> \<exists>v. fst (traffic reading m) = m\<lparr>cm_running := Some (r\<lparr>rc_last_traffic := v\<rparr>)\<rparr>"
proof -
  let ?fresh = "case rc_client r of Some client \<Rightarrow> reading client
    | None \<Rightarrow> map_option (\<lambda>i. flow_get (cm_counters m ! i)) (rc_flow_stat r)"
  assume "cm_running m = Some r"
  then have "fst (traffic reading m) =
      m\<lparr>cm_running := Some (r\<lparr>rc_last_traffic := (case ?fresh of Some v \<Rightarrow> v | None \<Rightarrow> rc_last_traffic r)\<rparr>)\<rparr>"
    by (simp add: traffic_def Let_def split: option.split)
  then show "\<exists>v. fst (traffic reading m) = m\<lparr>cm_running := Some (r\<lparr>rc_last_traffic := v\<rparr>)\<rparr>" by blast
qed (simp add: traffic_def)

lemma core_wf_stopped: "cm_running m = None \<Longrightarrow> core_wf m"
  by (simp add: core_wf_def)

lemma orphan_same_flow:
  "orphan (m\<lparr>cm_running := Some r\<rparr>) i \<longleftrightarrow> i < length (cm_counters m) \<and> \<not> fl_stop (cm_counters m ! i) \<and> rc_flow_stat r \<noteq> Some i"
  by (simp add: orphan_def)

lemma traffic_orphan: "orphan (fst (traffic reading m)) i \<longleftrightarrow> orphan m i"
proof (cases "cm_running m")
  case (Some r)
  then obtain v where "fst (traffic reading m) = m\<lparr>cm_running := Some (r\<lparr>rc_last_traffic := v\<rparr>)\<rparr>"
    using traffic_running(2) by blast
  then show ?thesis using Some by (simp add: orphan_def)
qed (simp add: traffic_running)

lemma poll_running:
  "fst (poll m) = m \<or> (\<exists>r. cm_running m = Some r \<and> rc_task r \<noteq> TaskRunning \<and> fst (poll m) = m\<lparr>cm_running := None\<rparr>)"
  by (auto simp: poll_def split: option.splits)

lemma core_wf_step: "core_wf m \<Longrightarrow> core_step d ne m m' \<Longrightarrow> core_wf m'"
proof (erule core_stepE)
  fix e cfg p
  assume "m' = fst (start_profile d e cfg p m)"
  then show "core_wf m'" by (cases rule: start_profile_cases [of d e cfg p m]) (simp_all add: core_wf_stopped)
next
  fix reading
  assume wf: "core_wf m" and m': "m' = fst (traffic reading m)"
  show "core_wf m'"
  proof (cases "cm_running m")
    case (Some r)
    then obtain v where "m' = m\<lparr>cm_running := Some (r\<lparr>rc_last_traffic := v\<rparr>)\<rparr>" using traffic_running(2) m' by blast
    then show ?thesis using Some wf by (auto simp: core_wf_def)
  qed (simp add: m' wf traffic_running)
qed (use poll_running [of m] in \<open>auto simp: core_wf_def split: option.splits\<close>)

lemma orphan_step: "core_step d ne m m' \<Longrightarrow> orphan m i \<Longrightarrow> orphan m' i"
proof (erule core_stepE)
  fix e cfg p
  assume "m' = fst (start_profile d e cfg p m)" "orphan m i"
  then show "orphan m' i" by (cases rule: start_profile_cases [of d e cfg p m]) simp_all
next
  assume "m' = fst (poll m)" "orphan m i"
  then show "orphan m' i" using poll_running [of m] by (auto simp: orphan_def)
qed (auto simp: stop_and_wait_orphan traffic_orphan, auto simp: orphan_def nth_list_update)

lemma orphan_origin:
  assumes "core_step d ne m m'" "orphan m' i" "\<not> orphan m i"
  shows "\<exists>r. cm_running m = Some r \<and> rc_task r \<noteq> TaskRunning \<and> rc_flow_stat r = Some i \<and> m' = fst (poll m)"
  using assms
proof (cases rule: core_step.cases)
  case (Start e cfg p)
  then show ?thesis using assms(2,3) by (cases rule: start_profile_cases [of d e cfg p m]) simp_all
next
  case Poll
  then show ?thesis using poll_running [of m] assms(2,3) by (auto simp: orphan_def)
next
  case (TaskEnd r t)
  then show ?thesis using assms(2,3) by (simp add: orphan_def)
next
  case (Reader j a)
  then show ?thesis using assms(2,3) by (auto simp: orphan_def nth_list_update split: if_splits)
qed (use assms(2,3) in \<open>simp_all add: stop_and_wait_orphan traffic_orphan\<close>)

interpretation core: invariant_system "\<lambda>m. m = core_manager_new" "core_step d ne" core_wf for d ne
  by unfold_locales (auto simp: core_manager_new_def intro: core_wf_stopped core_wf_step)

interpretation core_leak: invariant_system "\<lambda>m. orphan m i" "core_step d ne" "\<lambda>m. orphan m i" for d ne i
  by unfold_locales (auto intro: orphan_step)

section \<open>Properties\<close>

text \<open>\<^bold>\<open>C31.\<close>  Retrying a bind makes at most the given number of attempts, stops at the first
  outcome other than an address in use and returns it, sleeps once between two attempts, and
  reports the address in use after the last one; it never panics for a positive number.\<close>

theorem retry_bounded:
  assumes "0 < n" "k \<le> n" "\<forall>i < k. op i = Inl AddrInUse" "k < n \<Longrightarrow> op k \<noteq> Inl AddrInUse"
  shows "retry_on_addr_in_use n op =
    (if k < n then (Suc k, k, Some (op k)) else (n, n - 1, Some (Inl AddrInUse)))"
  using retry_from_eq [of 0 k n op None 0] assms by (simp add: retry_on_addr_in_use_def)

theorem retry_bounded_witness:
  "retry_on_addr_in_use 5 (\<lambda>i. if i < 2 then Inl AddrInUse else Inr ()) = (3, 2, Some (Inr ()))"
  using retry_bounded [of 5 2 "\<lambda>i. if i < 2 then Inl AddrInUse else Inr ()"] by simp

text \<open>Starting a profile replaces the core in every state: a successful start leaves a
  fresh running core of the profile's protocol with zeroed traffic, a failed one leaves no core
  running, and in both cases the reader thread of the core that ran before has been told to stop
  and no other reader is left behind.\<close>

lemma start_replaces_core:
  "case start_profile d e cfg p m of (m', res) \<Rightarrow>
    (case res of
      Inl _ \<Rightarrow> cm_running m' = None
    | Inr _ \<Rightarrow> \<exists>r. cm_running m' = Some r \<and> rc_protocol r = pp_protocol p \<and> rc_task r = TaskRunning
        \<and> rc_last_traffic r = (0, 0))
    \<and> core_wf m' \<and> (\<forall>i. orphan m' i \<longleftrightarrow> orphan m i)"
  by (cases rule: start_profile_cases [of d e cfg p m]) (simp_all add: core_wf_stopped)

text \<open>\<^bold>\<open>C30.\<close>  A Shadowsocks core that ends by itself leaks its reader thread: when \<open>poll\<close> notices
  the end, the counters are dropped without the stop flag, and in no state that can follow does
  anything set it; no other call, in whatever state, leaks a reader.\<close>

theorem poll_leaks_reader:
  assumes "cm_running m = Some r" "rc_task r \<noteq> TaskRunning" "rc_flow_stat r = Some i" "core_wf m"
    and "\<not> fl_stop (cm_counters m ! i)"
  shows "(\<forall>m'. (core_step d ne)\<^sup>*\<^sup>* (fst (poll m)) m' \<longrightarrow> orphan m' i)
    \<and> (\<forall>m0 m1 j. core_step d ne m0 m1 \<and> orphan m1 j \<and> \<not> orphan m0 j \<longrightarrow>
      (\<exists>r. cm_running m0 = Some r \<and> rc_task r \<noteq> TaskRunning \<and> rc_flow_stat r = Some j \<and> m1 = fst (poll m0)))"
proof -
  have "orphan (fst (poll m)) i" using assms by (simp add: poll_def orphan_def core_wf_def)
  then show ?thesis using core_leak.steps_inv orphan_origin by blast
qed

definition demo_ended :: core_manager where
  "demo_ended = \<lparr>cm_runtime = True,
     cm_running = Some ((running_core_new Shadowsocks None (Some 0))\<lparr>rc_task := TaskReturned\<rparr>), cm_counters = [flow_default]\<rparr>"

theorem poll_leaks_reader_witness: "orphan (fst (poll demo_ended)) 0"
  using poll_leaks_reader [of demo_ended "(running_core_new Shadowsocks None (Some 0))\<lparr>rc_task := TaskReturned\<rparr>" 0]
  by (auto simp: demo_ended_def running_core_new_def core_wf_def flow_default_def)


text \<open>\<^bold>\<open>C29.\<close>  A Juicity profile that does not name an external configuration file (with one, the file
  takes its place) reaches the client unchanged: with a server name, an IPv4 or an IPv6 address, a user
  id and pin that decode, a password and a listening address, and an endpoint and a bind that succeed,
  the core that is started dials the profile's host and port with its SNI (the host when it has none)
  and its credentials.  With \<open>allow_insecure\<close> it accepts any certificate; without, it checks the pin
  of the profile, or the certificate by WebPKI when the profile has no pin.\<close>

theorem juicity_core_dials_profile:
  assumes "pp_config_path p = None" "cd_parse_uuid d (pp_uuid p) = Some u" "pp_uuid p \<noteq> []" "pp_password p \<noteq> []"
    and "contains_char (CHR '':'') (ac_mixed_listen cfg)" "bind_retried (se_bind e) = Inr ()" "endpoint_ok (se_endpoint e)"
    and "decode_pin (cd_b64_url d) (cd_b64_std d) (cd_hex d) (case core_non_empty (pp_pinned p) of Some s \<Rightarrow> s | None \<Rightarrow> []) = Inr pin"
    and "pp_server p = ip_str ip \<or> pp_server p \<noteq> [] \<and> CHR '':'' \<notin> set (pp_server p) \<and> \<not> starts_with ''['' (pp_server p)
      \<and> parse_sock (format_host_port (pp_server p) (pp_server_port p)) = None"
  shows "\<exists>client. start_juicity d e cfg p = Inr client \<and> jc_host client = pp_server p \<and> jc_port client = pp_server_port p
    \<and> jc_uuid client = u \<and> jc_password client = pp_password p
    \<and> jc_sni client = (case filled (pp_sni p) of Some s \<Rightarrow> s | None \<Rightarrow> pp_server p)
    \<and> tls_verifier (jc_tls client) = (if pp_allow_insecure p then SkipVerify else if pin \<noteq> [] then PinVerify pin else WebPki)"
proof -
  note server = parse_server_format [OF assms(9)]
  have "(case filled (pp_sni p) of Some s \<Rightarrow> s | None \<Rightarrow> pp_server p) \<noteq> []"
    using server(2) filled_Some by (auto split: option.split)
  moreover have "ac_mixed_listen cfg \<noteq> []" using assms(5) by (auto simp: contains_char_def)
  ultimately show ?thesis
    using assms(1-8) server(1) format_host_port_colon
    by (simp add: start_juicity_def build_juicity_config_def validate_for_client_def ensure_def juicity_client_new_def
      new_endpoint_ok build_tls_config_def config_default_def Let_def)
qed

definition demo_deps :: "unit core_deps" where
  "demo_deps = \<lparr>cd_exists = (\<lambda>_. False), cd_load_file = (\<lambda>_. None), cd_load_ss = (\<lambda>_. None), cd_load_json = (\<lambda>_. None),
     cd_parse_uuid = (\<lambda>_. Some []), cd_b64_url = (\<lambda>_. None), cd_b64_std = (\<lambda>_. None), cd_hex = (\<lambda>_. None)\<rparr>"

definition demo_start_env :: start_env where
  "demo_start_env = \<lparr>se_runtime = True,
     se_endpoint = \<lparr>ep_socket = Inr (), ep_only_v6 = Inr (), ep_mark = (\<lambda>_. Inr ()), ep_bind = Inr (), ep_wrap = Inr (), ep_client = Inr ()\<rparr>,
     se_bind = (\<lambda>_. Inr ()), se_flow_stat = True, se_server = (\<lambda>_. Inr ())\<rparr>"

definition demo_v4_profile :: proxy_profile where
  "demo_v4_profile = profile_default\<lparr>pp_server := ip_str (IpV4 (Ipv4 192 0 2 1)), pp_uuid := ''u'', pp_password := ''p''\<rparr>"

theorem juicity_core_dials_profile_witness:
  "\<exists>client. start_juicity demo_deps demo_start_env app_config_default demo_v4_profile = Inr client
    \<and> jc_host client = ip_str (IpV4 (Ipv4 192 0 2 1)) \<and> jc_port client = 443"
proof -
  have "bind_retried (se_bind demo_start_env) = Inr ()"
    by (simp add: bind_retried_def demo_start_env_def retry_on_addr_in_use_def bind_retry_attempts_def retry_from.simps)
  then show ?thesis
    using juicity_core_dials_profile [of demo_v4_profile demo_deps "[]" app_config_default demo_start_env "[]" "IpV4 (Ipv4 192 0 2 1)"]
    by (auto simp: demo_v4_profile_def profile_default_def demo_deps_def demo_start_env_def endpoint_ok_def app_config_default_def contains_char_def
      core_non_empty_def decode_pin_def)
qed

text \<open>An imported link with an IPv6 server cannot be used: the imported server keeps the
  brackets of the URL, the address gets a second pair when the configuration is built, and
  starting the core fails whatever the rest of the environment does.\<close>

lemma imported_ipv6_cannot_start:
  assumes "form_urlencoded ser" "pp_protocol p = Juicity" "visible (pp_server p)" "contains_char (CHR '':'') (pp_server p)"
    and "export_share_link b64 ser p = Inr link" "url_parse link = Some (link_url b64 ser p)"
  shows "\<exists>i. import_share_link url_parse engines link = Inr i \<and> \<not> is_ok (start_juicity d e cfg (apply_to i profile_default))"
proof -
  obtain i where i: "import_share_link url_parse engines link = Inr i" "il_server i = ''['' @ pp_server p @ '']''"
    using imported_ipv6_server [of ser p b64 link url_parse] assms by blast
  let ?q = "apply_to i profile_default"
  have "format_host_port (pp_server ?q) (pp_server_port ?q) = CHR ''['' # CHR ''['' # drop 2 (format_host_port (pp_server ?q) (pp_server_port ?q))"
    using i(2) assms(4) by (simp add: apply_to_def format_host_port_def contains_char_def)
  then have "parse_server (format_host_port (pp_server ?q) (pp_server_port ?q)) sni \<noteq> Inr x" for sni x
    using parse_server_two_brackets by metis
  moreover have "pp_config_path ?q = None" by (simp add: apply_to_def profile_default_def)
  ultimately have "start_juicity d e cfg ?q \<noteq> Inr c" for c
    by (auto simp: start_juicity_def build_juicity_config_def juicity_client_new_def and_then_eq_Inr Let_def config_default_def)
  then have "\<not> is_ok (start_juicity d e cfg ?q)" by (auto simp: is_ok_def split: sum.split)
  then show ?thesis using i(1) by blast
qed

definition demo_v6_profile :: proxy_profile where
  "demo_v6_profile = profile_default\<lparr>pp_server := ''::1'', pp_uuid := ''u'', pp_password := ''p''\<rparr>"

lemma imported_ipv6_cannot_start_witness:
  "\<exists>link i. export_share_link hex_text (\<lambda>s. concat (map form_char s)) demo_v6_profile = Inr link
    \<and> import_share_link (\<lambda>_. Some (link_url hex_text (\<lambda>s. concat (map form_char s)) demo_v6_profile)) [] link = Inr i
    \<and> \<not> is_ok (start_juicity demo_deps demo_start_env app_config_default (apply_to i profile_default))"
proof -
  let ?ser = "\<lambda>s. concat (map form_char s)"
  obtain link where link: "export_share_link hex_text ?ser demo_v6_profile = Inr link"
    by (simp add: export_share_link_def export_juicity_link_def demo_v6_profile_def profile_default_def Let_def)
  moreover have "form_urlencoded ?ser" by (simp add: form_urlencoded_def)
  moreover have "visible (pp_server demo_v6_profile)" "contains_char (CHR '':'') (pp_server demo_v6_profile)"
    "pp_protocol demo_v6_profile = Juicity"
    by (simp_all add: demo_v6_profile_def profile_default_def visible_text contains_char_def)
  ultimately show ?thesis
    using imported_ipv6_cannot_start [of ?ser demo_v6_profile hex_text link
      "\<lambda>_. Some (link_url hex_text ?ser demo_v6_profile)" "[]" demo_deps demo_start_env app_config_default] by blast
qed

end
