(* ===== verification/Gui_Persist.thy ===== *)
theory Gui_Persist
  imports Gui_Config
begin

text \<open>
  Debounced saving and reloading of the three configuration files,
  \<open>gui/src/ui/controller/persist.rs\<close>.

  Times are milliseconds.  The arrays indexed by file are functions.  Parameters: the printers and
  parsers of \<open>serde_json\<close>, and \<open>hash\<close> for \<open>DefaultHasher\<close>.  Which system call of a write fails is an
  argument, as in \<open>Gui_Config\<close>.
\<close>

definition debounce :: nat where "debounce = 400"

definition retry_delay :: nat where "retry_delay = 5000"

datatype config_file = CfApp | CfProfiles | CfRuntime

definition config_files :: "config_file list" where "config_files = [CfApp, CfProfiles, CfRuntime]"

definition config_file_path :: "config_paths \<Rightarrow> config_file \<Rightarrow> string" where
  "config_file_path paths f =
     (case f of CfApp \<Rightarrow> cp_app_json paths | CfProfiles \<Rightarrow> cp_profiles_json paths | CfRuntime \<Rightarrow> cp_runtime_json paths)"

section \<open>The saved list\<close>

record saved_nodes =
  sv_profiles :: "proxy_profile list"
  sv_active :: nat

definition clamp_active :: "saved_nodes \<Rightarrow> saved_nodes" where
  "clamp_active s = s\<lparr>sv_active := min (sv_active s) (length (sv_profiles s) - 1)\<rparr>"

definition saved_new :: "gui_state \<Rightarrow> saved_nodes" where
  "saved_new g = clamp_active \<lparr>sv_profiles = gs_profiles g, sv_active = rn_selected_profile (gs_runtime g)\<rparr>"

record json_printers =
  print_app :: "app_config \<Rightarrow> bytes option"
  print_profiles :: "proxy_profile list \<Rightarrow> bytes option"
  print_runtime :: "runtime_state \<Rightarrow> bytes option"

definition file_bytes :: "json_printers \<Rightarrow> config_file \<Rightarrow> gui_state \<Rightarrow> saved_nodes \<Rightarrow> bytes option" where
  "file_bytes pr f g s =
     (case f of
        CfApp \<Rightarrow> print_app pr (gs_config g)
      | CfProfiles \<Rightarrow> print_profiles pr (sv_profiles s)
      | CfRuntime \<Rightarrow> print_runtime pr ((gs_runtime g)\<lparr>rn_selected_profile := sv_active s\<rparr>))"

definition file_load :: "gui_parsers \<Rightarrow> config_file \<Rightarrow> bytes \<Rightarrow> gui_state \<Rightarrow> saved_nodes \<Rightarrow> (gui_state \<times> saved_nodes) option" where
  "file_load ps f bs g s =
     (case f of
        CfApp \<Rightarrow> map_option (\<lambda>c. (g\<lparr>gs_config := c\<rparr>, s)) (parse_app ps bs)
      | CfProfiles \<Rightarrow> map_option (\<lambda>l. (g, clamp_active (s\<lparr>sv_profiles := (if l = [] then [profile_default] else l)\<rparr>)))
          (parse_profiles ps bs)
      | CfRuntime \<Rightarrow> map_option (\<lambda>r. (g\<lparr>gs_runtime := r\<rparr>, clamp_active (s\<lparr>sv_active := rn_selected_profile r\<rparr>)))
          (parse_runtime ps bs))"

section \<open>Dirty files\<close>

record persist =
  pe_dirty :: "config_file \<Rightarrow> bool"
  pe_due :: "nat option"
  pe_known :: "config_file \<Rightarrow> u64 option"

definition persist_new :: "(bytes \<Rightarrow> u64) \<Rightarrow> (config_file \<Rightarrow> bytes option) \<Rightarrow> persist" where
  "persist_new hash loaded = \<lparr>pe_dirty = (\<lambda>_. False), pe_due = None, pe_known = (\<lambda>f. map_option hash (loaded f))\<rparr>"

definition persist_mark :: "config_file \<Rightarrow> nat \<Rightarrow> persist \<Rightarrow> persist" where
  "persist_mark f now p = p\<lparr>pe_dirty := (pe_dirty p)(f := True), pe_due := Some (now + debounce)\<rparr>"

definition persist_delay :: "nat \<Rightarrow> persist \<Rightarrow> nat option" where
  "persist_delay now p = map_option (\<lambda>due. due - now) (pe_due p)"

text \<open>What the functions below need of the outside.\<close>

record persist_env =
  pv_printers :: json_printers
  pv_parsers :: gui_parsers
  pv_hash :: "bytes \<Rightarrow> u64"
  pv_paths :: config_paths

definition persist_write :: "persist_env \<Rightarrow> io_fault option \<Rightarrow> config_file \<Rightarrow> gui_state \<Rightarrow> saved_nodes \<Rightarrow> persist \<Rightarrow> files \<Rightarrow>
    persist \<times> files \<times> (storage_error + unit)" where
  "persist_write e fault f g s p m =
     (case file_bytes (pv_printers e) f g s of
        None \<Rightarrow> (p, m, Inl PrintFailed)
      | Some bs \<Rightarrow>
          (case write_atomic fault (config_file_path (pv_paths e) f) bs m of
             (m', Inl err) \<Rightarrow> (p, m', Inl err)
           | (m', Inr _) \<Rightarrow>
               (p\<lparr>pe_dirty := (pe_dirty p)(f := False), pe_known := (pe_known p)(f := Some (pv_hash e bs))\<rparr>, m', Inr ())))"

fun flush_files :: "persist_env \<Rightarrow> (config_file \<Rightarrow> io_fault option) \<Rightarrow> gui_state \<Rightarrow> saved_nodes \<Rightarrow> nat \<Rightarrow> config_file list \<Rightarrow>
    persist \<times> files \<times> (storage_error + unit) \<Rightarrow> persist \<times> files \<times> (storage_error + unit)" where
  "flush_files e faults g s now [] acc = acc"
| "flush_files e faults g s now (f # fs) (p, m, res) =
     (if \<not> pe_dirty p f then flush_files e faults g s now fs (p, m, res)
      else case persist_write e (faults f) f g s p m of
        (p', m', Inl err) \<Rightarrow>
          flush_files e faults g s now fs
            (p'\<lparr>pe_due := Some (now + retry_delay)\<rparr>, m', if is_ok res then Inl err else res)
      | (p', m', Inr _) \<Rightarrow> flush_files e faults g s now fs (p', m', res))"

definition persist_flush :: "persist_env \<Rightarrow> (config_file \<Rightarrow> io_fault option) \<Rightarrow> gui_state \<Rightarrow> saved_nodes \<Rightarrow> nat \<Rightarrow> persist \<Rightarrow> files \<Rightarrow>
    persist \<times> files \<times> (storage_error + unit)" where
  "persist_flush e faults g s now p m = flush_files e faults g s now config_files (p\<lparr>pe_due := None\<rparr>, m, Inr ())"

text \<open>Reloading; the list of the reloaded files is kept in order.\<close>

definition reload_one :: "persist_env \<Rightarrow> files \<Rightarrow> nat \<Rightarrow> config_file \<Rightarrow> persist \<times> gui_state \<times> saved_nodes \<times> config_file list \<Rightarrow>
    persist \<times> gui_state \<times> saved_nodes \<times> config_file list" where
  "reload_one e m now f acc =
     (case acc of (p, g, s, reloaded) \<Rightarrow>
      case m (config_file_path (pv_paths e) f) of
        Some (File bs) \<Rightarrow>
          if pe_known p f = Some (pv_hash e bs) then acc
          else
            let p1 = p\<lparr>pe_known := (pe_known p)(f := Some (pv_hash e bs))\<rparr> in
            if pe_dirty p f
            then (if pe_due p = None then p1\<lparr>pe_due := Some (now + debounce)\<rparr> else p1, g, s, reloaded)
            else (case file_load (pv_parsers e) f bs g s of
                    Some (g', s') \<Rightarrow> (p1, g', s', reloaded @ [f])
                  | None \<Rightarrow> (p1, g, s, reloaded))
      | _ \<Rightarrow> acc)"

definition reload_changed :: "persist_env \<Rightarrow> files \<Rightarrow> nat \<Rightarrow> gui_state \<Rightarrow> saved_nodes \<Rightarrow> persist \<Rightarrow>
    persist \<times> gui_state \<times> saved_nodes \<times> config_file list" where
  "reload_changed e m now g s p = fold (reload_one e m now) config_files (p, g, s, [])"

section \<open>Lemmas\<close>

lemma clamp_active_valid: "sv_profiles s \<noteq> [] \<Longrightarrow> sv_active (clamp_active s) < length (sv_profiles (clamp_active s))"
  by (cases "sv_profiles s") (auto simp: clamp_active_def)

lemma clamp_active_profiles [simp]: "sv_profiles (clamp_active s) = sv_profiles s"
  by (simp add: clamp_active_def)

text \<open>The three files and their temporary files are different.\<close>

lemma paths_distinct: "config_file_path (in_dir d) f = config_file_path (in_dir d) f' \<longleftrightarrow> f = f'"
  "config_file_path (in_dir d) f \<noteq> with_extension ''tmp'' (config_file_path (in_dir d) f')"
proof -
  show "config_file_path (in_dir d) f = config_file_path (in_dir d) f' \<longleftrightarrow> f = f'"
    by (cases f; cases f') (simp_all add: config_file_path_def in_dir_def)
  show "config_file_path (in_dir d) f \<noteq> with_extension ''tmp'' (config_file_path (in_dir d) f')"
    by (cases f; cases f') (simp_all add: config_file_path_def config_paths_tmp, simp_all add: in_dir_def)
qed


lemma write_atomic_files:
  assumes "write_atomic fault (config_file_path (in_dir d) f) bs m = (m', r)"
  shows "(case r of
      Inl _ \<Rightarrow> \<forall>f'. m' (config_file_path (in_dir d) f') = m (config_file_path (in_dir d) f')
    | Inr _ \<Rightarrow> m' (config_file_path (in_dir d) f) = Some (File bs)
        \<and> (\<forall>f'. f' \<noteq> f \<longrightarrow> m' (config_file_path (in_dir d) f') = m (config_file_path (in_dir d) f')))"
  using assms paths_distinct by (auto simp: write_atomic_def Let_def split: option.splits io_fault.splits if_splits)

lemma persist_write_spec:
  assumes "persist_write e fault f g s p m = (p', m', r)" "pv_paths e = in_dir d"
  shows "(case r of
      Inl _ \<Rightarrow> p' = p \<and> (\<forall>f'. m' (config_file_path (pv_paths e) f') = m (config_file_path (pv_paths e) f'))
    | Inr _ \<Rightarrow> \<exists>bs. file_bytes (pv_printers e) f g s = Some bs \<and> m' (config_file_path (pv_paths e) f) = Some (File bs)
        \<and> p' = p\<lparr>pe_dirty := (pe_dirty p)(f := False), pe_known := (pe_known p)(f := Some (pv_hash e bs))\<rparr>
        \<and> (\<forall>f'. f' \<noteq> f \<longrightarrow> m' (config_file_path (pv_paths e) f') = m (config_file_path (pv_paths e) f')))"
proof (cases "file_bytes (pv_printers e) f g s")
  case None
  then show ?thesis using assms(1) by (auto simp: persist_write_def)
next
  case (Some bs)
  obtain m1 r1 where w: "write_atomic fault (config_file_path (in_dir d) f) bs m = (m1, r1)" by fastforce
  then show ?thesis using assms Some write_atomic_files [OF w] by (auto simp: persist_write_def split: sum.splits)
qed

text \<open>What a flush leaves of each file of the list.\<close>

definition flushed :: "persist_env \<Rightarrow> gui_state \<Rightarrow> saved_nodes \<Rightarrow> nat \<Rightarrow> persist \<Rightarrow> files \<Rightarrow> persist \<times> files \<times> (storage_error + unit) \<Rightarrow>
    config_file \<Rightarrow> bool" where
  "flushed e g s now p m acc f =
     (case acc of (p', m', r) \<Rightarrow>
      let path = config_file_path (pv_paths e) f in
      if \<not> pe_dirty p f then \<not> pe_dirty p' f \<and> m' path = m path \<and> pe_known p' f = pe_known p f
      else if pe_dirty p' f then m' path = m path \<and> \<not> is_ok r \<and> pe_due p' = Some (now + retry_delay)
      else (\<exists>bs. file_bytes (pv_printers e) f g s = Some bs \<and> m' path = Some (File bs) \<and> pe_known p' f = Some (pv_hash e bs)))"

lemma flushed_cong:
  assumes "pe_dirty p1 f = pe_dirty p f" "pe_known p1 f = pe_known p f"
    and "m1 (config_file_path (pv_paths e) f) = m (config_file_path (pv_paths e) f)"
  shows "flushed e g s now p1 m1 acc f = flushed e g s now p m acc f"
  using assms by (simp add: flushed_def)

lemma flush_files_spec:
  assumes "pv_paths e = in_dir d" "distinct fs" "flush_files e faults g s now fs (p, m, r) = (p', m', r')"
  shows "(\<forall>f \<in> set fs. flushed e g s now p m (p', m', r') f)
    \<and> (\<forall>f. f \<notin> set fs \<longrightarrow> pe_dirty p' f = pe_dirty p f \<and> pe_known p' f = pe_known p f
        \<and> m' (config_file_path (pv_paths e) f) = m (config_file_path (pv_paths e) f))
    \<and> (\<not> is_ok r \<longrightarrow> \<not> is_ok r') \<and> (pe_due p = Some (now + retry_delay) \<longrightarrow> pe_due p' = Some (now + retry_delay))
    \<and> (is_ok r' \<longrightarrow> pe_due p' = pe_due p)"
  using assms
proof (induction fs arbitrary: p m r)
  case (Cons f fs)
  show ?case
  proof (cases "pe_dirty p f")
    case False
    then have "flush_files e faults g s now fs (p, m, r) = (p', m', r')" using Cons.prems(3) by simp
    note IH = Cons.IH [OF Cons.prems(1) _ this]
    have "f \<notin> set fs" "distinct fs" using Cons.prems(2) by simp_all
    moreover from this have "flushed e g s now p m (p', m', r') f" using IH False by (simp add: flushed_def)
    ultimately show ?thesis using IH by simp
  next
    case True
    obtain p1 m1 r1 where w: "persist_write e (faults f) f g s p m = (p1, m1, r1)" by (metis prod_cases3)
    note spec = persist_write_spec [OF w Cons.prems(1)]
    show ?thesis
    proof (cases r1)
      case (Inl err)
      let ?p = "p1\<lparr>pe_due := Some (now + retry_delay)\<rparr>" and ?r = "if is_ok r then Inl err else r"
      have "flush_files e faults g s now fs (?p, m1, ?r) = (p', m', r')" using Cons.prems(3) True w Inl by simp
      note IH = Cons.IH [OF Cons.prems(1) _ this]
      have same: "p1 = p" "\<forall>f'. m1 (config_file_path (pv_paths e) f') = m (config_file_path (pv_paths e) f')"
        using spec Inl by simp_all
      have f: "f \<notin> set fs" "distinct fs" using Cons.prems(2) by simp_all
      have bad: "\<not> is_ok ?r" by (simp add: is_ok_def)
      then have "\<not> is_ok r'" "pe_due p' = Some (now + retry_delay)" using IH f by simp_all
      moreover have "flushed e g s now p m (p', m', r') f" using IH f True same calculation by (simp add: flushed_def)
      moreover have "flushed e g s now p m (p', m', r') f'" if "f' \<in> set fs" for f'
      proof -
        have "flushed e g s now ?p m1 (p', m', r') f'" using IH f that by blast
        then show ?thesis using flushed_cong [of ?p f' p m1 e m g s now "(p', m', r')"] same by simp
      qed
      ultimately show ?thesis using IH f same by simp
    next
      case (Inr u)
      have "flush_files e faults g s now fs (p1, m1, r) = (p', m', r')" using Cons.prems(3) True w Inr by simp
      note IH = Cons.IH [OF Cons.prems(1) _ this]
      obtain bs where bs: "file_bytes (pv_printers e) f g s = Some bs" "m1 (config_file_path (pv_paths e) f) = Some (File bs)"
        "p1 = p\<lparr>pe_dirty := (pe_dirty p)(f := False), pe_known := (pe_known p)(f := Some (pv_hash e bs))\<rparr>"
        "\<forall>f'. f' \<noteq> f \<longrightarrow> m1 (config_file_path (pv_paths e) f') = m (config_file_path (pv_paths e) f')"
        using spec Inr by auto
      have f: "f \<notin> set fs" "distinct fs" using Cons.prems(2) by simp_all
      have "flushed e g s now p m (p', m', r') f" using IH f True bs by (simp add: flushed_def)
      moreover have "flushed e g s now p m (p', m', r') f'" if "f' \<in> set fs" for f'
      proof -
        have "f' \<noteq> f" using that f by blast
        moreover have "flushed e g s now p1 m1 (p', m', r') f'" using IH f that by blast
        ultimately show ?thesis using flushed_cong [of p1 f' p m1 e m g s now "(p', m', r')"] bs by simp
      qed
      ultimately show ?thesis using IH f bs by simp
    qed
  qed
qed simp


lemma config_files_distinct: "distinct config_files" "set config_files = UNIV"
proof -
  show "distinct config_files" by (simp add: config_files_def)
  have "f \<in> set config_files" for f by (cases f) (simp_all add: config_files_def)
  then show "set config_files = UNIV" by blast
qed

lemma persist_flush_spec:
  assumes "pv_paths e = in_dir d" "persist_flush e faults g s now p m = (p', m', r)"
  shows "flushed e g s now p m (p', m', r) f" "is_ok r \<Longrightarrow> pe_due p' = None"
proof -
  have "flush_files e faults g s now config_files (p\<lparr>pe_due := None\<rparr>, m, Inr ()) = (p', m', r)"
    using assms(2) by (simp add: persist_flush_def)
  note spec = flush_files_spec [OF assms(1) config_files_distinct(1) this]
  then have "flushed e g s now (p\<lparr>pe_due := None\<rparr>) m (p', m', r) f" using config_files_distinct(2) by blast
  then show "flushed e g s now p m (p', m', r) f"
    using flushed_cong [of "p\<lparr>pe_due := None\<rparr>" f p m e m g s now "(p', m', r)"] by simp
  show "is_ok r \<Longrightarrow> pe_due p' = None" using spec by simp
qed

text \<open>Reloading touches a file only when its bytes are new and it has no local changes.\<close>

lemma reload_one_cases:
  obtains (Same) "reload_one e m now f (p, g, s, l) = (p, g, s, l)"
  | (Skipped) p' where "reload_one e m now f (p, g, s, l) = (p', g, s, l)" "pe_dirty p' = pe_dirty p"
      "\<forall>f'. f' \<noteq> f \<longrightarrow> pe_known p' f' = pe_known p f'" "pe_due p \<noteq> None \<longrightarrow> pe_due p' \<noteq> None"
  | (Loaded) p' bs g' s' where "reload_one e m now f (p, g, s, l) = (p', g', s', l @ [f])"
      "m (config_file_path (pv_paths e) f) = Some (File bs)" "pe_known p f \<noteq> Some (pv_hash e bs)" "\<not> pe_dirty p f"
      "file_load (pv_parsers e) f bs g s = Some (g', s')" "p' = p\<lparr>pe_known := (pe_known p)(f := Some (pv_hash e bs))\<rparr>"
proof (cases "m (config_file_path (pv_paths e) f)")
  case None
  then show thesis using Same by (simp add: reload_one_def)
next
  case (Some en)
  show thesis
  proof (cases en)
    case Unreadable
    then show thesis using Same Some by (simp add: reload_one_def)
  next
    case (File bs)
    let ?p1 = "p\<lparr>pe_known := (pe_known p)(f := Some (pv_hash e bs))\<rparr>"
    consider "pe_known p f = Some (pv_hash e bs)" | "pe_known p f \<noteq> Some (pv_hash e bs)" "pe_dirty p f"
      | "pe_known p f \<noteq> Some (pv_hash e bs)" "\<not> pe_dirty p f" "file_load (pv_parsers e) f bs g s = None"
      | g' s' where "pe_known p f \<noteq> Some (pv_hash e bs)" "\<not> pe_dirty p f" "file_load (pv_parsers e) f bs g s = Some (g', s')"
      by (cases "file_load (pv_parsers e) f bs g s") auto
    then show thesis
    proof cases
      case 1
      then show thesis using Same Some File by (simp add: reload_one_def)
    next
      case 2
      then show thesis
        using Skipped [of "if pe_due p = None then ?p1\<lparr>pe_due := Some (now + debounce)\<rparr> else ?p1"] Some File
        by (cases "pe_due p") (simp_all add: reload_one_def Let_def)
    next
      case 3
      then show thesis using Skipped [of ?p1] Some File by (simp add: reload_one_def Let_def)
    next
      case 4
      then show thesis using Loaded [of ?p1 g' s' bs] Some File by (simp add: reload_one_def Let_def)
    qed
  qed
qed

section \<open>Properties\<close>

text \<open>Saving loses nothing: after a flush a file that was dirty either holds exactly the bytes
  of the current state and is clean, or is unchanged, still dirty and has a retry scheduled, and
  the flush reports an error; a clean file is not touched; and a write of ours is not taken for
  an external change by the next reload.\<close>

lemma flush_outcome:
  assumes "pv_paths e = in_dir d" "persist_flush e faults g s now p m = (p', m', r)"
  shows "(\<forall>f. flushed e g s now p m (p', m', r) f) \<and> (is_ok r \<longrightarrow> (\<forall>f. \<not> pe_dirty p' f) \<and> pe_due p' = None)
    \<and> (\<forall>f. pe_dirty p f \<and> \<not> pe_dirty p' f \<longrightarrow> (\<forall>g0 s0. reload_one e m' now f (p', g0, s0, []) = (p', g0, s0, [])))"
proof -
  note spec = persist_flush_spec [OF assms]
  have "\<not> pe_dirty p' f" if "is_ok r" for f using spec(1) [of f] that by (auto simp: flushed_def Let_def split: if_splits)
  moreover have "reload_one e m' now f (p', g0, s0, []) = (p', g0, s0, [])" if "pe_dirty p f" "\<not> pe_dirty p' f" for f g0 s0
    using spec(1) [of f] that by (auto simp: flushed_def Let_def reload_one_def)
  ultimately show ?thesis using spec by blast
qed


definition demo_persist_env :: persist_env where
  "demo_persist_env = \<lparr>pv_printers = \<lparr>print_app = (\<lambda>_. Some [1]), print_profiles = (\<lambda>_. Some [2]), print_runtime = (\<lambda>_. Some [3])\<rparr>,
     pv_parsers = \<lparr>parse_app = (\<lambda>_. None), parse_profiles = (\<lambda>_. None), parse_runtime = (\<lambda>_. None)\<rparr>,
     pv_hash = (\<lambda>_. 0), pv_paths = in_dir ''d''\<rparr>"

definition demo_gui :: gui_state where
  "demo_gui = \<lparr>gs_config = app_config_default, gs_profiles = [profile_default], gs_runtime = runtime_default\<rparr>"

definition demo_flush :: "persist \<times> files \<times> (storage_error + unit)" where
  "demo_flush = persist_flush demo_persist_env (\<lambda>f. if f = CfApp then Some RenameFault else None) demo_gui (saved_new demo_gui) 7
     (persist_mark CfRuntime 0 (persist_mark CfApp 0 (persist_new (\<lambda>_. 0) (\<lambda>_. None)))) Map.empty"

lemma flush_outcome_witness:
  "\<forall>f. flushed demo_persist_env demo_gui (saved_new demo_gui) 7
     (persist_mark CfRuntime 0 (persist_mark CfApp 0 (persist_new (\<lambda>_. 0) (\<lambda>_. None)))) Map.empty demo_flush f"
  using flush_outcome [of demo_persist_env "''d''" _ demo_gui "saved_new demo_gui" 7 _ _ "fst demo_flush" "fst (snd demo_flush)" "snd (snd demo_flush)"]
  by (simp add: demo_flush_def demo_persist_env_def)

end
