(* ===== verification/Gui_Nodes.thy ===== *)
theory Gui_Nodes
  imports Gui_Persist Gui_Link
begin

text \<open>
  The node editor, first part of \<open>gui/src/ui/controller/nodes.rs\<close>: the draft that holds the text as
  typed, its checks, and how it is applied to a profile.
\<close>

datatype draft_field = DfName | DfProtocol | DfServer | DfPort | DfUuid | DfPassword | DfMethod | DfSni | DfAllowInsecure
  | DfPinned | DfCongestionControl | DfPlugin | DfPluginOptions | DfPluginArgs | DfTimeout | DfGroup

datatype draft_error = ErrRequired | ErrPort | ErrTimeout

datatype list_command = MoveUp | MoveDown | Duplicate | Delete

record draft_data =
  dd_name :: string
  dd_protocol :: proxy_protocol
  dd_server :: string
  dd_port :: string
  dd_uuid :: string
  dd_password :: string
  dd_method :: string
  dd_sni :: string
  dd_allow_insecure :: bool
  dd_pinned :: string
  dd_congestion_control :: string
  dd_plugin :: string
  dd_plugin_options :: string
  dd_plugin_args :: string
  dd_timeout :: string
  dd_group :: string

definition draft_default :: draft_data where
  "draft_default = \<lparr>dd_name = [], dd_protocol = Juicity, dd_server = [], dd_port = [], dd_uuid = [], dd_password = [],
     dd_method = [], dd_sni = [], dd_allow_insecure = False, dd_pinned = [], dd_congestion_control = [], dd_plugin = [],
     dd_plugin_options = [], dd_plugin_args = [], dd_timeout = [], dd_group = []\<rparr>"

definition parse_port :: "string \<Rightarrow> u16 option" where
  "parse_port s = (case parse_u16 (trim s) of Some p \<Rightarrow> if p = 0 then None else Some p | None \<Rightarrow> None)"

definition parse_timeout :: "string \<Rightarrow> u32 option" where
  "parse_timeout s = map_option word_of_nat (parse_uint 10 (2 ^ 32) (trim s))"

definition opt_text :: "string option \<Rightarrow> string" where
  "opt_text v = (case v of Some s \<Rightarrow> s | None \<Rightarrow> [])"

definition from_profile :: "proxy_profile \<Rightarrow> draft_data" where
  "from_profile p = \<lparr>dd_name = pp_name p, dd_protocol = pp_protocol p, dd_server = pp_server p,
     dd_port = dec_str (unat (pp_server_port p)), dd_uuid = pp_uuid p, dd_password = pp_password p, dd_method = pp_method p,
     dd_sni = opt_text (pp_sni p), dd_allow_insecure = pp_allow_insecure p, dd_pinned = opt_text (pp_pinned p),
     dd_congestion_control = (case pp_congestion_control p of Some s \<Rightarrow> s | None \<Rightarrow> ''bbr''),
     dd_plugin = opt_text (pp_plugin p), dd_plugin_options = opt_text (pp_plugin_opts p),
     dd_plugin_args = opt_text (pp_plugin_args p), dd_timeout = dec_str (unat (pp_timeout p)), dd_group = opt_text (pp_group p)\<rparr>"

fun draft_set :: "draft_field \<Rightarrow> string \<Rightarrow> draft_data \<Rightarrow> draft_data" where
  "draft_set DfName v d = d\<lparr>dd_name := v\<rparr>"
| "draft_set DfProtocol v d = d\<lparr>dd_protocol := (if v = ''shadowsocks'' then Shadowsocks else Juicity)\<rparr>"
| "draft_set DfServer v d = d\<lparr>dd_server := v\<rparr>"
| "draft_set DfPort v d = d\<lparr>dd_port := v\<rparr>"
| "draft_set DfUuid v d = d\<lparr>dd_uuid := v\<rparr>"
| "draft_set DfPassword v d = d\<lparr>dd_password := v\<rparr>"
| "draft_set DfMethod v d = d\<lparr>dd_method := v\<rparr>"
| "draft_set DfSni v d = d\<lparr>dd_sni := v\<rparr>"
| "draft_set DfAllowInsecure v d = d\<lparr>dd_allow_insecure := (v = ''true'')\<rparr>"
| "draft_set DfPinned v d = d\<lparr>dd_pinned := v\<rparr>"
| "draft_set DfCongestionControl v d = d\<lparr>dd_congestion_control := v\<rparr>"
| "draft_set DfPlugin v d = d\<lparr>dd_plugin := v\<rparr>"
| "draft_set DfPluginOptions v d = d\<lparr>dd_plugin_options := v\<rparr>"
| "draft_set DfPluginArgs v d = d\<lparr>dd_plugin_args := v\<rparr>"
| "draft_set DfTimeout v d = d\<lparr>dd_timeout := v\<rparr>"
| "draft_set DfGroup v d = d\<lparr>dd_group := v\<rparr>"

definition take_advanced :: "draft_data \<Rightarrow> draft_data \<Rightarrow> draft_data" where
  "take_advanced sheet d = d\<lparr>dd_sni := dd_sni sheet, dd_allow_insecure := dd_allow_insecure sheet, dd_pinned := dd_pinned sheet,
     dd_congestion_control := dd_congestion_control sheet, dd_plugin := dd_plugin sheet,
     dd_plugin_options := dd_plugin_options sheet, dd_plugin_args := dd_plugin_args sheet, dd_timeout := dd_timeout sheet,
     dd_group := dd_group sheet\<rparr>"

fun field_of_required :: "required_field \<Rightarrow> draft_field" where
  "field_of_required RequiredServer = DfServer"
| "field_of_required RequiredUuid = DfUuid"
| "field_of_required RequiredPassword = DfPassword"

definition draft_missing :: "draft_data \<Rightarrow> draft_field list" where
  "draft_missing d = map field_of_required (missing_fields (profile_default\<lparr>pp_protocol := dd_protocol d,
     pp_server := dd_server d, pp_uuid := dd_uuid d, pp_password := dd_password d, pp_method := dd_method d\<rparr>))"

definition draft_errors :: "draft_data \<Rightarrow> (draft_field \<times> draft_error) list" where
  "draft_errors d = map (\<lambda>f. (f, ErrRequired)) (draft_missing d)
     @ (if parse_port (dd_port d) = None then [(DfPort, ErrPort)] else [])
     @ (if parse_timeout (dd_timeout d) = None then [(DfTimeout, ErrTimeout)] else [])"

definition checked_text :: "draft_data \<Rightarrow> draft_field \<Rightarrow> string" where
  "checked_text d f = (case f of DfServer \<Rightarrow> dd_server d | DfPort \<Rightarrow> dd_port d | DfUuid \<Rightarrow> dd_uuid d
     | DfPassword \<Rightarrow> dd_password d | DfTimeout \<Rightarrow> dd_timeout d | _ \<Rightarrow> [])"

definition unapplied :: "draft_data \<Rightarrow> proxy_profile \<Rightarrow> bool" where
  "unapplied d p = list_ex (\<lambda>(f, _). checked_text d f \<noteq> checked_text (from_profile p) f) (draft_errors d)"

definition draft_apply :: "draft_data \<Rightarrow> proxy_profile \<Rightarrow> proxy_profile" where
  "draft_apply d p =
     (let cur = from_profile p;
          missing = draft_missing d;
          changed = (\<lambda>sel v old. if sel d \<noteq> sel cur then v else old)
      in p\<lparr>pp_name := changed dd_name (trim (dd_name d)) (pp_name p),
           pp_protocol := dd_protocol d,
           pp_server := (if dd_server d \<noteq> dd_server cur \<and> DfServer \<notin> set missing then trim (dd_server d) else pp_server p),
           pp_server_port := (case parse_port (dd_port d) of Some port \<Rightarrow> port | None \<Rightarrow> pp_server_port p),
           pp_uuid := (if dd_uuid d \<noteq> dd_uuid cur \<and> DfUuid \<notin> set missing then trim (dd_uuid d) else pp_uuid p),
           pp_password := (if DfPassword \<notin> set missing then dd_password d else pp_password p),
           pp_method := dd_method d,
           pp_sni := (if dd_sni d \<noteq> dd_sni cur then non_empty_text (dd_sni d) else pp_sni p),
           pp_allow_insecure := dd_allow_insecure d,
           pp_pinned := (if dd_pinned d \<noteq> dd_pinned cur then non_empty_text (dd_pinned d) else pp_pinned p),
           pp_congestion_control := (if dd_congestion_control d \<noteq> dd_congestion_control cur
             then normalize_congestion_control (dd_congestion_control d) else pp_congestion_control p),
           pp_plugin := (if dd_plugin d \<noteq> dd_plugin cur then non_empty_text (dd_plugin d) else pp_plugin p),
           pp_plugin_opts := (if dd_plugin_options d \<noteq> dd_plugin_options cur
             then non_empty_text (dd_plugin_options d) else pp_plugin_opts p),
           pp_plugin_args := (if dd_plugin_args d \<noteq> dd_plugin_args cur
             then non_empty_text (dd_plugin_args d) else pp_plugin_args p),
           pp_timeout := (case parse_timeout (dd_timeout d) of Some t \<Rightarrow> t | None \<Rightarrow> pp_timeout p),
           pp_group := (if dd_group d \<noteq> dd_group cur then non_empty_text (dd_group d) else pp_group p)\<rparr>)"


section \<open>Lemmas\<close>

lemma drop_ws_fixed: "drop_ws ws (drop_ws ws s) = drop_ws ws s"
proof (induction ws s rule: drop_ws.induct)
  case (1 ws s)
  show ?case
  proof (cases "ws_len ws s = 0 \<or> s = []")
    case False
    then show ?thesis using 1 by (simp add: drop_ws.simps [of ws s])
  qed (auto simp: drop_ws.simps [of ws s])
qed

lemma drop_ws_Nil_ends:
  assumes "drop_ws ws s = []" "s \<noteq> []"
  shows "\<exists>w \<in> set ws. w \<noteq> [] \<and> (\<exists>p. s = p @ w)"
  using assms
proof (induction ws s rule: drop_ws.induct)
  case (1 ws s)
  have n: "ws_len ws s \<noteq> 0" using 1(2,3) by (auto simp: drop_ws.simps [of ws s] split: if_splits)
  then obtain w where w: "w \<in> set ws" "w \<noteq> []" "starts_with w s" "ws_len ws s = length w"
    by (auto simp: ws_len_def find_Some_iff split: option.splits) (metis nth_mem)
  have rest: "drop_ws ws (drop (ws_len ws s) s) = []" using 1(2,3) n by (simp add: drop_ws.simps [of ws s])
  show ?case
  proof (cases "drop (ws_len ws s) s = []")
    case True
    then have "s = [] @ w" using w(3,4) by (simp add: starts_with_def)
    then show ?thesis using w(1,2) by blast
  next
    case False
    then obtain v p where "v \<in> set ws" "v \<noteq> []" "drop (ws_len ws s) s = p @ v" using 1(1) n rest 1(3) by blast
    moreover have "s = (take (ws_len ws s) s @ p) @ v" using calculation(3) by (metis append_assoc append_take_drop_id)
    ultimately show ?thesis by blast
  qed
qed

lemma drop_ws_fixed_start:
  assumes "drop_ws ws s = s" "w \<in> set ws" "w \<noteq> []" "s \<noteq> []"
  shows "\<not> starts_with w s"
proof
  assume "starts_with w s"
  then have n: "ws_len ws s \<noteq> 0" using assms(2,3) by (auto simp: ws_len_def find_None_iff find_Some_iff split: option.splits)
  have len: "length (drop_ws ws t) \<le> length t" for t
  proof (induction ws t rule: drop_ws.induct)
    case (1 ws t)
    then show ?case by (simp add: drop_ws.simps [of ws t]) (meson diff_le_self le_trans)
  qed
  have "drop_ws ws s = drop_ws ws (drop (ws_len ws s) s)" using n assms(4) by (simp add: drop_ws.simps [of ws s])
  then have "length s \<le> length s - ws_len ws s" using len [of "drop (ws_len ws s) s"] assms(1) by simp
  then show False using n assms(4) by (cases s) simp_all
qed

text \<open>Trimming twice does not empty a text that was not blank.\<close>

lemma trim_trim_nonempty:
  assumes "trim s \<noteq> []"
  shows "trim (trim s) \<noteq> []"
proof
  let ?t = "trim s" and ?v = "trim_start (trim s)"
  assume "trim ?t = []"
  then have "drop_ws (map rev white_space) (rev ?v) = []" by (simp add: trim_def trim_end_def)
  moreover have "?v \<noteq> []"
  proof
    assume "?v = []"
    then obtain w p where w: "w \<in> set white_space" "w \<noteq> []" "?t = p @ w"
      using drop_ws_Nil_ends [of white_space ?t] assms by (auto simp: trim_start_def)
    have "drop_ws (map rev white_space) (rev ?t) = rev ?t" by (simp add: trim_def trim_end_def drop_ws_fixed)
    then have "\<not> starts_with (rev w) (rev ?t)" using drop_ws_fixed_start [of _ "rev ?t" "rev w"] w(1,2) assms by simp
    then show False using w(3) by (simp add: starts_with_def)
  qed
  ultimately obtain w p where w: "w \<in> set white_space" "w \<noteq> []" "rev ?v = p @ rev w"
    using drop_ws_Nil_ends [of "map rev white_space" "rev ?v"] by auto
  have "?v = w @ rev p" using w(3) by (metis rev_append rev_rev_ident)
  moreover have "drop_ws white_space ?v = ?v" by (simp add: trim_start_def drop_ws_fixed)
  ultimately show False using drop_ws_fixed_start [of white_space ?v w] w(1,2) by (simp add: starts_with_def)
qed

lemma trim_dec_str [simp]: "trim (dec_str n) = dec_str n"
  by (rule trim_visible) simp

lemma parse_port_text: "parse_port (dec_str (unat (n :: u16))) = (if n = 0 then None else Some n)"
  using parse_u16_dec_str [of n] by (auto simp: parse_port_def)

lemma parse_timeout_text: "parse_timeout (dec_str (unat (n :: u32))) = Some n"
proof -
  have "unat n < 2 ^ 32" using unsigned_less [of n, where 'a = nat] by simp
  moreover have "trim (radix_str 10 (unat n)) = radix_str 10 (unat n)" using trim_dec_str [of "unat n"] by (simp only: dec_str_def)
  ultimately show ?thesis by (simp add: parse_timeout_def dec_str_def parse_uint_radix_str)
qed

lemma draft_missing_fields:
  "DfServer \<in> set (draft_missing d) \<longleftrightarrow> trim (dd_server d) = []"
  "DfUuid \<in> set (draft_missing d) \<longleftrightarrow> dd_protocol d = Juicity \<and> trim (dd_uuid d) = []"
  "DfPassword \<in> set (draft_missing d) \<longleftrightarrow> dd_password d = [] \<and> (dd_protocol d = Juicity \<or> dd_method d \<notin> {''none'', ''plain''})"
  by (cases "dd_protocol d"; cases "trim (dd_server d) = []"; cases "trim (dd_uuid d) = []"; cases "dd_password d = []";
    cases "dd_method d = ''none'' \<or> dd_method d = ''plain''"; simp add: draft_missing_def missing_fields_def)+

lemma draft_errors_Nil:
  "draft_errors d = [] \<longleftrightarrow> draft_missing d = [] \<and> parse_port (dd_port d) \<noteq> None \<and> parse_timeout (dd_timeout d) \<noteq> None"
  by (simp add: draft_errors_def)

lemma draft_apply_fields:
  "pp_protocol (draft_apply d p) = dd_protocol d" "pp_method (draft_apply d p) = dd_method d"
  "pp_server (draft_apply d p) = (if dd_server d \<noteq> pp_server p \<and> DfServer \<notin> set (draft_missing d) then trim (dd_server d) else pp_server p)"
  "pp_server_port (draft_apply d p) = (case parse_port (dd_port d) of Some port \<Rightarrow> port | None \<Rightarrow> pp_server_port p)"
  "pp_uuid (draft_apply d p) = (if dd_uuid d \<noteq> pp_uuid p \<and> DfUuid \<notin> set (draft_missing d) then trim (dd_uuid d) else pp_uuid p)"
  "pp_password (draft_apply d p) = (if DfPassword \<notin> set (draft_missing d) then dd_password d else pp_password p)"
  "pp_timeout (draft_apply d p) = (case parse_timeout (dd_timeout d) of Some t \<Rightarrow> t | None \<Rightarrow> pp_timeout p)"
  by (simp_all add: draft_apply_def Let_def from_profile_def)

section \<open>Properties\<close>

text \<open>The editor never changes what was not edited and never stores what is not valid: a draft
  made from a profile applied to it gives the profile back; and a draft without errors makes a
  complete profile, with the typed port, timeout and credentials, that leaves nothing unapplied,
  while invalid text keeps the stored server, user id, password, port and timeout.\<close>

lemma draft_apply_correct:
  "draft_apply (from_profile p) p = p
    \<and> (draft_errors d = [] \<longrightarrow> missing_fields (draft_apply d p) = [] \<and> \<not> unapplied d (draft_apply d p)
        \<and> parse_port (dd_port d) = Some (pp_server_port (draft_apply d p))
        \<and> parse_timeout (dd_timeout d) = Some (pp_timeout (draft_apply d p)) \<and> pp_password (draft_apply d p) = dd_password d)
    \<and> (parse_port (dd_port d) = None \<longrightarrow> pp_server_port (draft_apply d p) = pp_server_port p)
    \<and> (parse_timeout (dd_timeout d) = None \<longrightarrow> pp_timeout (draft_apply d p) = pp_timeout p)
    \<and> (trim (dd_server d) = [] \<longrightarrow> pp_server (draft_apply d p) = pp_server p)"
proof -
  have same: "draft_apply (from_profile p) p = p"
    by (cases p) (simp add: draft_apply_def from_profile_def parse_port_text parse_timeout_text draft_missing_fields Let_def)
  have "missing_fields (draft_apply d p) = []" "\<not> unapplied d (draft_apply d p)"
    "parse_port (dd_port d) = Some (pp_server_port (draft_apply d p))"
    "parse_timeout (dd_timeout d) = Some (pp_timeout (draft_apply d p))" "pp_password (draft_apply d p) = dd_password d"
    if ok: "draft_errors d = []"
  proof -
    have m: "draft_missing d = []" using ok by (simp add: draft_errors_Nil)
    then have f: "trim (dd_server d) \<noteq> []" "dd_protocol d = Juicity \<Longrightarrow> trim (dd_uuid d) \<noteq> []"
      "dd_password d = [] \<Longrightarrow> dd_protocol d \<noteq> Juicity \<and> dd_method d \<in> {''none'', ''plain''}"
      using draft_missing_fields [of d] by auto
    show "pp_password (draft_apply d p) = dd_password d" using m by (simp add: draft_apply_fields)
    show "parse_port (dd_port d) = Some (pp_server_port (draft_apply d p))"
      "parse_timeout (dd_timeout d) = Some (pp_timeout (draft_apply d p))"
      using ok by (auto simp: draft_errors_Nil draft_apply_fields)
    show "\<not> unapplied d (draft_apply d p)" using ok by (simp add: unapplied_def)
    have "trim (pp_server (draft_apply d p)) \<noteq> []" using f(1) m trim_trim_nonempty [of "dd_server d"] by (auto simp: draft_apply_fields)
    moreover have "dd_protocol d = Juicity \<Longrightarrow> trim (pp_uuid (draft_apply d p)) \<noteq> []"
      using f(2) m trim_trim_nonempty [of "dd_uuid d"] by (auto simp: draft_apply_fields)
    ultimately show "missing_fields (draft_apply d p) = []"
      using f(3) m by (cases "dd_protocol d") (auto simp: missing_fields_def draft_apply_fields)
  qed
  then show ?thesis using same draft_missing_fields(1) [of d] by (simp add: draft_apply_fields)
qed

lemma draft_apply_correct_witness:
  "missing_fields (draft_apply (from_profile demo_profile) profile_default) = []"
proof -
  have "trim ''h'' = ''h''" "trim ''u'' = ''u''" by (simp_all add: trim_visible visible_text)
  then have "draft_errors (from_profile demo_profile) = []"
    using parse_port_text [of 443] parse_timeout_text [of 5]
    by (simp add: draft_errors_Nil draft_missing_def missing_fields_def from_profile_def demo_profile_def profile_default_def)
  then show ?thesis using draft_apply_correct [of demo_profile "from_profile demo_profile"]
    draft_apply_correct [of profile_default "from_profile demo_profile"] by blast
qed

end
