(* ===== verification/Gui_Pac.thy ===== *)
theory Gui_Pac
  imports Gui_Config Rust_Net
begin

text \<open>
  PAC files, \<open>gui/src/pac.rs\<close>: rule lists, the generated script and what it decides, the rule
  download and the small HTTP server.

  The generated script is text; \<open>run_pac\<close> reads it as JavaScript (a lexer, the object literal, the
  tokens of the lookup), and \<open>find_proxy_for_url\<close> is what the function in it computes over the keys of the
  object.  The names that every JavaScript object inherits have no dot and are never looked up.
\<close>

section \<open>Rule lists\<close>

text \<open>\<open>str::lines\<close>: pieces up to and including a line feed, without the line feed and a carriage
  return before it.\<close>

fun split_inclusive :: "string \<Rightarrow> string \<Rightarrow> string list" where
  "split_inclusive acc [] = (if acc = [] then [] else [rev acc])"
| "split_inclusive acc (c # s) =
     (if c = CHR 0x0A then rev (c # acc) # split_inclusive [] s else split_inclusive (c # acc) s)"

definition strip_eol :: "string \<Rightarrow> string" where
  "strip_eol l = (case rev l of
     c # r \<Rightarrow> if c = CHR 0x0A then (case r of c' # r' \<Rightarrow> if c' = CHR 0x0D then rev r' else rev r | [] \<Rightarrow> []) else l
   | [] \<Rightarrow> [])"

definition str_lines :: "string \<Rightarrow> string list" where
  "str_lines s = map strip_eol (split_inclusive [] s)"

definition domain_of_line :: "string \<Rightarrow> string option" where
  "domain_of_line l =
     (if starts_with ''regexp:'' l \<or> starts_with ''keyword:'' l then None
      else case strip_prefix ''full:'' l of
        Some d \<Rightarrow> Some d
      | None \<Rightarrow>
          (case strip_prefix ''domain:'' l of
             Some d \<Rightarrow> Some d
           | None \<Rightarrow> if contains_char (CHR '':'') l then None else Some l))"

definition parse_domain_list :: "string \<Rightarrow> string list" where
  "parse_domain_list content =
     List.map_filter domain_of_line (filter (\<lambda>l. l \<noteq> [] \<and> \<not> starts_with ''#'' l) (str_lines content))"

section \<open>The script\<close>

definition dquote :: char where "dquote = CHR 0x22"

definition domains_to_js_object :: "string list \<Rightarrow> string" where
  "domains_to_js_object domains =
     ''{'' @ join '','' (map (\<lambda>d. [dquote] @ filter (\<lambda>c. c \<noteq> dquote) d @ [dquote] @ '':1'') domains) @ ''}''"

definition nl :: string where "nl = [CHR 0x0A]"

text \<open>The dash of the title is not ASCII.\<close>

definition en_dash :: string where "en_dash = [CHR 0xE2, CHR 0x80, CHR 0x93]"

definition quoted :: "string \<Rightarrow> string" where "quoted s = [dquote] @ s @ [dquote]"

definition proxy_answer :: "string \<Rightarrow> string" where
  "proxy_answer mixed = ''SOCKS5 '' @ mixed @ ''; PROXY '' @ mixed @ ''; DIRECT''"

definition pac_script :: "string \<Rightarrow> string \<Rightarrow> string list \<Rightarrow> string \<Rightarrow> string \<Rightarrow> string" where
  "pac_script title var domains hit miss =
     ''/* PAC '' @ en_dash @ '' '' @ title @ '' (generated by juicity-gui) */'' @ nl
     @ ''var '' @ var @ '' = '' @ domains_to_js_object domains @ '';'' @ nl
     @ ''function FindProxyForURL(url, host) {'' @ nl
     @ ''    host = host.toLowerCase();'' @ nl
     @ ''    var parts = host.split('' @ [CHR 0x27] @ ''.'' @ [CHR 0x27] @ '');'' @ nl
     @ ''    for (var i = 0; i < parts.length - 1; i++) {'' @ nl
     @ ''        var d = parts.slice(i).join('' @ [CHR 0x27] @ ''.'' @ [CHR 0x27] @ '');'' @ nl
     @ ''        if ('' @ var @ ''[d]) return '' @ quoted hit @ '';'' @ nl
     @ ''    }'' @ nl
     @ ''    return '' @ quoted miss @ '';'' @ nl
     @ ''}''"

definition generate_bypass_china_pac :: "string \<Rightarrow> string list \<Rightarrow> string" where
  "generate_bypass_china_pac mixed direct = pac_script ''Bypass China'' ''directDomains'' direct ''DIRECT'' (proxy_answer mixed)"

definition generate_proxy_gfw_pac :: "string \<Rightarrow> string list \<Rightarrow> string" where
  "generate_proxy_gfw_pac mixed proxy = pac_script ''GFW List Only'' ''proxyDomains'' proxy (proxy_answer mixed) ''DIRECT''"

definition generate_pac :: "pac_rule_mode \<Rightarrow> string \<Rightarrow> string list \<Rightarrow> string list \<Rightarrow> string" where
  "generate_pac mode mixed direct proxy =
     (case mode of
        BypassChina \<Rightarrow> generate_bypass_china_pac mixed direct
      | ProxyGfw \<Rightarrow> generate_proxy_gfw_pac mixed proxy)"

text \<open>The function of the script.\<close>

definition find_proxy_for_url :: "string list \<Rightarrow> string \<Rightarrow> string \<Rightarrow> string \<Rightarrow> string" where
  "find_proxy_for_url keys hit miss host =
     (let parts = split_on (CHR ''.'') (to_lower host) in
      if list_ex (\<lambda>i. join ''.'' (drop i parts) \<in> set keys) [0..<length parts - 1] then hit else miss)"

section \<open>Downloading rules\<close>

text \<open>\<open>response\<close> is the body, \<open>fault\<close> where creating, copying or renaming fails.\<close>

datatype download_error = DownloadFailed | DownloadIo | RulesUnreadable

definition download_file :: "bytes option \<Rightarrow> io_fault option \<Rightarrow> string \<Rightarrow> files \<Rightarrow> files \<times> (download_error + unit)" where
  "download_file response fault dest m =
     (case response of
        None \<Rightarrow> (m, Inl DownloadFailed)
      | Some body \<Rightarrow>
          let tmp = with_extension ''tmp'' dest in
          (case fault of
             None \<Rightarrow> if m dest = Some Unreadable then (m(tmp \<mapsto> File body), Inl DownloadIo)
                     else ((m(tmp := None))(dest \<mapsto> File body), Inr ())
           | Some (WriteFault k) \<Rightarrow> (m(tmp \<mapsto> File (take k body)), Inl DownloadIo)
           | Some RenameFault \<Rightarrow> (m(tmp \<mapsto> File body), Inl DownloadIo)
           | Some _ \<Rightarrow> (m, Inl DownloadIo)))"

definition read_to_string :: "files \<Rightarrow> string \<Rightarrow> string option" where
  "read_to_string m path = (case m path of Some (File bs) \<Rightarrow> from_utf8 bs | _ \<Rightarrow> None)"

definition china_path :: "string \<Rightarrow> string" where "china_path dir = dir @ ''/china-list.txt''"

definition gfw_path :: "string \<Rightarrow> string" where "gfw_path dir = dir @ ''/gfw.txt''"

definition download_rules :: "string \<Rightarrow> bytes option \<times> io_fault option \<Rightarrow> bytes option \<times> io_fault option \<Rightarrow> files \<Rightarrow>
    files \<times> (download_error + nat \<times> nat)" where
  "download_rules dir direct proxy m =
     (case download_file (fst direct) (snd direct) (china_path dir) m of
        (m1, Inl e) \<Rightarrow> (m1, Inl e)
      | (m1, Inr _) \<Rightarrow>
          (case download_file (fst proxy) (snd proxy) (gfw_path dir) m1 of
             (m2, Inl e) \<Rightarrow> (m2, Inl e)
           | (m2, Inr _) \<Rightarrow>
               (m2, and_then (ok_or RulesUnreadable (read_to_string m2 (china_path dir))) (\<lambda>a.
                    and_then (ok_or RulesUnreadable (read_to_string m2 (gfw_path dir))) (\<lambda>b.
                      Inr (length (parse_domain_list a), length (parse_domain_list b)))))))"

definition load_rules :: "string \<Rightarrow> files \<Rightarrow> string list \<times> string list" where
  "load_rules dir m =
     (let read = (\<lambda>path. case read_to_string m path of Some s \<Rightarrow> parse_domain_list s | None \<Rightarrow> [])
      in (read (china_path dir), read (gfw_path dir)))"

text \<open>Modification times in seconds; \<open>now\<close> before the time is an error of \<open>elapsed\<close>.\<close>

definition rules_age_hours :: "(string \<Rightarrow> nat option) \<Rightarrow> nat \<Rightarrow> string \<Rightarrow> nat option" where
  "rules_age_hours mtime now dir =
     Option.bind (mtime (china_path dir)) (\<lambda>t. if t \<le> now then Some ((now - t) div 3600) else None)"

definition rules_updated_at :: "(string \<Rightarrow> nat option) \<Rightarrow> string \<Rightarrow> nat option" where
  "rules_updated_at mtime dir =
     Option.bind (mtime (china_path dir)) (\<lambda>a. map_option (min a) (mtime (gfw_path dir)))"


section \<open>The server\<close>

record pac_server =
  ps_content :: string
  ps_listen :: string
  ps_addr :: socket_addr
  ps_stop :: bool
  ps_thread :: bool
  ps_serving :: bool

definition pac_start :: "string \<Rightarrow> string \<Rightarrow> socket_addr option \<Rightarrow> bool \<Rightarrow> pac_server option" where
  "pac_start listen initial_content addr spawns =
     (case addr of
        Some a \<Rightarrow> if spawns then Some \<lparr>ps_content = initial_content, ps_listen = listen, ps_addr = a, ps_stop = False,
                                      ps_thread = True, ps_serving = True\<rparr> else None
      | None \<Rightarrow> None)"

definition pac_update :: "string \<Rightarrow> pac_server \<Rightarrow> pac_server" where
  "pac_update new_content s = s\<lparr>ps_content := new_content\<rparr>"

definition unspecified_ip :: "ip_addr \<Rightarrow> bool" where
  "unspecified_ip ip = (case ip of IpV4 a \<Rightarrow> v4_octets a = [0, 0, 0, 0] | IpV6 a \<Rightarrow> segments a = replicate 8 0)"

definition wake_addr :: "socket_addr \<Rightarrow> socket_addr" where
  "wake_addr a = (if unspecified_ip (sa_ip a)
     then a\<lparr>sa_ip := (case sa_ip a of IpV4 _ \<Rightarrow> IpV4 (Ipv4 127 0 0 1) | IpV6 _ \<Rightarrow> IpV6 (Ipv6 0 0 0 0 0 0 0 1))\<rparr>
     else a)"

definition pac_response :: "string \<Rightarrow> string" where
  "pac_response pac =
     (let crlf = [CHR 0x0D, CHR 0x0A] in
      ''HTTP/1.0 200 OK'' @ crlf @ ''Content-Type: application/x-ns-proxy-autoconfig'' @ crlf
      @ ''Content-Length: '' @ dec_str (length pac) @ crlf @ ''Connection: close'' @ crlf @ crlf @ pac)"

text \<open>One turn of the accept loop: \<open>None\<close> is a failed accept; the result is what is written.\<close>

definition pac_accept :: "bool \<Rightarrow> pac_server \<Rightarrow> pac_server \<times> string option" where
  "pac_accept accepted s =
     (if \<not> ps_serving s then (s, None)
      else if ps_stop s then (s\<lparr>ps_serving := False\<rparr>, None)
      else if accepted then (s, Some (pac_response (ps_content s)))
      else (s, None))"

text \<open>\<open>connects\<close>: the connection to the wake address succeeds; the join then waits until the loop
  has taken it and left.\<close>

definition pac_shutdown :: "(socket_addr \<Rightarrow> bool) \<Rightarrow> pac_server \<Rightarrow> pac_server" where
  "pac_shutdown connects s =
     (if \<not> ps_thread s then s
      else let s1 = s\<lparr>ps_thread := False, ps_stop := True\<rparr> in
        if connects (wake_addr (ps_addr s)) then fst (pac_accept True s1) else s1)"

text \<open>The chunks that successive reads deliver; an empty one is the end or an error.\<close>

definition head_complete :: "bytes \<Rightarrow> bool" where
  "head_complete head = (\<exists>i < length head. take 2 (drop i head) = [10, 10] \<or> take 3 (drop i head) = [10, 13, 10])"

fun read_request_head :: "bytes list \<Rightarrow> bytes \<Rightarrow> bytes \<times> nat" where
  "read_request_head chunks head =
     (if length head < 8192 \<and> \<not> head_complete head
      then (case chunks of
              [] \<Rightarrow> (head, 0)
            | c # cs \<Rightarrow> if c = [] then (head, 1)
                       else (case read_request_head cs (head @ c) of (h, n) \<Rightarrow> (h, Suc n)))
      else (head, 0))"

declare read_request_head.simps [simp del]

definition pac_url :: "string \<Rightarrow> string" where
  "pac_url listen = ''http://'' @ listen @ ''/pac''"

section \<open>Lemmas\<close>

text \<open>A domain and its subdomains.\<close>

definition domain_suffix :: "string \<Rightarrow> string \<Rightarrow> bool" where
  "domain_suffix d h = (h = d \<or> (\<exists>p. h = p @ CHR ''.'' # d))"

lemma domain_suffix_Cons:
  assumes "CHR ''.'' \<notin> set w"
  shows "domain_suffix d (w @ CHR ''.'' # h) \<longleftrightarrow> d = w @ CHR ''.'' # h \<or> domain_suffix d h"
proof -
  have "domain_suffix d h" if eq: "w @ CHR ''.'' # h = p @ CHR ''.'' # d" for p
  proof -
    consider us where "w = p @ us" "us @ CHR ''.'' # h = CHR ''.'' # d" | us where "w @ us = p" "CHR ''.'' # h = us @ CHR ''.'' # d"
      using eq unfolding append_eq_append_conv2 by blast
    then show ?thesis
    proof cases
      case 1
      then show ?thesis using assms by (cases us) (simp_all add: domain_suffix_def)
    next
      case 2
      then show ?thesis by (cases us) (simp_all add: domain_suffix_def)
    qed
  qed
  moreover have "\<exists>p. w @ CHR ''.'' # h = p @ CHR ''.'' # d" if "domain_suffix d h"
  proof -
    from that consider "h = d" | p where "h = p @ CHR ''.'' # d" by (auto simp: domain_suffix_def)
    then show ?thesis
    proof cases
      case 2
      then have "w @ CHR ''.'' # h = (w @ CHR ''.'' # p) @ CHR ''.'' # d" by simp
      then show ?thesis by blast
    qed blast
  qed
  ultimately have "(\<exists>p. w @ CHR ''.'' # h = p @ CHR ''.'' # d) \<longleftrightarrow> domain_suffix d h" by blast
  then show ?thesis using domain_suffix_def [of d "w @ CHR ''.'' # h"] by argo
qed

lemma label_suffixes:
  assumes "\<forall>w \<in> set ps. CHR ''.'' \<notin> set w" "ps \<noteq> []"
  shows "(\<exists>i < length ps - 1. join ''.'' (drop i ps) = d) \<longleftrightarrow> CHR ''.'' \<in> set d \<and> domain_suffix d (join ''.'' ps)"
  using assms
proof (induction ps rule: induct_list012)
  case (2 w)
  then show ?case by (auto simp: domain_suffix_def)
next
  case (3 w v vs)
  have "(\<exists>i < length (w # v # vs) - 1. join ''.'' (drop i (w # v # vs)) = d) \<longleftrightarrow>
      join ''.'' (w # v # vs) = d \<or> (\<exists>i < length (v # vs) - 1. join ''.'' (drop i (v # vs)) = d)"
    by (simp add: Ex_less_Suc2 del: join.simps)
  also have "\<dots> \<longleftrightarrow> CHR ''.'' \<in> set d \<and> domain_suffix d (join ''.'' (w # v # vs))"
    using 3 domain_suffix_Cons [of w d "join ''.'' (v # vs)"] by auto
  finally show ?case .
qed simp

lemma find_proxy_iff:
  "find_proxy_for_url keys hit miss host =
    (if \<exists>d \<in> set keys. CHR ''.'' \<in> set d \<and> domain_suffix d (to_lower host) then hit else miss)"
proof -
  let ?ps = "split_on (CHR ''.'') (to_lower host)"
  have "list_ex (\<lambda>i. join ''.'' (drop i ?ps) \<in> set keys) [0..<length ?ps - 1] \<longleftrightarrow>
      (\<exists>d \<in> set keys. \<exists>i < length ?ps - 1. join ''.'' (drop i ?ps) = d)"
    by (auto simp: list_ex_iff Bex_def)
  also have "\<dots> \<longleftrightarrow> (\<exists>d \<in> set keys. CHR ''.'' \<in> set d \<and> domain_suffix d (to_lower host))"
    using label_suffixes [of ?ps] split_on_pieces join_split_on [of "CHR ''.''" "to_lower host"] by auto
  finally show ?thesis by (simp add: find_proxy_for_url_def Let_def)
qed


section \<open>What a browser makes of the script\<close>

text \<open>The script is read as JavaScript text, independently of the generator: a lexer, the members of the
  object literal, and the tokens of a lookup of the host's suffixes, whose meaning is
  \<open>find_proxy_for_url\<close>.  Of the escapes of a string, quotes and backslash are read; any other is refused,
  like a line break in a string.  \<open>None\<close>: not a script of this kind.\<close>

datatype js_token = Word string | Str string | Sym char

datatype js_state = Between | InWord string | InString char string | Escaped char string | Slash | Comment | CommentStar

definition backslash :: char where "backslash = CHR 0x5C"

definition word_char :: "char \<Rightarrow> bool" where
  "word_char c = (let n = of_char c :: nat in
     48 \<le> n \<and> n \<le> 57 \<or> 65 \<le> n \<and> n \<le> 90 \<or> 97 \<le> n \<and> n \<le> 122 \<or> c = CHR ''_'' \<or> c = CHR ''$'')"

definition js_start :: "char \<Rightarrow> js_token list \<times> js_state" where
  "js_start c =
     (if c = CHR '' '' \<or> c = CHR 0x0A then ([], Between)
      else if word_char c then ([], InWord [c])
      else if c = dquote \<or> c = CHR 0x27 then ([], InString c [])
      else if c = CHR ''/'' then ([], Slash) else ([Sym c], Between))"

fun js_step :: "js_state \<Rightarrow> char \<Rightarrow> (js_token list \<times> js_state) option" where
  "js_step Between c = Some (js_start c)"
| "js_step (InWord w) c =
     (if word_char c then Some ([], InWord (c # w)) else Some (map_prod ((#) (Word (rev w))) (\<lambda>st. st) (js_start c)))"
| "js_step (InString q a) c =
     (if c = q then Some ([Str (rev a)], Between) else if c = backslash then Some ([], Escaped q a)
      else if c = CHR 0x0A \<or> c = CHR 0x0D then None else Some ([], InString q (c # a)))"
| "js_step (Escaped q a) c = (if c = dquote \<or> c = CHR 0x27 \<or> c = backslash then Some ([], InString q (c # a)) else None)"
| "js_step Slash c =
     (if c = CHR ''*'' then Some ([], Comment) else if c = CHR ''/'' then None
      else Some (map_prod ((#) (Sym (CHR ''/''))) (\<lambda>st. st) (js_start c)))"
| "js_step Comment c = Some ([], if c = CHR ''*'' then CommentStar else Comment)"
| "js_step CommentStar c = Some ([], if c = CHR ''/'' then Between else if c = CHR ''*'' then CommentStar else Comment)"

fun js_run :: "js_state \<Rightarrow> string \<Rightarrow> (js_token list \<times> js_state) option" where
  "js_run st [] = Some ([], st)"
| "js_run st (c # s) =
     (case js_step st c of None \<Rightarrow> None | Some (ts, st') \<Rightarrow> map_option (map_prod ((@) ts) (\<lambda>st. st)) (js_run st' s))"

definition js_tokens :: "string \<Rightarrow> js_token list option" where
  "js_tokens s = Option.bind (js_run Between (s @ nl)) (\<lambda>(ts, st). if st = Between then Some ts else None)"

fun read_members :: "js_token list \<Rightarrow> (string list \<times> js_token list) option" where
  "read_members (Str k # Sym c # Word n # Sym e # r) =
     (if c = CHR '':'' \<and> n = ''1'' then
        if e = CHR ''}'' then Some ([k], r)
        else if e = CHR '','' then map_option (map_prod ((#) k) (\<lambda>r. r)) (read_members r) else None
      else None)"
| "read_members _ = None"

definition read_object :: "js_token list \<Rightarrow> (string list \<times> js_token list) option" where
  "read_object ts = (case ts of
     Sym b # r \<Rightarrow> if b \<noteq> CHR ''{'' then None
       else (case r of Sym c # r' \<Rightarrow> if c = CHR ''}'' then Some ([], r') else None | _ \<Rightarrow> read_members r)
   | _ \<Rightarrow> None)"

abbreviation syms :: "string \<Rightarrow> js_token list" where
  "syms s \<equiv> map Sym s"

text \<open>\<open>host = host.toLowerCase(); var parts = host.split('.');\<close>, then for every \<open>i\<close> below \<open>parts.length - 1\<close>
  the lookup of \<open>parts.slice(i).join('.')\<close> in the object \<open>v\<close>.\<close>

definition lookup_function :: "string \<Rightarrow> string \<Rightarrow> string \<Rightarrow> js_token list" where
  "lookup_function v hit miss =
     [Word ''function'', Word ''FindProxyForURL''] @ syms ''('' @ [Word ''url''] @ syms '','' @ [Word ''host''] @ syms ''){''
     @ [Word ''host''] @ syms ''='' @ [Word ''host''] @ syms ''.'' @ [Word ''toLowerCase''] @ syms ''();''
     @ [Word ''var'', Word ''parts''] @ syms ''='' @ [Word ''host''] @ syms ''.'' @ [Word ''split''] @ syms ''('' @ [Str ''.''] @ syms '');''
     @ [Word ''for''] @ syms ''('' @ [Word ''var'', Word ''i''] @ syms ''='' @ [Word ''0''] @ syms '';''
     @ [Word ''i''] @ syms ''<'' @ [Word ''parts''] @ syms ''.'' @ [Word ''length''] @ syms ''-'' @ [Word ''1''] @ syms '';''
     @ [Word ''i''] @ syms ''++){''
     @ [Word ''var'', Word ''d''] @ syms ''='' @ [Word ''parts''] @ syms ''.'' @ [Word ''slice''] @ syms ''('' @ [Word ''i''] @ syms '').''
     @ [Word ''join''] @ syms ''('' @ [Str ''.''] @ syms '');''
     @ [Word ''if''] @ syms ''('' @ [Word v] @ syms ''['' @ [Word ''d''] @ syms ''])'' @ [Word ''return'', Str hit] @ syms '';}''
     @ [Word ''return'', Str miss] @ syms '';}''"

definition string_values :: "js_token list \<Rightarrow> string list" where
  "string_values ts = List.map_filter (\<lambda>t. case t of Str s \<Rightarrow> Some s | _ \<Rightarrow> None) ts"

definition read_lookup :: "string \<Rightarrow> js_token list \<Rightarrow> (string \<times> string) option" where
  "read_lookup v ts = (case string_values ts of
     [_, _, hit, miss] \<Rightarrow> if ts = lookup_function v hit miss then Some (hit, miss) else None
   | _ \<Rightarrow> None)"

definition run_pac :: "string \<Rightarrow> string \<Rightarrow> string option" where
  "run_pac script host =
     Option.bind (js_tokens script) (\<lambda>ts. case ts of
       Word w # Word v # Sym e # r \<Rightarrow>
         if w = ''var'' \<and> e = CHR ''='' then
           Option.bind (read_object r) (\<lambda>(keys, r'). case r' of
             Sym c # f \<Rightarrow> if c = CHR '';''
               then map_option (\<lambda>(hit, miss). find_proxy_for_url keys hit miss host) (read_lookup v f) else None
           | _ \<Rightarrow> None)
         else None
     | _ \<Rightarrow> None)"

definition unquote :: "string \<Rightarrow> string" where
  "unquote d = filter (\<lambda>c. c \<noteq> dquote) d"

definition js_safe :: "string \<Rightarrow> bool" where
  "js_safe d = (backslash \<notin> set d \<and> CHR 0x0A \<notin> set d \<and> CHR 0x0D \<notin> set d)"

lemma js_run_append:
  "js_run st (s @ t) = Option.bind (js_run st s) (\<lambda>(ts, st'). map_option (map_prod ((@) ts) (\<lambda>st. st)) (js_run st' t))"
proof (induction s arbitrary: st)
  case Nil
  then show ?case by (cases "js_run st t") auto
next
  case (Cons c s)
  show ?case
  proof (cases "js_step st c")
    case (Some p)
    then show ?thesis using Cons [of "snd p"]
      by (cases p; cases "js_run (snd p) s") (auto simp: option.map_comp comp_def map_prod_def split_beta)
  qed simp
qed

lemma js_run_chain:
  "js_run st s = Some (ts, st') \<Longrightarrow> js_run st' t = r \<Longrightarrow>
   js_run st (s @ t) = map_option (map_prod ((@) ts) (\<lambda>st. st)) r"
  by (simp add: js_run_append)

lemma js_run_string:
  "js_safe s \<Longrightarrow> dquote \<notin> set s \<Longrightarrow> js_run (InString dquote a) s = Some ([], InString dquote (rev s @ a))"
  by (induction s arbitrary: a) (auto simp: js_safe_def)

lemma js_safe_unquote: "js_safe d \<Longrightarrow> js_safe (unquote d) \<and> dquote \<notin> set (unquote d)"
  by (simp add: js_safe_def unquote_def)

definition member_text :: "string \<Rightarrow> string" where
  "member_text d = dquote # unquote d @ dquote # '':1''"

definition member_tokens :: "string \<Rightarrow> js_token list" where
  "member_tokens k = [Str k, Sym (CHR '':'')]"

lemma js_run_member: "js_safe d \<Longrightarrow> js_run Between (member_text d) = Some (member_tokens (unquote d), InWord ''1'')"
proof -
  assume d: "js_safe d"
  have s: "js_run (InString dquote []) (unquote d @ t) = js_run (InString dquote (rev (unquote d))) t" for t
    using js_run_string [of "unquote d" "[]"] js_safe_unquote [OF d]
    by (cases "js_run (InString dquote (rev (unquote d))) t") (auto simp: js_run_append)
  have "js_start dquote = ([], InString dquote [])" by (simp add: js_start_def dquote_def word_char_def)
  then show ?thesis
    by (simp add: member_text_def s [unfolded dquote_def] member_tokens_def js_start_def word_char_def dquote_def)
qed

fun object_tokens :: "string list \<Rightarrow> js_token list" where
  "object_tokens [] = syms ''}''"
| "object_tokens [k] = member_tokens k @ Word ''1'' # syms ''}''"
| "object_tokens (k # ks) = member_tokens k @ Word ''1'' # syms '','' @ object_tokens ks"

lemma js_run_object:
  "\<forall>d \<in> set ds. js_safe d \<Longrightarrow>
   js_run Between (join '','' (map member_text ds) @ ''}'') = Some (object_tokens (map unquote ds), Between)"
proof (induction ds rule: induct_list012)
  case 1
  then show ?case by (simp add: js_start_def word_char_def dquote_def)
next
  case (2 d)
  then show ?case by (simp add: js_run_append js_run_member js_start_def word_char_def dquote_def)
next
  case (3 d e ds)
  have "join '','' (map member_text (d # e # ds)) @ ''}'' = member_text d @ '','' @ (join '','' (map member_text (e # ds)) @ ''}'')"
    by simp
  then show ?case using 3
    by (simp only:) (simp add: js_run_append [of _ "member_text d"] js_run_member js_start_def word_char_def dquote_def)
qed

lemma read_object_tokens: "read_object (Sym (CHR ''{'') # object_tokens ks @ r) = Some (ks, r)"
proof -
  have "ks \<noteq> [] \<Longrightarrow> read_members (object_tokens ks @ r) = Some (ks, r)"
    by (induction ks rule: induct_list012) (simp_all add: member_tokens_def)
  then show ?thesis by (cases ks; cases "tl ks") (simp_all add: read_object_def member_tokens_def)
qed

lemma domains_text: "domains_to_js_object ds = ''{'' @ join '','' (map member_text ds) @ ''}''"
  by (simp add: domains_to_js_object_def member_text_def [abs_def] unquote_def)

section \<open>The server and downloads\<close>

lemma pac_shutdown_stops:
  "connects (wake_addr (ps_addr s)) \<Longrightarrow> ps_thread s \<Longrightarrow> \<not> ps_serving (pac_shutdown connects s)"
  "pac_shutdown connects (pac_shutdown connects s) = pac_shutdown connects s"
  "\<not> unspecified_ip (sa_ip (wake_addr a))"
  by (auto simp: pac_shutdown_def pac_accept_def Let_def wake_addr_def unspecified_ip_def numeral_eq_Suc split: ip_addr.splits)

text \<open>The request head: every read adds at most one buffer, so the loop ends.\<close>

lemma request_head_bounded:
  assumes "\<forall>c \<in> set chunks. length c \<le> 512" "length head \<le> 8703"
  shows "length (fst (read_request_head chunks head)) \<le> 8703
    \<and> snd (read_request_head chunks head) + length head \<le> max (length head) 8192 + 1"
  using assms
proof (induction chunks arbitrary: head)
  case Nil
  then show ?case by (auto simp: read_request_head.simps [of "[]"])
next
  case (Cons c cs)
  show ?case
  proof (cases "length head < 8192 \<and> \<not> head_complete head \<and> c \<noteq> []")
    case True
    then have "length (head @ c) \<le> 8703" "0 < length c" using Cons.prems by auto
    moreover obtain h n where "read_request_head cs (head @ c) = (h, n)" by fastforce
    ultimately show ?thesis
      using True Cons.IH [of "head @ c"] Cons.prems
      by (simp add: read_request_head.simps [of "c # cs"]) (auto simp: max_def Suc_le_eq neq_Nil_conv split: if_splits)
  qed (use Cons.prems in \<open>auto simp: read_request_head.simps [of "c # cs"]\<close>)
qed

lemma download_file_atomic:
  assumes "download_file response fault dest m = (m', r)" "dest \<noteq> with_extension ''tmp'' dest"
  shows "(case r of Inl _ \<Rightarrow> m' dest = m dest | Inr _ \<Rightarrow> (\<exists>body. response = Some body \<and> m' dest = Some (File body)))
    \<and> (\<forall>p. p \<noteq> dest \<and> p \<noteq> with_extension ''tmp'' dest \<longrightarrow> m' p = m p)"
  using assms by (auto simp: download_file_def Let_def split: option.splits io_fault.splits if_splits)

lemma js_run_head:
  "js_run Between (''/* PAC '' @ en_dash @ '' '' @ ''Bypass China'' @ '' (generated by juicity-gui) */'' @ nl @ ''var '' @ ''directDomains'' @ '' = '' @ ''{'')
    = Some ([Word ''var'', Word ''directDomains'', Sym (CHR ''=''), Sym (CHR ''{'')], Between)"
  "js_run Between (''/* PAC '' @ en_dash @ '' '' @ ''GFW List Only'' @ '' (generated by juicity-gui) */'' @ nl @ ''var '' @ ''proxyDomains'' @ '' = '' @ ''{'')
    = Some ([Word ''var'', Word ''proxyDomains'', Sym (CHR ''=''), Sym (CHR ''{'')], Between)"
  by code_simp+

definition lookup_text :: "string \<Rightarrow> string" where
  "lookup_text v =
     '';'' @ nl
     @ ''function FindProxyForURL(url, host) {'' @ nl
     @ ''    host = host.toLowerCase();'' @ nl
     @ ''    var parts = host.split('' @ [CHR 0x27] @ ''.'' @ [CHR 0x27] @ '');'' @ nl
     @ ''    for (var i = 0; i < parts.length - 1; i++) {'' @ nl
     @ ''        var d = parts.slice(i).join('' @ [CHR 0x27] @ ''.'' @ [CHR 0x27] @ '');'' @ nl
     @ ''        if ('' @ v @ ''[d]) return '' @ [dquote]"

definition lookup_front :: "string \<Rightarrow> js_token list" where
  "lookup_front v = Sym (CHR '';'') # takeWhile (\<lambda>t. t \<noteq> Str ''HIT'') (lookup_function v ''HIT'' ''MISS'')"

lemma js_run_lookup:
  "js_run Between (lookup_text ''directDomains'') = Some (lookup_front ''directDomains'', InString dquote [])"
  "js_run Between (lookup_text ''proxyDomains'') = Some (lookup_front ''proxyDomains'', InString dquote [])"
  by code_simp+

lemma js_run_between_answers:
  "js_run (InString dquote a) ([dquote] @ '';'' @ nl @ ''    }'' @ nl @ ''    return '' @ [dquote])
    = Some (Str (rev a) # syms '';}'' @ [Word ''return''], InString dquote [])"
  "js_run (InString dquote a) ([dquote] @ '';'' @ nl @ ''}'' @ nl) = Some (Str (rev a) # syms '';}'', Between)"
  by (simp_all add: js_start_def word_char_def dquote_def nl_def)

lemma lookup_tokens: "lookup_function v hit miss = tl (lookup_front v) @ Str hit # syms '';}'' @ Word ''return'' # Str miss # syms '';}''"
  by (simp add: lookup_front_def lookup_function_def)

lemma read_lookup_function: "read_lookup v (lookup_function v hit miss) = Some (hit, miss)"
  by (simp add: read_lookup_def string_values_def lookup_function_def map_filter_simps)

lemma lookup_front_Cons: "lookup_front v = Sym (CHR '';'') # tl (lookup_front v)"
  by (simp add: lookup_front_def)

definition answer_safe :: "string \<Rightarrow> bool" where
  "answer_safe s = (js_safe s \<and> dquote \<notin> set s)"

lemma pac_script_text:
  "pac_script title v ds hit miss @ nl =
     (''/* PAC '' @ en_dash @ '' '' @ title @ '' (generated by juicity-gui) */'' @ nl @ ''var '' @ v @ '' = '' @ ''{'')
     @ (join '','' (map member_text ds) @ ''}'') @ lookup_text v @ hit
     @ ([dquote] @ '';'' @ nl @ ''    }'' @ nl @ ''    return '' @ [dquote]) @ miss @ ([dquote] @ '';'' @ nl @ ''}'' @ nl)"
  by (simp only: pac_script_def domains_text quoted_def lookup_text_def append_assoc)

lemma run_pac_script:
  assumes head: "js_run Between (''/* PAC '' @ en_dash @ '' '' @ title @ '' (generated by juicity-gui) */'' @ nl @ ''var '' @ v @ '' = '' @ ''{'')
      = Some ([Word ''var'', Word v, Sym (CHR ''=''), Sym (CHR ''{'')], Between)"
    and lookup: "js_run Between (lookup_text v) = Some (lookup_front v, InString dquote [])"
    and safe: "\<forall>d \<in> set ds. js_safe d" "answer_safe hit" "answer_safe miss"
  shows "run_pac (pac_script title v ds hit miss) host = Some (find_proxy_for_url (map unquote ds) hit miss host)"
proof -
  have str: "js_run (InString dquote []) hit = Some ([], InString dquote (rev hit))"
    "js_run (InString dquote []) miss = Some ([], InString dquote (rev miss))"
    using safe(2,3) js_run_string [of _ "[]"] by (simp_all add: answer_safe_def)
  have "js_run Between (pac_script title v ds hit miss @ nl) =
      Some ([Word ''var'', Word v, Sym (CHR ''=''), Sym (CHR ''{'')] @ object_tokens (map unquote ds)
        @ lookup_front v @ Str hit # syms '';}'' @ [Word ''return''] @ Str miss # syms '';}'', Between)"
    unfolding pac_script_text
    by (subst js_run_chain [OF head js_run_chain [OF js_run_object [OF safe(1)] js_run_chain [OF lookup
      js_run_chain [OF str(1) js_run_chain [OF js_run_between_answers(1) js_run_chain [OF str(2) js_run_between_answers(2)]]]]]])
      simp
  moreover have "lookup_front v @ Str hit # syms '';}'' @ [Word ''return''] @ Str miss # syms '';}'' =
      Sym (CHR '';'') # lookup_function v hit miss"
    by (subst lookup_front_Cons) (simp add: lookup_tokens)
  ultimately have "js_tokens (pac_script title v ds hit miss) =
      Some (Word ''var'' # Word v # Sym (CHR ''='') # Sym (CHR ''{'') # object_tokens (map unquote ds)
        @ Sym (CHR '';'') # lookup_function v hit miss)"
    by (simp add: js_tokens_def)
  then show ?thesis by (simp add: run_pac_def read_object_tokens read_lookup_function)
qed

lemma proxy_answer_safe: "answer_safe mixed \<Longrightarrow> answer_safe (proxy_answer mixed)"
  by (simp add: answer_safe_def js_safe_def proxy_answer_def backslash_def dquote_def)

lemma direct_safe: "answer_safe ''DIRECT''"
  by (simp add: answer_safe_def js_safe_def backslash_def dquote_def)

lemma listed_rule:
  assumes "l \<in> set (str_lines content)" "l \<noteq> []" "\<not> starts_with ''#'' l" "domain_of_line l = Some d"
  shows "d \<in> set (parse_domain_list content)"
  using assms by (force simp: parse_domain_list_def List.map_filter_def)

section \<open>Properties\<close>

text \<open>\<^bold>\<open>C33.\<close>  A browser that runs the generated script sends a host directly (bypass mode) or through the
  proxy (list mode) exactly when the host in lower case is one of the rules, quotes removed, or a
  subdomain of one, and the rule has a dot; so a rule that is a single label, such as a top-level domain,
  never applies.  This holds for rules without backslashes and line breaks and a local address without
  these and quotes.  A line of a rule file with the prefix \<open>full:\<close>, documented as an exact match, is listed
  without it like one with the prefix \<open>domain:\<close>, so it covers subdomains too.\<close>

theorem pac_decision_by_suffix:
  assumes "\<forall>d \<in> set (case mode of BypassChina \<Rightarrow> direct | ProxyGfw \<Rightarrow> proxy). js_safe d" "answer_safe mixed"
  shows "run_pac (generate_pac mode mixed direct proxy) host = Some
     (case mode of
        BypassChina \<Rightarrow>
          if \<exists>d \<in> set direct. CHR ''.'' \<in> set (unquote d) \<and> domain_suffix (unquote d) (to_lower host) then ''DIRECT'' else proxy_answer mixed
      | ProxyGfw \<Rightarrow>
          if \<exists>d \<in> set proxy. CHR ''.'' \<in> set (unquote d) \<and> domain_suffix (unquote d) (to_lower host) then proxy_answer mixed else ''DIRECT'')
    \<and> (''full:'' @ d \<in> set (str_lines content) \<or> ''domain:'' @ d \<in> set (str_lines content) \<longrightarrow> d \<in> set (parse_domain_list content))"
proof (rule conjI)
  note script = run_pac_script [OF js_run_head(1) js_run_lookup(1)] run_pac_script [OF js_run_head(2) js_run_lookup(2)]
  show "run_pac (generate_pac mode mixed direct proxy) host = Some
     (case mode of
        BypassChina \<Rightarrow>
          if \<exists>d \<in> set direct. CHR ''.'' \<in> set (unquote d) \<and> domain_suffix (unquote d) (to_lower host) then ''DIRECT'' else proxy_answer mixed
      | ProxyGfw \<Rightarrow>
          if \<exists>d \<in> set proxy. CHR ''.'' \<in> set (unquote d) \<and> domain_suffix (unquote d) (to_lower host) then proxy_answer mixed else ''DIRECT'')"
    using assms proxy_answer_safe [OF assms(2)] direct_safe
    by (cases mode) (simp_all only: generate_pac_def generate_bypass_china_pac_def generate_proxy_gfw_pac_def pac_rule_mode.case
      script find_proxy_iff set_map bex_simps)
  show "''full:'' @ d \<in> set (str_lines content) \<or> ''domain:'' @ d \<in> set (str_lines content) \<longrightarrow> d \<in> set (parse_domain_list content)"
    using listed_rule [of "''full:'' @ d" content d] listed_rule [of "''domain:'' @ d" content d]
    by (auto simp: domain_of_line_def starts_with_def strip_prefix_def)
qed

theorem pac_decision_by_suffix_witness:
  "run_pac (generate_pac BypassChina ''127.0.0.1:1080'' [''baidu.com''] []) ''www.Baidu.com'' = Some ''DIRECT''"
proof -
  have "domain_suffix ''baidu.com'' ''www.baidu.com''"
    unfolding domain_suffix_def by (intro disjI2 exI [of _ "''www''"]) simp
  moreover have "to_lower ''www.Baidu.com'' = ''www.baidu.com''" by code_simp
  moreover have "unquote ''baidu.com'' = ''baidu.com''" by (simp add: unquote_def dquote_def)
  ultimately show ?thesis
    using pac_decision_by_suffix [where mode = BypassChina and direct = "[''baidu.com'']" and proxy = "[]"
        and mixed = "''127.0.0.1:1080''" and host = "''www.Baidu.com''"]
    by (simp add: js_safe_def answer_safe_def backslash_def dquote_def)
qed

text \<open>A rule that ends in a backslash escapes the closing quote: the script is not readable any more, and
  the whole file is useless to a browser.\<close>

lemma backslash_breaks_script:
  assumes "js_safe d"
  shows "run_pac (generate_pac BypassChina mixed [d @ [backslash]] proxy) host = None"
proof -
  have u: "unquote (d @ [backslash]) = unquote d @ [backslash]" by (simp add: unquote_def backslash_def dquote_def)
  have s: "js_run (InString dquote []) (unquote d) = Some ([], InString dquote (rev (unquote d)))"
    using js_run_string [of "unquote d" "[]"] js_safe_unquote [OF assms] by simp
  have q: "js_run Between [dquote] = Some ([], InString dquote [])"
    by (simp add: js_start_def dquote_def word_char_def)
  have e: "js_run (InString dquote a) ((backslash # dquote # '':1};'' @ [CHR 0x0A]) @ r) = None" for a r
    by (simp add: backslash_def dquote_def)
  have t: "generate_pac BypassChina mixed [d @ [backslash]] proxy @ nl =
      (''/* PAC '' @ en_dash @ '' '' @ ''Bypass China'' @ '' (generated by juicity-gui) */'' @ nl @ ''var '' @ ''directDomains'' @ '' = '' @ ''{'')
      @ [dquote] @ unquote d @ (backslash # dquote # '':1};'' @ [CHR 0x0A])
      @ drop 2 (lookup_text ''directDomains'') @ ''DIRECT''
      @ ([dquote] @ '';'' @ nl @ ''    }'' @ nl @ ''    return '' @ [dquote]) @ proxy_answer mixed @ ([dquote] @ '';'' @ nl @ ''}'' @ nl)"
    unfolding generate_pac_def generate_bypass_china_pac_def pac_rule_mode.case pac_script_text
    by (simp add: member_text_def u lookup_text_def nl_def)
  have "js_run Between (generate_pac BypassChina mixed [d @ [backslash]] proxy @ nl) = None"
    unfolding t
    by (subst js_run_chain [OF js_run_head(1) js_run_chain [OF q js_run_chain [OF s e]]]) simp
  then show ?thesis by (simp add: run_pac_def js_tokens_def)
qed

end
