(* ===== verification/Gui_System_Proxy.thy ===== *)
theory Gui_System_Proxy
  imports Gui_Pac
begin

text \<open>
  The system proxy, \<open>gui/src/system_proxy.rs\<close>: what is configured on Linux desktops, on macOS and on
  Windows for each proxy mode.

  Running a program is a parameter: \<open>run\<close> gives the outcome of a command and may depend on the
  commands run before it; the model returns the commands in order.  On Windows the registry is a
  state \<open>'r\<close> with the operations of the \<open>reg\<close> tool.
\<close>

section \<open>Commands\<close>

type_synonym cmd = "string \<times> string list"

datatype run_outcome = NotInstalled | RunFailed | ExitedWith bool

type_synonym runner = "cmd list \<Rightarrow> cmd \<Rightarrow> run_outcome"

datatype proxy_error = CommandFailed cmd | NoServices | ListFailed | BackendMissing | BackendFailed cmd

definition run_if_available :: "runner \<Rightarrow> cmd list \<Rightarrow> cmd \<Rightarrow> cmd list \<times> (proxy_error + bool)" where
  "run_if_available run tr c =
     (tr @ [c],
      (case run tr c of
         NotInstalled \<Rightarrow> Inr False
       | RunFailed \<Rightarrow> Inl (CommandFailed c)
       | ExitedWith ok \<Rightarrow> if ok then Inr True else Inl (CommandFailed c)))"

definition run_required :: "runner \<Rightarrow> cmd list \<Rightarrow> cmd \<Rightarrow> cmd list \<times> (proxy_error + unit)" where
  "run_required run tr c =
     (tr @ [c], if run tr c = ExitedWith True then Inr () else Inl (CommandFailed c))"

text \<open>\<open>ok |= step(c)?\<close> for a list of commands.\<close>

fun run_each :: "(cmd list \<Rightarrow> 'c \<Rightarrow> cmd list \<times> (proxy_error + bool)) \<Rightarrow> 'c list \<Rightarrow> cmd list \<Rightarrow> bool \<Rightarrow>
    cmd list \<times> (proxy_error + bool)" where
  "run_each step [] tr ok = (tr, Inr ok)"
| "run_each step (c # cs) tr ok =
     (case step tr c of
        (tr', Inl e) \<Rightarrow> (tr', Inl e)
      | (tr', Inr b) \<Rightarrow> run_each step cs tr' (ok \<or> b))"

section \<open>Linux\<close>

definition gsettings :: "string \<Rightarrow> string \<Rightarrow> string \<Rightarrow> cmd" where
  "gsettings schema key v = (''gsettings'', [''set'', schema, key, v])"

definition gnome_commands :: "system_proxy_mode \<Rightarrow> string \<Rightarrow> string \<Rightarrow> cmd list" where
  "gnome_commands mode url listen =
     (let base = ''org.gnome.system.proxy'' in
      case mode of
        ProxyDisable \<Rightarrow> [gsettings base ''mode'' ''none'']
      | ProxyPac \<Rightarrow> [gsettings base ''mode'' ''auto'', gsettings base ''autoconfig-url'' url]
      | ProxyGlobal \<Rightarrow>
          (case split_host_port listen of (host, port) \<Rightarrow>
             [gsettings base ''mode'' ''manual'', gsettings base ''use-same-proxy'' ''true'']
             @ concat (map (\<lambda>kind. [gsettings (base @ kind) ''host'' host, gsettings (base @ kind) ''port'' (dec_str (unat port))])
                 [''.http'', ''.https'', ''.socks''])))"

definition apply_linux_gnome :: "runner \<Rightarrow> system_proxy_mode \<Rightarrow> string \<Rightarrow> string \<Rightarrow> cmd list \<Rightarrow> cmd list \<times> (proxy_error + bool)" where
  "apply_linux_gnome run mode url listen tr = run_each (run_if_available run) (gnome_commands mode url listen) tr False"

definition kwriteconfig :: "runner \<Rightarrow> cmd list \<Rightarrow> string list \<Rightarrow> cmd list \<times> (proxy_error + bool)" where
  "kwriteconfig run tr args =
     (case run_if_available run tr (''kwriteconfig6'', args) of
        (tr', Inl e) \<Rightarrow> (tr', Inl e)
      | (tr', Inr True) \<Rightarrow> (tr', Inr True)
      | (tr', Inr False) \<Rightarrow> run_if_available run tr' (''kwriteconfig5'', args))"

definition kio_setting :: "string \<Rightarrow> string \<Rightarrow> string list" where
  "kio_setting key v = [''--file'', ''kioslaverc'', ''--group'', ''Proxy Settings'', ''--key'', key, v]"

definition kde_settings :: "system_proxy_mode \<Rightarrow> string \<Rightarrow> string \<Rightarrow> string list list" where
  "kde_settings mode url listen =
     (case mode of
        ProxyDisable \<Rightarrow> [kio_setting ''ProxyType'' ''0'']
      | ProxyPac \<Rightarrow> [kio_setting ''ProxyType'' ''2'', kio_setting ''Proxy Config Script'' url]
      | ProxyGlobal \<Rightarrow>
          (case split_host_port listen of (h, port) \<Rightarrow>
             let host = (if contains_char (CHR '':'') h then ''['' @ h @ '']'' else h);
                 at = host @ '' '' @ dec_str (unat port)
             in [kio_setting ''ProxyType'' ''1'', kio_setting ''httpProxy'' (''http://'' @ at),
                 kio_setting ''httpsProxy'' (''http://'' @ at), kio_setting ''socksProxy'' (''socks://'' @ at)]))"

definition kio_reparse :: "string list" where
  "kio_reparse = [''org.kde.KIO'', ''/KIO/Scheduler'', ''reparseSlaveConfiguration'']"

definition apply_linux_kde :: "runner \<Rightarrow> system_proxy_mode \<Rightarrow> string \<Rightarrow> string \<Rightarrow> cmd list \<Rightarrow> cmd list \<times> (proxy_error + bool)" where
  "apply_linux_kde run mode url listen tr =
     (case run_each (kwriteconfig run) (kde_settings mode url listen) tr False of
        (tr1, Inl e) \<Rightarrow> (tr1, Inl e)
      | (tr1, Inr ok) \<Rightarrow>
          (case run_if_available run tr1 (''qdbus6'', kio_reparse) of
             (tr2, Inr True) \<Rightarrow> (tr2, Inr ok)
           | (tr2, _) \<Rightarrow> (fst (run_if_available run tr2 (''qdbus'', kio_reparse)), Inr ok)))"

definition backend_result :: "proxy_error + bool \<Rightarrow> proxy_error + unit" where
  "backend_result r = (case r of
     Inl (CommandFailed c) \<Rightarrow> Inl (BackendFailed c) | Inl e \<Rightarrow> Inl e
   | Inr True \<Rightarrow> Inr () | Inr False \<Rightarrow> Inl BackendMissing)"

definition apply_linux :: "runner \<Rightarrow> string \<Rightarrow> system_proxy_mode \<Rightarrow> string \<Rightarrow> string \<Rightarrow> cmd list \<times> (proxy_error + unit)" where
  "apply_linux run desktop mode url listen =
     (let d = to_lower desktop in
      if find_sub ''gnome'' d \<noteq> None then map_prod id backend_result (apply_linux_gnome run mode url listen [])
      else if find_sub ''kde'' d \<noteq> None then map_prod id backend_result (apply_linux_kde run mode url listen [])
      else
        (case apply_linux_gnome run mode url listen [] of (tr1, gnome) \<Rightarrow>
         (case apply_linux_kde run mode url listen tr1 of (tr2, kde) \<Rightarrow>
            (tr2, if gnome = Inr True \<or> kde = Inr True then Inr () else Inl BackendMissing))))"

section \<open>macOS\<close>

definition mac_commands :: "system_proxy_mode \<Rightarrow> string \<Rightarrow> string \<Rightarrow> string \<Rightarrow> cmd list" where
  "mac_commands mode url listen service =
     (let ns = (\<lambda>args. (''networksetup'', args));
          states = [''-setwebproxystate'', ''-setsecurewebproxystate'', ''-setsocksfirewallproxystate'']
      in case mode of
        ProxyDisable \<Rightarrow> map (\<lambda>f. ns [f, service, ''off'']) states @ [ns [''-setautoproxystate'', service, ''off'']]
      | ProxyPac \<Rightarrow> [ns [''-setautoproxyurl'', service, url], ns [''-setautoproxystate'', service, ''on'']]
          @ map (\<lambda>f. ns [f, service, ''off'']) states
      | ProxyGlobal \<Rightarrow>
          (case split_host_port listen of (host, port) \<Rightarrow>
             map (\<lambda>f. ns [f, service, host, dec_str (unat port)])
               [''-setwebproxy'', ''-setsecurewebproxy'', ''-setsocksfirewallproxy'']
             @ map (\<lambda>f. ns [f, service, ''on'']) states @ [ns [''-setautoproxystate'', service, ''off'']]))"

definition mac_services :: "string \<Rightarrow> string list" where
  "mac_services stdout = filter (\<lambda>l. l \<noteq> [] \<and> \<not> starts_with ''*'' l) (map trim (drop 1 (str_lines stdout)))"

text \<open>\<open>output\<close>: the standard output of the listing command, when it ran and succeeded.\<close>

definition list_macos_network_services :: "bytes option \<Rightarrow> proxy_error + string list" where
  "list_macos_network_services output = ok_or ListFailed (map_option (\<lambda>b. mac_services (lossy_string b)) output)"

fun run_all_required :: "runner \<Rightarrow> cmd list \<Rightarrow> cmd list \<Rightarrow> cmd list \<times> (proxy_error + unit)" where
  "run_all_required run [] tr = (tr, Inr ())"
| "run_all_required run (c # cs) tr =
     (case run_required run tr c of
        (tr', Inl e) \<Rightarrow> (tr', Inl e)
      | (tr', Inr _) \<Rightarrow> run_all_required run cs tr')"

definition apply_macos :: "runner \<Rightarrow> bytes option \<Rightarrow> system_proxy_mode \<Rightarrow> string \<Rightarrow> string \<Rightarrow> cmd list \<times> (proxy_error + unit)" where
  "apply_macos run output mode url listen =
     (case list_macos_network_services output of
        Inl e \<Rightarrow> ([], Inl e)
      | Inr services \<Rightarrow> if services = [] then ([], Inl NoServices)
          else run_all_required run (concat (map (mac_commands mode url listen) services)) [])"

section \<open>Windows\<close>

text \<open>The \<open>reg\<close> tool on the key of the Internet settings: adding a value may fail, deleting is best
  effort, and a query gives the standard output when the tool could be run.\<close>

record 'r reg_tool =
  rt_add :: "string \<Rightarrow> string \<Rightarrow> string \<Rightarrow> 'r \<Rightarrow> 'r \<times> bool"
  rt_delete :: "string \<Rightarrow> 'r \<Rightarrow> 'r"
  rt_query :: "string \<Rightarrow> 'r \<Rightarrow> bytes option"

definition windows_bypass :: string where
  "windows_bypass = join '';'' ([''localhost'', ''127.*'', ''10.*'']
     @ map (\<lambda>n. ''172.'' @ dec_str n @ ''.*'') [16..<32] @ [''192.168.*'', ''<local>''])"

definition reg_add :: "'r reg_tool \<Rightarrow> string \<Rightarrow> string \<Rightarrow> string \<Rightarrow> 'r \<Rightarrow> 'r \<times> (proxy_error + unit)" where
  "reg_add t name kind data r =
     (case rt_add t name kind data r of (r', ok) \<Rightarrow>
        (r', if ok then Inr () else Inl (CommandFailed (''reg'', [''add'', name, kind, data]))))"

definition reg_delete :: "'r reg_tool \<Rightarrow> string \<Rightarrow> 'r \<Rightarrow> 'r" where
  "reg_delete t name r = rt_delete t name r"

definition parse_reg_sz :: "string \<Rightarrow> string \<Rightarrow> string option" where
  "parse_reg_sz output name =
     find_map (\<lambda>line. Option.bind (strip_prefix name (trim_start line)) (\<lambda>rest.
        map_option trim (strip_prefix ''REG_SZ'' (trim_start rest)))) (str_lines output)"

definition reg_query :: "'r reg_tool \<Rightarrow> string \<Rightarrow> 'r \<Rightarrow> string option" where
  "reg_query t name r = Option.bind (rt_query t name r) (\<lambda>out. parse_reg_sz (lossy_string out) name)"

definition delete_if :: "'r reg_tool \<Rightarrow> string \<Rightarrow> string \<Rightarrow> 'r \<Rightarrow> 'r" where
  "delete_if t name v r = (if reg_query t name r = Some v then reg_delete t name r else r)"

definition try_next :: "'r \<times> (proxy_error + unit) \<Rightarrow> ('r \<Rightarrow> 'r \<times> (proxy_error + unit)) \<Rightarrow> 'r \<times> (proxy_error + unit)" where
  "try_next x f = (case x of (r, Inl e) \<Rightarrow> (r, Inl e) | (r, Inr _) \<Rightarrow> f r)"

definition apply_windows :: "'r reg_tool \<Rightarrow> system_proxy_mode \<Rightarrow> string \<Rightarrow> string \<Rightarrow> 'r \<Rightarrow> 'r \<times> (proxy_error + unit)" where
  "apply_windows t mode url listen r =
     (case mode of
        ProxyDisable \<Rightarrow>
          try_next (reg_add t ''ProxyEnable'' ''REG_DWORD'' ''0'' r) (\<lambda>r.
            (delete_if t ''ProxyOverride'' windows_bypass
              (delete_if t ''ProxyServer'' listen (reg_delete t ''AutoConfigURL'' r)), Inr ()))
      | ProxyPac \<Rightarrow>
          try_next (reg_add t ''ProxyEnable'' ''REG_DWORD'' ''0'' r) (reg_add t ''AutoConfigURL'' ''REG_SZ'' url)
      | ProxyGlobal \<Rightarrow>
          try_next (reg_add t ''ProxyEnable'' ''REG_DWORD'' ''1'' r) (\<lambda>r.
          try_next (reg_add t ''ProxyServer'' ''REG_SZ'' listen r) (\<lambda>r.
          try_next (reg_add t ''ProxyOverride'' ''REG_SZ'' windows_bypass r) (\<lambda>r.
            (reg_delete t ''AutoConfigURL'' r, Inr ())))))"

section \<open>Every system\<close>

definition effective_pac_url :: "app_config \<Rightarrow> string" where
  "effective_pac_url cfg = (case ac_pac_mode cfg of
     PacOnline \<Rightarrow> (case ac_online_pac_url cfg of Some u \<Rightarrow> u | None \<Rightarrow> pac_url (ac_pac_listen cfg))
   | PacLocal \<Rightarrow> pac_url (ac_pac_listen cfg))"

definition apply_system_proxy_linux :: "runner \<Rightarrow> string \<Rightarrow> app_config \<Rightarrow> cmd list \<times> (proxy_error + unit)" where
  "apply_system_proxy_linux run desktop cfg =
     apply_linux run desktop (ac_system_proxy_mode cfg) (effective_pac_url cfg) (ac_mixed_listen cfg)"

definition apply_system_proxy_macos :: "runner \<Rightarrow> bytes option \<Rightarrow> app_config \<Rightarrow> cmd list \<times> (proxy_error + unit)" where
  "apply_system_proxy_macos run output cfg =
     apply_macos run output (ac_system_proxy_mode cfg) (effective_pac_url cfg) (ac_mixed_listen cfg)"

definition apply_system_proxy_windows :: "'r reg_tool \<Rightarrow> app_config \<Rightarrow> 'r \<Rightarrow> 'r \<times> (proxy_error + unit)" where
  "apply_system_proxy_windows t cfg r =
     apply_windows t (ac_system_proxy_mode cfg) (effective_pac_url cfg) (ac_mixed_listen cfg) r"

section \<open>Lemmas\<close>

text \<open>The documented text of a query: an empty line, the key, and the value.\<close>

definition reg_output :: "string \<Rightarrow> string \<Rightarrow> string" where
  "reg_output name data = [CHR 0x0D, CHR 0x0A] @ ''HKEY_CURRENT_USER'' @ [CHR 0x0D, CHR 0x0A]
     @ ''    '' @ name @ ''    REG_SZ    '' @ data @ [CHR 0x0D, CHR 0x0A, CHR 0x0D, CHR 0x0A]"

lemma split_inclusive_line: "CHR 0x0A \<notin> set a \<Longrightarrow> split_inclusive acc (a @ CHR 0x0A # b) = (rev acc @ a @ [CHR 0x0A]) # split_inclusive [] b"
  by (induction a arbitrary: acc) auto

lemma str_lines_crlf: "CHR 0x0A \<notin> set a \<Longrightarrow> str_lines (a @ CHR 0x0D # CHR 0x0A # b) = a # str_lines b"
  using split_inclusive_line [of "a @ [CHR 0x0D]" "[]" b] by (simp add: str_lines_def strip_eol_def)

lemma drop_ws_visible_start:
  assumes "visible_char c"
  shows "drop_ws white_space (c # s) = c # s"
proof -
  have "\<not> starts_with w (c # s)" if w: "w \<in> set white_space" for w
  proof -
    obtain x v where "w = x # v" using w white_space_nonempty by (metis neq_Nil_conv)
    moreover from this have "x \<noteq> c" using w white_space_invisible assms by force
    ultimately show ?thesis by (simp add: starts_with_def)
  qed
  then have "ws_len white_space (c # s) = 0" by (simp add: ws_len_0)
  then show ?thesis by (simp add: drop_ws.simps)
qed

lemma drop_ws_space: "drop_ws white_space (CHR '' '' # s) = drop_ws white_space s"
proof -
  have "ws_len white_space (CHR '' '' # s) = 1" by (simp add: ws_eval)
  then show ?thesis by (simp add: drop_ws.simps [of _ "CHR '' '' # s"])
qed

lemma trim_start_spaces: "visible s \<Longrightarrow> s \<noteq> [] \<Longrightarrow> drop_ws white_space (''    '' @ s @ r) = s @ r"
  by (cases s) (simp_all add: drop_ws_space drop_ws_visible_start visible_Cons)

lemma trim_spaces: "visible s \<Longrightarrow> s \<noteq> [] \<Longrightarrow> trim (''    '' @ s) = s"
  using trim_start_spaces [of s "[]"] trim_visible [of s] drop_ws_visible [OF white_space_invisible, of s]
  by (simp add: trim_def trim_start_def)

lemma visible_no_lf: "visible s \<Longrightarrow> CHR 0x0A \<notin> set s"
  by (auto simp: visible_def visible_char_bits of_char_def)

lemma parse_reg_output:
  assumes "visible name" "visible data" "name \<noteq> []" "data \<noteq> []" "\<not> starts_with name ''HKEY_CURRENT_USER''"
  shows "parse_reg_sz (reg_output name data) name = Some data"
proof -
  let ?v = "''    '' @ name @ ''    REG_SZ    '' @ data"
  have lines: "str_lines (reg_output name data) = [[], ''HKEY_CURRENT_USER'', ?v, []]"
  proof -
    have "str_lines ([] @ CHR 0x0D # CHR 0x0A # ''HKEY_CURRENT_USER'' @ CHR 0x0D # CHR 0x0A # (?v @ CHR 0x0D # CHR 0x0A # ([] @ CHR 0x0D # CHR 0x0A # []))) =
        [[], ''HKEY_CURRENT_USER'', ?v, []]"
      using visible_no_lf [OF assms(1)] visible_no_lf [OF assms(2)]
      by (subst str_lines_crlf, simp)+ (simp add: str_lines_def)
    then show ?thesis by (simp add: reg_output_def)
  qed
  have h: "strip_prefix name (trim_start []) = None" "strip_prefix name (trim_start ''HKEY_CURRENT_USER'') = None"
    using assms(3,5) drop_ws_visible_start [of "CHR ''H''"]
    by (simp_all add: trim_start_def strip_prefix_def starts_with_def drop_ws.simps [of _ "[]"] visible_char_bits of_char_def)
  have "trim_start ?v = name @ ''    REG_SZ    '' @ data" unfolding trim_start_def by (rule trim_start_spaces [OF assms(1,3)])
  moreover have "trim_start (''    REG_SZ    '' @ data) = ''REG_SZ'' @ (''    '' @ data)"
    using trim_start_spaces [of "''REG_SZ''" "''    '' @ data"] by (simp add: trim_start_def visible_text)
  ultimately show ?thesis
    using lines h trim_spaces [OF assms(2,4)] by (simp add: parse_reg_sz_def strip_prefix_def starts_with_def)
qed


text \<open>What the tool is documented to do, for the values \<open>val\<close> of the key: adding and deleting change
  one value, and a query of a text value prints it, when it is plain text.\<close>

definition reg_ok :: "'r reg_tool \<Rightarrow> ('r \<Rightarrow> string \<Rightarrow> (string \<times> string) option) \<Rightarrow> bool" where
  "reg_ok t val =
     ((\<forall>n k v r. snd (rt_add t n k v r) \<and> val (fst (rt_add t n k v r)) = (val r)(n \<mapsto> (k, v)))
      \<and> (\<forall>n r. val (rt_delete t n r) = (val r)(n := None))
      \<and> (\<forall>n v r. val r n = Some (''REG_SZ'', v) \<and> visible n \<and> visible v \<longrightarrow> map_option lossy_string (rt_query t n r) = Some (reg_output n v)))"

lemma reg_simps:
  assumes "reg_ok t val"
  shows "reg_add t n k v r = (fst (rt_add t n k v r), Inr ())" "val (fst (rt_add t n k v r)) = (val r)(n \<mapsto> (k, v))"
    "val (reg_delete t n r) = (val r)(n := None)"
  using assms by (simp_all add: reg_ok_def reg_add_def reg_delete_def case_prod_beta)

lemma reg_query_value:
  assumes "reg_ok t val" "val r n = Some (''REG_SZ'', v)" "visible n" "visible v" "n \<noteq> []" "v \<noteq> []"
    and "\<not> starts_with n ''HKEY_CURRENT_USER''"
  shows "reg_query t n r = Some v"
proof -
  have "map_option lossy_string (rt_query t n r) = Some (reg_output n v)" using assms(1-4) by (simp add: reg_ok_def)
  then show ?thesis using parse_reg_output [OF assms(3,4,5,6,7)] by (auto simp: reg_query_def)
qed

lemma delete_if_value:
  assumes "reg_ok t val" "val r n = Some (''REG_SZ'', v)" "visible v" "v \<noteq> []" "n \<in> {''ProxyServer'', ''ProxyOverride''}"
  shows "val (delete_if t n w r) = (if v = w then (val r)(n := None) else val r)"
proof -
  have "reg_query t n r = Some v"
    using assms(5) by (intro reg_query_value [OF assms(1,2) _ assms(3)]) (auto simp: visible_text starts_with_def assms(4))
  then show ?thesis using reg_simps(3) [OF assms(1)] by (simp add: delete_if_def)
qed

lemma visible_bypass: "visible windows_bypass" "windows_bypass \<noteq> []"
proof -
  have "\<forall>x \<in> set ([''localhost'', ''127.*'', ''10.*''] @ map (\<lambda>n. ''172.'' @ dec_str n @ ''.*'') [16..<32] @ [''192.168.*'', ''<local>'']). visible x"
    by (auto simp: visible_text)
  then show "visible windows_bypass" unfolding windows_bypass_def by (intro visible_join) (simp_all add: visible_text)
  show "windows_bypass \<noteq> []" by (simp add: windows_bypass_def)
qed

section \<open>Properties\<close>

text \<open>Switching the Windows proxy on and off again leaves nothing behind: after the global
  mode and then the disabled mode the proxy is off and the three values that the application
  writes are gone, every other value is as before; and disabling leaves a proxy server that is
  not the application's own in place.\<close>

lemma windows_disable_cleans:
  assumes "reg_ok t val" "visible listen" "listen \<noteq> []"
    and "apply_windows t ProxyGlobal url listen r = (r1, res1)" "apply_windows t ProxyDisable url listen r1 = (r2, res2)"
  shows "res1 = Inr () \<and> res2 = Inr ()
    \<and> val r2 = (val r)(''ProxyEnable'' \<mapsto> (''REG_DWORD'', ''0''), ''AutoConfigURL'' := None, ''ProxyServer'' := None, ''ProxyOverride'' := None)
    \<and> (\<forall>r0 v. val r0 ''ProxyServer'' = Some (''REG_SZ'', v) \<and> visible v \<and> v \<noteq> [] \<and> v \<noteq> listen \<longrightarrow>
        val (fst (apply_windows t ProxyDisable url listen r0)) ''ProxyServer'' = Some (''REG_SZ'', v))"
proof -
  note reg = reg_simps [OF assms(1)]
  note windows = apply_windows_def try_next_def reg(1)
  have r1: "res1 = Inr ()" "val r1 = (val r)(''ProxyEnable'' \<mapsto> (''REG_DWORD'', ''1''), ''ProxyServer'' \<mapsto> (''REG_SZ'', listen),
      ''ProxyOverride'' \<mapsto> (''REG_SZ'', windows_bypass), ''AutoConfigURL'' := None)"
    using assms(4) reg(2,3) by (auto simp: windows)
  define r1a where "r1a = reg_delete t ''AutoConfigURL'' (fst (rt_add t ''ProxyEnable'' ''REG_DWORD'' ''0'' r1))"
  define r1b where "r1b = delete_if t ''ProxyServer'' listen r1a"
  have a: "val r1a = (val r1)(''ProxyEnable'' \<mapsto> (''REG_DWORD'', ''0''), ''AutoConfigURL'' := None)"
    using reg(2,3) by (simp add: r1a_def)
  have b: "val r1b = (val r1a)(''ProxyServer'' := None)"
    using delete_if_value [OF assms(1) _ assms(2,3), of r1a "''ProxyServer''" listen] by (simp add: r1b_def a r1(2))
  have r2: "r2 = delete_if t ''ProxyOverride'' windows_bypass r1b" "res2 = Inr ()"
    using assms(5) by (simp_all add: windows r1a_def r1b_def)
  have c: "val r2 = (val r1b)(''ProxyOverride'' := None)"
    using delete_if_value [OF assms(1) _ visible_bypass, of r1b "''ProxyOverride''" windows_bypass] by (simp add: r2(1) b a r1(2))
  have "val (fst (apply_windows t ProxyDisable url listen r0)) ''ProxyServer'' = Some (''REG_SZ'', v)"
    if v: "val r0 ''ProxyServer'' = Some (''REG_SZ'', v)" "visible v" "v \<noteq> []" "v \<noteq> listen" for r0 v
  proof -
    let ?q = "reg_delete t ''AutoConfigURL'' (fst (rt_add t ''ProxyEnable'' ''REG_DWORD'' ''0'' r0))"
    have "val ?q ''ProxyServer'' = Some (''REG_SZ'', v)" using reg(2,3) v(1) by simp
    then have "val (delete_if t ''ProxyServer'' listen ?q) ''ProxyServer'' = Some (''REG_SZ'', v)"
      using delete_if_value [OF assms(1) _ v(2,3), of ?q "''ProxyServer''" listen] v(4) by simp
    then show ?thesis using reg(3) by (simp add: windows delete_if_def)
  qed
  then show ?thesis using r1(1) r2(2) c b a r1(2) by (simp add: fun_upd_twist)
qed


definition demo_reg :: "(string \<rightharpoonup> string \<times> string) reg_tool" where
  "demo_reg = \<lparr>rt_add = (\<lambda>n k v r. (r(n \<mapsto> (k, v)), True)), rt_delete = (\<lambda>n r. r(n := None)),
     rt_query = (\<lambda>n r. map_option (\<lambda>kv. str_bytes (reg_output n (snd kv))) (r n))\<rparr>"

lemma demo_reg_ok: "reg_ok demo_reg id"
proof -
  have "lossy_string (str_bytes (reg_output n v)) = reg_output n v" if "visible n" "visible v" for n v
    using that by (intro lossy_string_rust_str rust_str_ascii) (fastforce simp: reg_output_def visible_def visible_char_def)
  then show ?thesis by (simp add: reg_ok_def demo_reg_def)
qed

lemma windows_disable_cleans_witness:
  "fst (apply_windows demo_reg ProxyDisable [] ''p:1'' (fst (apply_windows demo_reg ProxyGlobal [] ''p:1'' Map.empty))) =
    [''ProxyEnable'' \<mapsto> (''REG_DWORD'', ''0'')]"
  using windows_disable_cleans [OF demo_reg_ok, of "''p:1''" "[]" Map.empty
      "fst (apply_windows demo_reg ProxyGlobal [] ''p:1'' Map.empty)" "snd (apply_windows demo_reg ProxyGlobal [] ''p:1'' Map.empty)"
      "fst (apply_windows demo_reg ProxyDisable [] ''p:1'' (fst (apply_windows demo_reg ProxyGlobal [] ''p:1'' Map.empty)))"
      "snd (apply_windows demo_reg ProxyDisable [] ''p:1'' (fst (apply_windows demo_reg ProxyGlobal [] ''p:1'' Map.empty)))"]
  by (simp add: visible_text)

end
