(* ===== verification/Gui_Traffic.thy ===== *)
theory Gui_Traffic
  imports Prelude Complex_Main
begin

text \<open>
  Traffic sampling, \<open>gui/src/traffic.rs\<close>: cumulative byte counters become speeds and totals.

  Instants and durations are nanoseconds.  The mutex makes each operation atomic; the version is
  bumped after it is released, so the model's operation is the critical section with its bump.
  Speeds are exact rationals where the source rounds to \<open>f64\<close>.  The addition to \<open>pending\<close> wraps,
  as it does in a release build; the totals saturate.
\<close>

definition history_limit :: nat where "history_limit = 60"

definition sample_interval :: nat where "sample_interval = 1000 * 10 ^ 6"

record speed =
  sp_up :: rat
  sp_down :: rat

definition speed_default :: speed where "speed_default = \<lparr>sp_up = 0, sp_down = 0\<rparr>"

record traffic_data =
  td_samples :: "speed list"
  td_total_up :: u64
  td_total_down :: u64
  td_previous :: "(u64 \<times> u64) option"
  td_pending :: "u64 \<times> u64"
  td_last_sample :: "nat option"
  td_current :: speed
  td_active :: bool
  td_version :: u64

definition traffic_new :: traffic_data where
  "traffic_new = \<lparr>td_samples = [], td_total_up = 0, td_total_down = 0, td_previous = None, td_pending = (0, 0),
     td_last_sample = None, td_current = speed_default, td_active = False, td_version = 0\<rparr>"

definition saturating_sub :: "u64 \<Rightarrow> u64 \<Rightarrow> u64" where
  "saturating_sub a b = (if b \<le> a then a - b else 0)"

definition saturating_add :: "u64 \<Rightarrow> u64 \<Rightarrow> u64" where
  "saturating_add a b = (if unat a + unat b < 2 ^ 64 then a + b else - 1)"

definition push_sample :: "speed \<Rightarrow> traffic_data \<Rightarrow> traffic_data" where
  "push_sample s d =
     d\<lparr>td_samples := (if length (td_samples d) = history_limit then tl (td_samples d) else td_samples d) @ [s]\<rparr>"

definition bump :: "traffic_data \<Rightarrow> traffic_data" where
  "bump d = d\<lparr>td_version := td_version d + 1\<rparr>"

definition record_none :: "traffic_data \<Rightarrow> traffic_data" where
  "record_none d =
     (let d1 = (if td_previous d \<noteq> None \<or> td_current d \<noteq> speed_default \<or> td_active d
                then bump (push_sample speed_default (d\<lparr>td_current := speed_default, td_active := False\<rparr>)) else d)
      in d1\<lparr>td_previous := None, td_pending := (0, 0), td_last_sample := None\<rparr>)"

definition add_pending :: "u64 \<Rightarrow> u64 \<Rightarrow> traffic_data \<Rightarrow> traffic_data" where
  "add_pending up down d =
     (case td_previous d of
        Some (prev_up, prev_down) \<Rightarrow>
          d\<lparr>td_pending := (fst (td_pending d) + saturating_sub up prev_up, snd (td_pending d) + saturating_sub down prev_down)\<rparr>
      | None \<Rightarrow> d)"

definition flush_sample :: "nat \<Rightarrow> nat \<Rightarrow> traffic_data \<Rightarrow> traffic_data" where
  "flush_sample since now d =
     (let secs = max (of_nat since / 10 ^ 9) (1 / 1000) :: rat;
          s = \<lparr>sp_up = of_nat (unat (fst (td_pending d))) / secs, sp_down = of_nat (unat (snd (td_pending d))) / secs\<rparr>
      in bump (push_sample s (d\<lparr>td_total_up := saturating_add (td_total_up d) (fst (td_pending d)),
           td_total_down := saturating_add (td_total_down d) (snd (td_pending d)),
           td_pending := (0, 0), td_current := s, td_last_sample := Some now\<rparr>)))"

definition record_at :: "(u64 \<times> u64) option \<Rightarrow> nat \<Rightarrow> traffic_data \<Rightarrow> traffic_data" where
  "record_at cumulative now d =
     (case cumulative of
        None \<Rightarrow> record_none d
      | Some (up, down) \<Rightarrow>
          let d1 = (add_pending up down d)\<lparr>td_previous := Some (up, down), td_active := True\<rparr>;
              (since, d2) = (case td_last_sample d1 of
                 Some last_at \<Rightarrow> (now - last_at, d1)
               | None \<Rightarrow> (0, d1\<lparr>td_last_sample := Some now\<rparr>))
          in if sample_interval \<le> since then flush_sample since now d2 else d2)"

definition traffic_reset :: "traffic_data \<Rightarrow> traffic_data" where
  "traffic_reset d =
     (let d1 = d\<lparr>td_previous := None, td_pending := (0, 0), td_last_sample := None, td_current := speed_default,
          td_active := False\<rparr>
      in if td_current d \<noteq> speed_default then bump d1 else d1)"

record traffic_snapshot =
  ts_samples :: "speed list"
  ts_total_up :: u64
  ts_total_down :: u64
  ts_current :: speed
  ts_peak_up :: rat
  ts_peak_down :: rat

definition snapshot :: "traffic_data \<Rightarrow> traffic_snapshot" where
  "snapshot d = \<lparr>ts_samples = td_samples d, ts_total_up = td_total_up d, ts_total_down = td_total_down d,
     ts_current = td_current d, ts_peak_up = fold max (map sp_up (td_samples d)) 0,
     ts_peak_down = fold max (map sp_down (td_samples d)) 0\<rparr>"

text \<open>\<open>format_size\<close> up to the printing of the decimals: the scaled value and the unit.\<close>

definition size_units :: "string list" where "size_units = [''B'', ''KB'', ''MB'', ''GB'', ''TB'']"

function scale_size :: "rat \<Rightarrow> nat \<Rightarrow> rat \<times> nat" where
  "scale_size v u = (if 1024 \<le> v \<and> u < length size_units - 1 then scale_size (v / 1024) (u + 1) else (v, u))"
  by pat_completeness auto
termination
  by (relation "measure (\<lambda>(_, u). length size_units - u)") auto

declare scale_size.simps [simp del]

section \<open>Runs\<close>

datatype traffic_op = Reading u64 u64 nat | NoCore nat | Reset

fun traffic_do :: "traffic_op \<Rightarrow> traffic_data \<Rightarrow> traffic_data" where
  "traffic_do (Reading up down now) d = record_at (Some (up, down)) now d"
| "traffic_do (NoCore now) d = record_at None now d"
| "traffic_do Reset d = traffic_reset d"

text \<open>The bytes that a sequence of readings of one counter shows: the increases; a decrease starts a
  new baseline.\<close>

fun gained :: "nat \<Rightarrow> nat list \<Rightarrow> nat" where
  "gained prev [] = 0"
| "gained prev (x # xs) = (x - prev) + gained x xs"

definition read_all :: "(u64 \<times> u64 \<times> nat) list \<Rightarrow> traffic_data \<Rightarrow> traffic_data" where
  "read_all rs d = fold (\<lambda>(up, down, now). record_at (Some (up, down)) now) rs d"

section \<open>Lemmas\<close>

lemma unat_saturating_sub [simp]: "unat (saturating_sub a b) = unat a - unat b"
  by (simp add: saturating_sub_def unat_sub word_le_nat_alt)

lemma unat_saturating_add: "unat a + unat b < 2 ^ 64 \<Longrightarrow> unat (saturating_add a b) = unat a + unat b"
  by (simp add: saturating_add_def unat_word_ariths)

lemma push_sample_fields [simp]:
  "td_total_up (push_sample s d) = td_total_up d" "td_total_down (push_sample s d) = td_total_down d"
  "td_pending (push_sample s d) = td_pending d" "td_previous (push_sample s d) = td_previous d"
  "td_version (push_sample s d) = td_version d" "td_current (push_sample s d) = td_current d"
  "td_last_sample (push_sample s d) = td_last_sample d"
  by (simp_all add: push_sample_def)

lemma bump_fields [simp]:
  "td_total_up (bump d) = td_total_up d" "td_total_down (bump d) = td_total_down d" "td_pending (bump d) = td_pending d"
  "td_previous (bump d) = td_previous d" "td_samples (bump d) = td_samples d" "td_current (bump d) = td_current d"
  "td_version (bump d) = td_version d + 1" "td_last_sample (bump d) = td_last_sample d"
  by (simp_all add: bump_def)

lemma push_sample_bounded: "length (td_samples d) \<le> history_limit \<Longrightarrow> length (td_samples (push_sample s d)) \<le> history_limit"
  by (auto simp: push_sample_def history_limit_def)

text \<open>A reading changes the pending bytes and the baseline, then flushes them or not.\<close>

lemma record_reading_cases:
  obtains d2 since where
    "record_at (Some (up, down)) now d = (if sample_interval \<le> since then flush_sample since now d2 else d2)"
    "td_pending d2 = td_pending (add_pending up down d)" "td_previous d2 = Some (up, down)"
    "td_total_up d2 = td_total_up d" "td_total_down d2 = td_total_down d" "snapshot d2 = snapshot d"
    "td_samples d2 = td_samples d" "td_version d2 = td_version d"
proof -
  let ?d1 = "(add_pending up down d)\<lparr>td_previous := Some (up, down), td_active := True\<rparr>"
  have same: "td_total_up ?d1 = td_total_up d" "td_total_down ?d1 = td_total_down d" "td_samples ?d1 = td_samples d"
    "td_version ?d1 = td_version d" "td_last_sample ?d1 = td_last_sample d" "td_current ?d1 = td_current d"
    by (simp_all add: add_pending_def split: option.split prod.split)
  show thesis
  proof (cases "td_last_sample d")
    case None
    then show thesis
      using that [of 0 "?d1\<lparr>td_last_sample := Some now\<rparr>"] same by (simp add: record_at_def snapshot_def)
  next
    case (Some t)
    then show thesis using that [of "now - t" ?d1] same by (simp add: record_at_def snapshot_def)
  qed
qed

lemma flush_fields [simp]:
  "td_total_up (flush_sample since now d) = saturating_add (td_total_up d) (fst (td_pending d))"
  "td_total_down (flush_sample since now d) = saturating_add (td_total_down d) (snd (td_pending d))"
  "td_pending (flush_sample since now d) = (0, 0)" "td_previous (flush_sample since now d) = td_previous d"
  "td_version (flush_sample since now d) = td_version d + 1"
  by (simp_all add: flush_sample_def Let_def)

text \<open>The bytes accounted for so far, flushed or pending.\<close>

definition counted_up :: "traffic_data \<Rightarrow> nat" where
  "counted_up d = unat (td_total_up d) + unat (fst (td_pending d))"

definition counted_down :: "traffic_data \<Rightarrow> nat" where
  "counted_down d = unat (td_total_down d) + unat (snd (td_pending d))"

lemma unat_add_small: "unat (a :: u64) + unat b < 2 ^ 64 \<Longrightarrow> unat (a + b) = unat a + unat b"
  by (simp add: unat_word_ariths)

lemma record_counts:
  assumes "td_previous d = Some (pu, pd)" "counted_up d + (unat up - unat pu) < 2 ^ 64"
    and "counted_down d + (unat down - unat pd) < 2 ^ 64"
  shows "counted_up (record_at (Some (up, down)) now d) = counted_up d + (unat up - unat pu)"
    "counted_down (record_at (Some (up, down)) now d) = counted_down d + (unat down - unat pd)"
    "td_previous (record_at (Some (up, down)) now d) = Some (up, down)"
proof -
  obtain d2 since where d2: "record_at (Some (up, down)) now d = (if sample_interval \<le> since then flush_sample since now d2 else d2)"
    "td_pending d2 = td_pending (add_pending up down d)" "td_previous d2 = Some (up, down)"
    "td_total_up d2 = td_total_up d" "td_total_down d2 = td_total_down d"
    by (rule record_reading_cases [of up down now d])
  have "unat (fst (td_pending d2)) = unat (fst (td_pending d)) + (unat up - unat pu)"
    "unat (snd (td_pending d2)) = unat (snd (td_pending d)) + (unat down - unat pd)"
    using assms d2(2) by (simp_all add: add_pending_def counted_up_def counted_down_def unat_add_small)
  then show "counted_up (record_at (Some (up, down)) now d) = counted_up d + (unat up - unat pu)"
    "counted_down (record_at (Some (up, down)) now d) = counted_down d + (unat down - unat pd)"
    using assms(2,3) d2(1,4,5) unat_saturating_add by (simp_all add: counted_up_def counted_down_def)
  show "td_previous (record_at (Some (up, down)) now d) = Some (up, down)" using d2(1,3) by simp
qed

lemma snapshot_step: "snapshot (traffic_do op d) = snapshot d \<or> td_version (traffic_do op d) = td_version d + 1"
proof (cases op)
  case (Reading up down now)
  obtain d2 since where "record_at (Some (up, down)) now d = (if sample_interval \<le> since then flush_sample since now d2 else d2)"
    "snapshot d2 = snapshot d" "td_version d2 = td_version d"
    by (rule record_reading_cases [of up down now d])
  then show ?thesis using Reading by simp
qed (simp_all add: record_at_def record_none_def traffic_reset_def snapshot_def Let_def)

lemma bounded_step: "length (td_samples d) \<le> history_limit \<Longrightarrow> length (td_samples (traffic_do op d)) \<le> history_limit"
proof (cases op)
  case (Reading up down now)
  obtain d2 since where "record_at (Some (up, down)) now d = (if sample_interval \<le> since then flush_sample since now d2 else d2)"
    "td_samples d2 = td_samples d"
    by (rule record_reading_cases [of up down now d])
  then show "length (td_samples d) \<le> history_limit \<Longrightarrow> ?thesis"
    using Reading by (simp add: flush_sample_def Let_def push_sample_bounded)
qed (simp_all add: record_at_def record_none_def traffic_reset_def Let_def push_sample_bounded)

lemma fold_max_ge: "a \<le> fold max (xs :: rat list) a \<and> (\<forall>x \<in> set xs. x \<le> fold max xs a)"
proof (induction xs arbitrary: a)
  case (Cons x xs)
  from Cons.IH [of "max x a"] show ?case by simp
qed simp

section \<open>Properties\<close>

text \<open>No byte is lost or counted twice: over any sequence of readings, whatever their
  times, the flushed totals together with the pending bytes grow by exactly the increases of the
  counters (a decrease being a new baseline), as long as the counts fit the counters.\<close>

lemma traffic_conserved:
  assumes "td_previous d = Some (pu, pd)"
    and "counted_up d + gained (unat pu) (map (unat \<circ> fst) rs) < 2 ^ 64"
    and "counted_down d + gained (unat pd) (map (unat \<circ> fst \<circ> snd) rs) < 2 ^ 64"
  shows "counted_up (read_all rs d) = counted_up d + gained (unat pu) (map (unat \<circ> fst) rs)
    \<and> counted_down (read_all rs d) = counted_down d + gained (unat pd) (map (unat \<circ> fst \<circ> snd) rs)"
  using assms
proof (induction rs arbitrary: d pu pd)
  case (Cons r rs)
  obtain up down now where r: "r = (up, down, now)" by (cases r)
  let ?d = "record_at (Some (up, down)) now d"
  have "counted_up d + (unat up - unat pu) < 2 ^ 64" "counted_down d + (unat down - unat pd) < 2 ^ 64"
    using Cons.prems r by simp_all
  note step = record_counts [OF Cons.prems(1) this, of now]
  then show ?case using Cons.IH [of ?d up down] Cons.prems r by (simp add: read_all_def)
qed (simp add: read_all_def)

lemma traffic_conserved_witness:
  "counted_up (read_all [(1000, 7, 10 ^ 9), (1500, 7, 10 ^ 9 + 5)] (record_at (Some (0, 0)) 0 traffic_new)) = 1500"
proof -
  have "td_previous (record_at (Some (0, 0)) 0 traffic_new) = Some (0, 0)"
    "counted_up (record_at (Some (0, 0)) 0 traffic_new) = 0" "counted_down (record_at (Some (0, 0)) 0 traffic_new) = 0"
    by (simp_all add: record_at_def traffic_new_def add_pending_def counted_up_def counted_down_def sample_interval_def)
  then show ?thesis
    using traffic_conserved [of "record_at (Some (0, 0)) 0 traffic_new" 0 0 "[(1000, 7, 10 ^ 9), (1500, 7, 10 ^ 9 + 5)]"] by simp
qed

text \<open>After any sequence of readings, stops and resets at most sixty samples are kept, and a
  reader that compares versions misses nothing: when an operation leaves the version as it was,
  the whole snapshot is as it was; the peaks bound every sample.\<close>

lemma traffic_snapshot_sound:
  "length (td_samples (fold traffic_do ops traffic_new)) \<le> 60
    \<and> (snapshot (traffic_do op d) = snapshot d \<or> td_version (traffic_do op d) = td_version d + 1)
    \<and> list_all (\<lambda>s. sp_up s \<le> ts_peak_up (snapshot d) \<and> sp_down s \<le> ts_peak_down (snapshot d)) (ts_samples (snapshot d))"
proof -
  have "length (td_samples (fold traffic_do ops d)) \<le> history_limit" if "length (td_samples d) \<le> history_limit" for d
    using that by (induction ops arbitrary: d) (simp_all add: bounded_step)
  from this [of traffic_new] have "length (td_samples (fold traffic_do ops traffic_new)) \<le> 60"
    by (simp add: traffic_new_def history_limit_def)
  moreover have "sp_up s \<le> ts_peak_up (snapshot d) \<and> sp_down s \<le> ts_peak_down (snapshot d)"
    if "s \<in> set (ts_samples (snapshot d))" for s
    using that fold_max_ge [where a = 0 and xs = "map sp_up (td_samples d)"]
      fold_max_ge [where a = 0 and xs = "map sp_down (td_samples d)"] by (auto simp: snapshot_def)
  ultimately show ?thesis using snapshot_step by (simp add: list_all_iff)
qed

end
