(* ===== verification/Gui_Control.thy ===== *)
theory Gui_Control
  imports Gui_Nodes Gui_System_Proxy Gui_Traffic
begin

text \<open>
  The controller of the desktop application: \<open>gui/src/ui/controller/\<close> \<open>mod.rs\<close>, \<open>save.rs\<close>, \<open>nodes.rs\<close>
  (list operations), \<open>overview.rs\<close> and \<open>tray.rs\<close>, and \<open>restart_pac_server\<close> of \<open>gui/src/state.rs\<close>.

  Every operation takes the answers of the outside (\<open>effects\<close>: the proxy core, the system proxy, the
  clipboard, the disk) and gives the new controller and the \<open>Changes\<close> it reports.  The calls to the
  outside are recorded in order in \<open>ct_calls\<close>.  An error text is a \<open>reason\<close>.
\<close>

section \<open>State\<close>

datatype reason = Storage storage_error | Linking share_error | Told string

datatype notice = NoNotice | Imported | ImportFailed reason | ImportPartial nat nat | ExportFailed reason | ExportInvalid
  | LinkCopied | StartFailed reason | RulesUpdated | RulesFailed reason | ProxyFailed reason | SaveFailed reason
  | CoreExited reason | NoNode | MissingFields "required_field list" | NodesSaveFailed reason | SaveInvalid
  | NodeIncomplete string "required_field list" | ProfilesChanged | AppIconInstalled | AppIconFailed reason

fun is_error :: "notice \<Rightarrow> bool" where
  "is_error NoNotice = False"
| "is_error Imported = False"
| "is_error (ImportPartial _ _) = False"
| "is_error LinkCopied = False"
| "is_error RulesUpdated = False"
| "is_error AppIconInstalled = False"
| "is_error _ = True"

record changes =
  ch_overview :: bool
  ch_notice :: bool
  ch_persist :: bool
  ch_nodes :: bool
  ch_editor :: bool
  ch_settings :: bool
  ch_logs :: bool
  ch_traffic :: bool

definition no_changes :: changes where
  "no_changes = \<lparr>ch_overview = False, ch_notice = False, ch_persist = False, ch_nodes = False, ch_editor = False,
     ch_settings = False, ch_logs = False, ch_traffic = False\<rparr>"

definition ch_or :: "changes \<Rightarrow> changes \<Rightarrow> changes" where
  "ch_or a b = \<lparr>ch_overview = (ch_overview a \<or> ch_overview b), ch_notice = (ch_notice a \<or> ch_notice b),
     ch_persist = (ch_persist a \<or> ch_persist b), ch_nodes = (ch_nodes a \<or> ch_nodes b), ch_editor = (ch_editor a \<or> ch_editor b),
     ch_settings = (ch_settings a \<or> ch_settings b), ch_logs = (ch_logs a \<or> ch_logs b), ch_traffic = (ch_traffic a \<or> ch_traffic b)\<rparr>"

abbreviation "OVERVIEW \<equiv> no_changes\<lparr>ch_overview := True\<rparr>"
abbreviation "NODES \<equiv> no_changes\<lparr>ch_nodes := True\<rparr>"
abbreviation "EDITOR \<equiv> no_changes\<lparr>ch_nodes := True, ch_editor := True\<rparr>"
abbreviation "SETTINGS \<equiv> no_changes\<lparr>ch_settings := True\<rparr>"
abbreviation "NOTICE \<equiv> no_changes\<lparr>ch_notice := True\<rparr>"
abbreviation "PERSIST \<equiv> no_changes\<lparr>ch_persist := True\<rparr>"

record nodes_state =
  ns_selected :: nat
  ns_draft :: draft_data
  ns_errors :: "(draft_field \<times> draft_error) list"
  ns_advanced :: "draft_data option"
  ns_advanced_errors :: "(draft_field \<times> draft_error) list"
  ns_qr :: "string option"
  ns_started_with :: "proxy_profile option"

definition draft_at :: "nat \<Rightarrow> gui_state \<Rightarrow> draft_data" where
  "draft_at i g = (if i < length (gs_profiles g) then from_profile (gs_profiles g ! i) else draft_default)"

definition nodes_new :: "gui_state \<Rightarrow> nodes_state" where
  "nodes_new g =
     (let selected = min (rn_selected_profile (gs_runtime g)) (length (gs_profiles g) - 1) in
      \<lparr>ns_selected = selected, ns_draft = draft_at selected g, ns_errors = [], ns_advanced = None,
       ns_advanced_errors = [], ns_qr = None, ns_started_with = None\<rparr>)"

datatype leave = Hide | Quit

datatype answer = AnswerSave | AnswerDiscard | AnswerCancel

datatype setting_key = MixedPort | DirectUrl | ProxyUrl | UpdateHours | PacListen | OnlinePacUrl

datatype setting_error = SePort | SeListenAddress | SeUrl | SeHours

record setting_sheet =
  sh_key :: setting_key
  sh_draft :: string
  sh_error :: "setting_error option"

datatype effect_call = CallStart app_config proxy_profile | CallStop | CallPoll | CallProxy app_config | CallCopy string
  | CallPaste | CallAutostart bool | CallAppIcon

record controller =
  ct_gui :: gui_state
  ct_pac :: "pac_server option"
  ct_persist :: persist
  ct_connected :: bool
  ct_rules_updating :: bool
  ct_notice :: notice
  ct_notice_seq :: u64
  ct_nodes :: nodes_state
  ct_saved :: saved_nodes
  ct_leave :: "leave option"
  ct_sheet :: "setting_sheet option"
  ct_traffic :: traffic_data
  ct_files :: files
  ct_calls :: "effect_call list"

text \<open>The outside at the time of an operation; \<open>None\<close> for a reason means success.\<close>

record effects =
  fx_start :: "app_config \<Rightarrow> proxy_profile \<Rightarrow> reason option"
  fx_poll :: "reason option"
  fx_proxy :: "app_config \<Rightarrow> reason option"
  fx_copy :: "string \<Rightarrow> reason option"
  fx_paste :: "reason + string"
  fx_autostart :: "bool \<Rightarrow> reason option"
  fx_app_icon :: "reason option"
  fx_counters :: "(u64 \<times> u64) option"
  fx_bind :: "string \<Rightarrow> socket_addr option"
  fx_qr :: "string \<Rightarrow> reason option"
  fx_faults :: "config_file \<Rightarrow> io_fault option"
  fx_now :: nat
  fx_clock :: nat

text \<open>The fixed parameters: files, share links.\<close>

record control_env =
  ce_persist :: persist_env
  ce_url_parse :: "string \<Rightarrow> url option"
  ce_engines :: "(string \<Rightarrow> bytes option) list"
  ce_b64 :: "bytes \<Rightarrow> string"
  ce_ser :: "string \<Rightarrow> string"

definition with_gui :: "(gui_state \<Rightarrow> gui_state) \<Rightarrow> controller \<Rightarrow> controller" where
  "with_gui f c = c\<lparr>ct_gui := f (ct_gui c)\<rparr>"

definition with_runtime :: "(runtime_state \<Rightarrow> runtime_state) \<Rightarrow> controller \<Rightarrow> controller" where
  "with_runtime f c = with_gui (\<lambda>g. g\<lparr>gs_runtime := f (gs_runtime g)\<rparr>) c"

definition with_config :: "(app_config \<Rightarrow> app_config) \<Rightarrow> controller \<Rightarrow> controller" where
  "with_config f c = with_gui (\<lambda>g. g\<lparr>gs_config := f (gs_config g)\<rparr>) c"

definition with_profiles :: "(proxy_profile list \<Rightarrow> proxy_profile list) \<Rightarrow> controller \<Rightarrow> controller" where
  "with_profiles f c = with_gui (\<lambda>g. g\<lparr>gs_profiles := f (gs_profiles g)\<rparr>) c"

definition with_nodes :: "(nodes_state \<Rightarrow> nodes_state) \<Rightarrow> controller \<Rightarrow> controller" where
  "with_nodes f c = c\<lparr>ct_nodes := f (ct_nodes c)\<rparr>"

definition call :: "effect_call \<Rightarrow> controller \<Rightarrow> controller" where
  "call x c = c\<lparr>ct_calls := ct_calls c @ [x]\<rparr>"

abbreviation "profiles_of c \<equiv> gs_profiles (ct_gui c)"
abbreviation "config_of c \<equiv> gs_config (ct_gui c)"
abbreviation "runtime_of c \<equiv> gs_runtime (ct_gui c)"
abbreviation "active_of c \<equiv> rn_selected_profile (gs_runtime (ct_gui c))"
abbreviation "selected_of c \<equiv> ns_selected (ct_nodes c)"

text \<open>One call after another, their reports combined.\<close>

definition and_also :: "controller \<times> changes \<Rightarrow> (controller \<Rightarrow> controller \<times> changes) \<Rightarrow> controller \<times> changes" where
  "and_also x f = (case x of (c, ch) \<Rightarrow> (case f c of (c', ch') \<Rightarrow> (c', ch_or ch ch')))"

section \<open>Notices, dirty files\<close>

definition controller_new :: "control_env \<Rightarrow> bool \<Rightarrow> traffic_data \<Rightarrow> files \<Rightarrow> controller" where
  "controller_new v renamed monitor m =
     (case load_tracked (pv_parsers (ce_persist v)) renamed (pv_paths (ce_persist v)) m of
        (g, (app, profiles, rt), m') \<Rightarrow>
          \<lparr>ct_gui = g, ct_pac = None,
           ct_persist = persist_new (pv_hash (ce_persist v))
             (\<lambda>f. case f of CfApp \<Rightarrow> app | CfProfiles \<Rightarrow> profiles | CfRuntime \<Rightarrow> rt),
           ct_connected = False, ct_rules_updating = False, ct_notice = NoNotice, ct_notice_seq = 0,
           ct_nodes = nodes_new g, ct_saved = saved_new g, ct_leave = None, ct_sheet = None,
           ct_traffic = monitor, ct_files = m', ct_calls = []\<rparr>)"

definition set_notice :: "notice \<Rightarrow> controller \<Rightarrow> controller \<times> changes" where
  "set_notice n c = (c\<lparr>ct_notice := n, ct_notice_seq := ct_notice_seq c + 1\<rparr>, NOTICE)"

definition dismiss_notice :: "controller \<Rightarrow> controller \<times> changes" where
  "dismiss_notice c = set_notice NoNotice c"

definition expire_notice :: "u64 \<Rightarrow> controller \<Rightarrow> controller \<times> changes" where
  "expire_notice seq c =
     (if seq = ct_notice_seq c \<and> \<not> is_error (ct_notice c) then dismiss_notice c else (c, no_changes))"

definition mark_dirty :: "config_file \<Rightarrow> nat \<Rightarrow> controller \<Rightarrow> controller \<times> changes" where
  "mark_dirty f now c = (c\<lparr>ct_persist := persist_mark f now (ct_persist c)\<rparr>, PERSIST)"

definition flush_all :: "control_env \<Rightarrow> effects \<Rightarrow> controller \<Rightarrow> controller \<times> (storage_error + unit)" where
  "flush_all v e c =
     (case persist_flush (ce_persist v) (fx_faults e) (ct_gui c) (ct_saved c) (fx_now e) (ct_persist c) (ct_files c) of
        (p, m, r) \<Rightarrow> (c\<lparr>ct_persist := p, ct_files := m\<rparr>, r))"

definition flush_due :: "control_env \<Rightarrow> effects \<Rightarrow> controller \<Rightarrow> controller \<times> changes" where
  "flush_due v e c =
     (case persist_delay (fx_now e) (ct_persist c) of
        None \<Rightarrow> (c, no_changes)
      | Some delay \<Rightarrow>
          if delay \<noteq> 0 then (c, PERSIST)
          else (case flush_all v e c of
                  (c', Inr _) \<Rightarrow> (c', no_changes)
                | (c', Inl err) \<Rightarrow> and_also (set_notice (SaveFailed (Storage err)) c') (\<lambda>c. (c, PERSIST))))"

section \<open>Saving nodes\<close>

definition list_dirty :: "controller \<Rightarrow> bool" where
  "list_dirty c = (profiles_of c \<noteq> sv_profiles (ct_saved c) \<or> active_of c \<noteq> sv_active (ct_saved c))"

definition draft_unapplied :: "controller \<Rightarrow> bool" where
  "draft_unapplied c = (selected_of c < length (profiles_of c)
     \<and> unapplied (ns_draft (ct_nodes c)) (profiles_of c ! selected_of c))"

definition nodes_dirty :: "controller \<Rightarrow> bool" where
  "nodes_dirty c = (list_dirty c \<or> draft_unapplied c)"

definition set_working_active :: "nat \<Rightarrow> controller \<Rightarrow> controller" where
  "set_working_active i c = with_runtime (\<lambda>r. r\<lparr>rn_selected_profile := i\<rparr>) c"

text \<open>The check refreshes the errors shown in the editor.\<close>

definition save_refusal :: "controller \<Rightarrow> controller \<times> notice option" where
  "save_refusal c =
     (let errors = draft_errors (ns_draft (ct_nodes c));
          c1 = with_nodes (\<lambda>n. n\<lparr>ns_errors := errors\<rparr>) c
      in (c1, if errors \<noteq> [] then Some SaveInvalid
              else find_map (\<lambda>p. if missing_fields p \<noteq> [] then Some (NodeIncomplete (display_name p) (missing_fields p)) else None)
                     (profiles_of c)))"

definition save_failed :: "storage_error \<Rightarrow> controller \<Rightarrow> controller \<times> changes \<times> bool" where
  "save_failed err c =
     (case and_also (c\<lparr>ct_leave := None\<rparr>, NODES) (set_notice (NodesSaveFailed (Storage err))) of (c', ch) \<Rightarrow> (c', ch, False))"

definition clear_save_notice :: "controller \<Rightarrow> controller \<times> changes" where
  "clear_save_notice c =
     (case ct_notice c of
        NodesSaveFailed _ \<Rightarrow> dismiss_notice c | SaveInvalid \<Rightarrow> dismiss_notice c
      | NodeIncomplete _ _ \<Rightarrow> dismiss_notice c | ProfilesChanged \<Rightarrow> dismiss_notice c | _ \<Rightarrow> (c, no_changes))"

definition write_file :: "control_env \<Rightarrow> effects \<Rightarrow> config_file \<Rightarrow> saved_nodes \<Rightarrow> controller \<Rightarrow> controller \<times> (storage_error + unit)" where
  "write_file v e f s c =
     (case persist_write (ce_persist v) (fx_faults e f) f (ct_gui c) s (ct_persist c) (ct_files c) of
        (p, m, r) \<Rightarrow> (c\<lparr>ct_persist := p, ct_files := m\<rparr>, r))"

text \<open>The second part: the active index.\<close>

definition write_active :: "control_env \<Rightarrow> effects \<Rightarrow> nat \<Rightarrow> controller \<Rightarrow> controller \<times> changes \<times> bool" where
  "write_active v e active c =
     (let finish = (\<lambda>c. case and_also (c, NODES) clear_save_notice of (c', ch) \<Rightarrow> (c', ch, True)) in
      if active \<noteq> sv_active (ct_saved c)
      then (let s = (ct_saved c)\<lparr>sv_active := active\<rparr> in
            case write_file v e CfRuntime s (c\<lparr>ct_saved := s\<rparr>) of
              (c1, Inl err) \<Rightarrow> save_failed err (c1\<lparr>ct_saved := ct_saved c\<rparr>)
            | (c1, Inr _) \<Rightarrow> finish c1)
      else finish c)"

definition write_nodes :: "control_env \<Rightarrow> effects \<Rightarrow> controller \<Rightarrow> controller \<times> changes \<times> bool" where
  "write_nodes v e c =
     (if \<not> nodes_dirty c then (c, no_changes, True)
      else case save_refusal c of
        (c1, Some n) \<Rightarrow> (case and_also (c1\<lparr>ct_leave := None\<rparr>, NODES) (set_notice n) of (c2, ch) \<Rightarrow> (c2, ch, False))
      | (c1, None) \<Rightarrow>
          let new = clamp_active \<lparr>sv_profiles = profiles_of c1, sv_active = active_of c1\<rparr> in
          if sv_profiles new \<noteq> sv_profiles (ct_saved c1)
          then (case write_file v e CfProfiles new c1 of
                  (c2, Inl err) \<Rightarrow> save_failed err c2
                | (c2, Inr _) \<Rightarrow>
                    write_active v e (sv_active new)
                      (c2\<lparr>ct_saved := clamp_active ((ct_saved c2)\<lparr>sv_profiles := sv_profiles new\<rparr>)\<rparr>))
          else write_active v e (sv_active new) c1)"

definition save_nodes :: "control_env \<Rightarrow> effects \<Rightarrow> controller \<Rightarrow> controller \<times> changes" where
  "save_nodes v e c = (case write_nodes v e c of (c', ch, _) \<Rightarrow> (c', ch))"

definition load_selected :: "controller \<Rightarrow> controller \<times> changes" where
  "load_selected c =
     (let selected = min (selected_of c) (length (profiles_of c) - 1) in
      (with_nodes (\<lambda>n. n\<lparr>ns_selected := selected, ns_draft := draft_at selected (ct_gui c), ns_errors := [], ns_qr := None\<rparr>) c,
       EDITOR))"

definition revert_nodes :: "controller \<Rightarrow> controller \<times> changes" where
  "revert_nodes c =
     (if \<not> nodes_dirty c then (c, no_changes)
      else
        let c1 = with_gui (\<lambda>g. normalize_selected_index (g\<lparr>gs_profiles := sv_profiles (ct_saved c),
                    gs_runtime := (gs_runtime g)\<lparr>rn_selected_profile := sv_active (ct_saved c)\<rparr>\<rparr>)) c;
            c2 = with_nodes (\<lambda>n. n\<lparr>ns_selected := active_of c1, ns_advanced := None, ns_advanced_errors := []\<rparr>) c1
        in and_also (and_also (c2, OVERVIEW) load_selected) clear_save_notice)"

definition request_leave :: "leave \<Rightarrow> controller \<Rightarrow> controller \<times> changes \<times> leave option" where
  "request_leave l c =
     (if ct_leave c \<noteq> None then (c, no_changes, None)
      else if \<not> nodes_dirty c then (c, no_changes, Some l)
      else (c\<lparr>ct_leave := Some l\<rparr>, NODES, None))"

definition answer_prompt :: "control_env \<Rightarrow> effects \<Rightarrow> answer \<Rightarrow> controller \<Rightarrow> controller \<times> changes \<times> leave option" where
  "answer_prompt v e a c =
     (case ct_leave c of
        None \<Rightarrow> (c, no_changes, None)
      | Some l \<Rightarrow>
          (case a of
             AnswerSave \<Rightarrow>
               (case write_nodes v e c of (c1, ch, saved) \<Rightarrow>
                  if saved then (c1\<lparr>ct_leave := None\<rparr>, ch_or ch NODES, ct_leave c1) else (c1, ch_or ch NODES, None))
           | AnswerDiscard \<Rightarrow>
               (case revert_nodes (c\<lparr>ct_leave := None\<rparr>) of (c1, ch) \<Rightarrow> (c1, ch_or ch NODES, Some l))
           | AnswerCancel \<Rightarrow> (c\<lparr>ct_leave := None\<rparr>, NODES, None)))"

section \<open>The connection\<close>

definition start_notice :: "notice \<Rightarrow> bool" where
  "start_notice n = (case n of StartFailed _ \<Rightarrow> True | CoreExited _ \<Rightarrow> True | NoNode \<Rightarrow> True | MissingFields _ \<Rightarrow> True | _ \<Rightarrow> False)"

definition start_active :: "effects \<Rightarrow> controller \<Rightarrow> controller \<times> changes" where
  "start_active e c =
     (case selected_profile (ct_gui c) of
        None \<Rightarrow> set_notice NoNode c
      | Some p \<Rightarrow>
          if missing_fields p \<noteq> [] then set_notice (MissingFields (missing_fields p)) c
          else
            let c1 = call (CallStart (config_of c) p) (c\<lparr>ct_traffic := traffic_reset (ct_traffic c)\<rparr>) in
            (case fx_start e (config_of c) p of
               None \<Rightarrow>
                 let c2 = with_runtime (\<lambda>r. r\<lparr>rn_was_running := True\<rparr>)
                       (with_nodes (\<lambda>n. n\<lparr>ns_started_with := Some p\<rparr>) (c1\<lparr>ct_connected := True\<rparr>));
                     x = and_also (c2, ch_or OVERVIEW NODES) (mark_dirty CfRuntime (fx_now e))
                 in if start_notice (ct_notice c) then and_also x dismiss_notice else x
             | Some err \<Rightarrow>
                 let x = (if ct_connected c1
                          then and_also (with_runtime (\<lambda>r. r\<lparr>rn_was_running := False\<rparr>)
                                 (with_nodes (\<lambda>n. n\<lparr>ns_started_with := None\<rparr>) (c1\<lparr>ct_connected := False\<rparr>)), ch_or OVERVIEW NODES)
                                 (mark_dirty CfRuntime (fx_now e))
                          else (c1, ch_or OVERVIEW NODES))
                 in and_also x (set_notice (StartFailed err))))"

definition toggle_connection :: "effects \<Rightarrow> controller \<Rightarrow> controller \<times> changes" where
  "toggle_connection e c =
     (if ct_connected c
      then and_also (with_runtime (\<lambda>r. r\<lparr>rn_was_running := False\<rparr>)
             (with_nodes (\<lambda>n. n\<lparr>ns_started_with := None\<rparr>)
               ((call CallStop (c\<lparr>ct_traffic := traffic_reset (ct_traffic c)\<rparr>))\<lparr>ct_connected := False\<rparr>)), ch_or OVERVIEW NODES)
             (mark_dirty CfRuntime (fx_now e))
      else start_active e c)"

definition poll_core :: "effects \<Rightarrow> controller \<Rightarrow> controller \<times> changes" where
  "poll_core e c =
     (let c1 = c\<lparr>ct_traffic := record_at (fx_counters e) (fx_clock e) (ct_traffic c)\<rparr> in
      if \<not> ct_connected c1 then (c1, no_changes)
      else
        let c2 = call CallPoll c1 in
        (case fx_poll e of
           None \<Rightarrow> (c2, no_changes)
         | Some why \<Rightarrow> and_also (with_nodes (\<lambda>n. n\<lparr>ns_started_with := None\<rparr>) (c2\<lparr>ct_connected := False\<rparr>), ch_or OVERVIEW NODES)
             (set_notice (CoreExited why))))"

section \<open>The node list\<close>

definition select_node :: "nat \<Rightarrow> controller \<Rightarrow> controller \<times> changes" where
  "select_node i c =
     (if i = selected_of c \<or> length (profiles_of c) \<le> i then (c, no_changes)
      else load_selected (with_nodes (\<lambda>n. n\<lparr>ns_selected := i\<rparr>) c))"

definition add_node :: "string \<Rightarrow> controller \<Rightarrow> controller \<times> changes" where
  "add_node name c =
     (let c1 = with_profiles (\<lambda>ps. ps @ [profile_default\<lparr>pp_name := name\<rparr>]) c in
      load_selected (with_nodes (\<lambda>n. n\<lparr>ns_selected := length (profiles_of c1) - 1\<rparr>) c1))"

text \<open>The new list and where each node went; \<open>None\<close> when the command does nothing.\<close>

definition list_swap :: "nat \<Rightarrow> nat \<Rightarrow> 'a list \<Rightarrow> 'a list" where
  "list_swap i j xs = xs[i := xs ! j, j := xs ! i]"

definition rearrange :: "list_command \<Rightarrow> nat \<Rightarrow> 'a list \<Rightarrow> ('a list \<times> (nat \<Rightarrow> nat)) option" where
  "rearrange cmd i ps =
     (let swapped = (\<lambda>j. Some (list_swap i j ps, (\<lambda>k. if k = i then j else if k = j then i else k))) in
      case cmd of
        MoveUp \<Rightarrow> if 0 < i then swapped (i - 1) else None
      | MoveDown \<Rightarrow> if i + 1 < length ps then swapped (i + 1) else None
      | Duplicate \<Rightarrow> Some (take (i + 1) ps @ [ps ! i] @ drop (i + 1) ps, (\<lambda>k. if i < k then k + 1 else k))
      | Delete \<Rightarrow> if length ps = 1 then None
          else Some (take i ps @ drop (i + 1) ps, (\<lambda>k. if i < k then k - 1 else min k (length ps - 2))))"

definition node_command :: "effects \<Rightarrow> nat \<Rightarrow> list_command \<Rightarrow> controller \<Rightarrow> controller \<times> changes" where
  "node_command e i cmd c =
     (if length (profiles_of c) \<le> i then (c, no_changes)
      else case rearrange cmd i (profiles_of c) of
        None \<Rightarrow> (c, no_changes)
      | Some (ps, remap) \<Rightarrow>
          let active = active_of c;
              selected = selected_of c;
              c1 = set_working_active (remap active) (with_profiles (\<lambda>_. ps) c);
              x = (if cmd = Duplicate then and_also (with_nodes (\<lambda>n. n\<lparr>ns_selected := i + 1\<rparr>) c1, ch_or OVERVIEW NODES) load_selected
                   else if cmd = Delete \<and> selected = i
                   then and_also (with_nodes (\<lambda>n. n\<lparr>ns_selected := remap selected\<rparr>) c1, ch_or OVERVIEW NODES) load_selected
                   else (with_nodes (\<lambda>n. n\<lparr>ns_selected := remap selected\<rparr>) c1, ch_or OVERVIEW NODES))
          in if cmd = Delete \<and> i = active \<and> ct_connected (fst x)
             then
               let incomplete = (case selected_profile (ct_gui (fst x)) of None \<Rightarrow> True | Some p \<Rightarrow> missing_fields p \<noteq> []);
                   y = (if incomplete then and_also x (toggle_connection e) else x)
               in and_also y (start_active e)
             else x)"

definition commit_draft :: "controller \<Rightarrow> controller \<times> changes" where
  "commit_draft c =
     (let d = ns_draft (ct_nodes c);
          c1 = with_nodes (\<lambda>n. n\<lparr>ns_errors := draft_errors d\<rparr>) c;
          i = selected_of c
      in if i < length (profiles_of c)
         then (let old = profiles_of c ! i;
                   new = draft_apply d old;
                   c2 = with_profiles (\<lambda>ps. ps[i := new]) c1
               in (c2, if new \<noteq> old \<and> i = active_of c then ch_or NODES OVERVIEW else NODES))
         else (c1, NODES))"

definition edit_node :: "draft_field \<Rightarrow> string \<Rightarrow> controller \<Rightarrow> controller \<times> changes" where
  "edit_node f value c =
     (case commit_draft (with_nodes (\<lambda>n. n\<lparr>ns_draft := draft_set f value (ns_draft n)\<rparr>) c) of
        (c', ch) \<Rightarrow> (c', if f = DfProtocol \<or> f = DfMethod then ch_or ch EDITOR else ch))"

definition set_active_node :: "effects \<Rightarrow> controller \<Rightarrow> controller \<times> changes" where
  "set_active_node e c =
     (let i = selected_of c in
      if i < length (profiles_of c)
      then (let missing = missing_fields (profiles_of c ! i) in
            if missing \<noteq> [] then set_notice (MissingFields missing) c
            else let x = (set_working_active i c, ch_or OVERVIEW NODES) in
              if ct_connected c then and_also x (start_active e) else x)
      else (c, no_changes))"

fun import_lines :: "control_env \<Rightarrow> string list \<Rightarrow> proxy_profile list \<times> nat" where
  "import_lines v [] = ([], 0)"
| "import_lines v (l # ls) =
     (case import_lines v ls of (ps, skipped) \<Rightarrow>
        (case import_share_link (ce_url_parse v) (ce_engines v) l of
           Inr i \<Rightarrow> (apply_to i profile_default # ps, skipped)
         | Inl _ \<Rightarrow> (ps, Suc skipped)))"

definition import_text :: "control_env \<Rightarrow> string \<Rightarrow> controller \<Rightarrow> controller \<times> changes" where
  "import_text v text c =
     (let first = length (profiles_of c);
          (added, skipped) = import_lines v (filter (\<lambda>l. l \<noteq> []) (map trim (str_lines text)));
          c1 = with_profiles (\<lambda>ps. ps @ added) c
      in if added = []
         then set_notice (ImportFailed (Told (if skipped = 0 then ''the clipboard holds no link''
                else ''no line is a valid juicity:// or ss:// link''))) c1
         else and_also (load_selected (with_nodes (\<lambda>n. n\<lparr>ns_selected := first\<rparr>) c1))
                (set_notice (if skipped = 0 then Imported else ImportPartial (length added) skipped)))"

definition import_links :: "control_env \<Rightarrow> effects \<Rightarrow> controller \<Rightarrow> controller \<times> changes" where
  "import_links v e c =
     (let c1 = call CallPaste c in
      case fx_paste e of
        Inr text \<Rightarrow> import_text v text c1
      | Inl err \<Rightarrow> set_notice (ImportFailed err) c1)"

definition share_link :: "control_env \<Rightarrow> controller \<Rightarrow> (notice + string) option" where
  "share_link v c =
     (if ns_errors (ct_nodes c) \<noteq> [] then Some (Inl ExportInvalid)
      else if selected_of c < length (profiles_of c)
      then Some (map_err (\<lambda>err. ExportFailed (Linking err)) (export_share_link (ce_b64 v) (ce_ser v) (profiles_of c ! selected_of c)))
      else None)"

definition export_link :: "control_env \<Rightarrow> effects \<Rightarrow> controller \<Rightarrow> controller \<times> changes" where
  "export_link v e c =
     (case share_link v c of
        Some (Inr link) \<Rightarrow>
          (case fx_copy e link of
             None \<Rightarrow> set_notice LinkCopied (call (CallCopy link) c)
           | Some err \<Rightarrow> set_notice (ExportFailed err) (call (CallCopy link) c))
      | Some (Inl n) \<Rightarrow> set_notice n c
      | None \<Rightarrow> (c, no_changes))"

definition share_qr_code :: "control_env \<Rightarrow> effects \<Rightarrow> controller \<Rightarrow> controller \<times> changes" where
  "share_qr_code v e c =
     (case share_link v c of
        Some (Inr link) \<Rightarrow>
          (case fx_qr e link of
             None \<Rightarrow> (with_nodes (\<lambda>n. n\<lparr>ns_qr := Some link\<rparr>) c, NODES)
           | Some err \<Rightarrow> set_notice (ExportFailed err) c)
      | Some (Inl n) \<Rightarrow> set_notice n c
      | None \<Rightarrow> (c, no_changes))"

definition close_qr_code :: "controller \<Rightarrow> controller \<times> changes" where
  "close_qr_code c = (with_nodes (\<lambda>n. n\<lparr>ns_qr := None\<rparr>) c, NODES)"

definition open_advanced :: "controller \<Rightarrow> controller \<times> changes" where
  "open_advanced c = (with_nodes (\<lambda>n. n\<lparr>ns_advanced := Some (ns_draft n), ns_advanced_errors := []\<rparr>) c, NODES)"

definition edit_advanced :: "draft_field \<Rightarrow> string \<Rightarrow> controller \<Rightarrow> controller \<times> changes" where
  "edit_advanced f value c =
     (case ns_advanced (ct_nodes c) of
        None \<Rightarrow> (c, no_changes)
      | Some sheet \<Rightarrow>
          let sheet' = draft_set f value sheet in
          (with_nodes (\<lambda>n. n\<lparr>ns_advanced := Some sheet',
             ns_advanced_errors := filter (\<lambda>(g, _). g = DfTimeout) (draft_errors sheet')\<rparr>) c, NODES))"

definition commit_advanced :: "controller \<Rightarrow> controller \<times> changes" where
  "commit_advanced c =
     (if ns_advanced_errors (ct_nodes c) \<noteq> [] then (c, no_changes)
      else case ns_advanced (ct_nodes c) of
        None \<Rightarrow> (c, no_changes)
      | Some sheet \<Rightarrow>
          and_also (commit_draft (with_nodes (\<lambda>n. n\<lparr>ns_advanced := None, ns_draft := take_advanced sheet (ns_draft n)\<rparr>) c))
            (\<lambda>c. (c, EDITOR)))"

definition cancel_advanced :: "controller \<Rightarrow> controller \<times> changes" where
  "cancel_advanced c = (with_nodes (\<lambda>n. n\<lparr>ns_advanced := None, ns_advanced_errors := []\<rparr>) c, NODES)"

definition edited_profile :: "controller \<Rightarrow> proxy_profile option" where
  "edited_profile c = (if selected_of c < length (profiles_of c) then Some (profiles_of c ! selected_of c) else None)"

definition after_reload :: "proxy_profile option \<Rightarrow> controller \<Rightarrow> controller \<times> changes" where
  "after_reload edited c =
     (let c1 = with_nodes (\<lambda>n. n\<lparr>ns_selected := min (ns_selected n) (length (profiles_of c) - 1)\<rparr>) c in
      if edited_profile c1 \<noteq> edited
      then load_selected (with_nodes (\<lambda>n. n\<lparr>ns_advanced := None, ns_advanced_errors := []\<rparr>) c1)
      else (c1, NODES))"

section \<open>System proxy and PAC\<close>

definition restart_pac_server :: "control_env \<Rightarrow> effects \<Rightarrow> bool \<Rightarrow> controller \<Rightarrow> controller \<times> (reason + unit)" where
  "restart_pac_server v e force_restart c =
     (let (direct, proxy) = load_rules (cp_config_dir (pv_paths (ce_persist v))) (ct_files c);
          content = generate_pac (ac_pac_rule_mode (config_of c)) (ac_mixed_listen (config_of c)) direct proxy;
          listen = ac_pac_listen (config_of c)
      in case ct_pac c of
           Some srv \<Rightarrow>
             if force_restart
             then (let c1 = (if ps_listen srv = listen then c\<lparr>ct_pac := None\<rparr> else c) in
                   case pac_start listen content (fx_bind e listen) True of
                     None \<Rightarrow> (c1, Inl (Told ''bind''))
                   | Some new \<Rightarrow> (c1\<lparr>ct_pac := Some new\<rparr>, Inr ()))
             else (c\<lparr>ct_pac := Some (pac_update content srv)\<rparr>, Inr ())
         | None \<Rightarrow>
             (case pac_start listen content (fx_bind e listen) True of
                None \<Rightarrow> (c, Inl (Told ''bind''))
              | Some new \<Rightarrow> (c\<lparr>ct_pac := Some new\<rparr>, Inr ())))"

text \<open>Applying the system proxy and reporting a failure.\<close>

definition apply_proxy :: "effects \<Rightarrow> controller \<Rightarrow> controller \<times> changes" where
  "apply_proxy e c =
     (let c1 = call (CallProxy (config_of c)) c in
      case fx_proxy e (config_of c) of
        None \<Rightarrow> (c1, no_changes)
      | Some err \<Rightarrow> set_notice (ProxyFailed err) c1)"

definition set_proxy_mode :: "effects \<Rightarrow> system_proxy_mode \<Rightarrow> controller \<Rightarrow> controller \<times> changes" where
  "set_proxy_mode e mode c =
     (if ac_system_proxy_mode (config_of c) = mode then (c, no_changes)
      else and_also (and_also (with_config (\<lambda>k. k\<lparr>ac_system_proxy_mode := mode\<rparr>) c, OVERVIEW) (mark_dirty CfApp (fx_now e)))
             (apply_proxy e))"

definition set_pac_rule :: "control_env \<Rightarrow> effects \<Rightarrow> pac_rule_mode \<Rightarrow> controller \<Rightarrow> controller \<times> changes" where
  "set_pac_rule v e rule c =
     (if ac_pac_rule_mode (config_of c) = rule then (c, no_changes)
      else and_also (fst (restart_pac_server v e False (with_config (\<lambda>k. k\<lparr>ac_pac_rule_mode := rule\<rparr>) c)), OVERVIEW)
             (mark_dirty CfApp (fx_now e)))"

text \<open>\<open>age\<close>: \<open>rules_age_hours\<close> of the configuration directory.\<close>

definition rules_overdue :: "nat option \<Rightarrow> controller \<Rightarrow> bool" where
  "rules_overdue age c =
     (let hours = unat (ac_pac_auto_update_hours (config_of c)) in
      0 < hours \<and> (case age of None \<Rightarrow> True | Some a \<Rightarrow> hours \<le> a))"

text \<open>A rule job: the two URLs.\<close>

definition begin_rules :: "controller \<Rightarrow> controller \<times> (string \<times> string) option" where
  "begin_rules c =
     (if ct_rules_updating c then (c, None)
      else (c\<lparr>ct_rules_updating := True\<rparr>, Some (ac_pac_direct_url (config_of c), ac_pac_proxy_url (config_of c))))"

definition update_rules :: "controller \<Rightarrow> controller \<times> changes \<times> (string \<times> string) option" where
  "update_rules c = (case begin_rules c of (c', job) \<Rightarrow> (c', if job \<noteq> None then OVERVIEW else no_changes, job))"

definition finish_rules :: "control_env \<Rightarrow> effects \<Rightarrow> reason option \<Rightarrow> controller \<Rightarrow> controller \<times> changes" where
  "finish_rules v e failure c =
     (let c1 = c\<lparr>ct_rules_updating := False\<rparr> in
      case failure of
        None \<Rightarrow> and_also (fst (restart_pac_server v e False c1), OVERVIEW) (set_notice RulesUpdated)
      | Some err \<Rightarrow> and_also (c1, OVERVIEW) (set_notice (RulesFailed err)))"

definition copy_pac_url :: "effects \<Rightarrow> controller \<Rightarrow> controller \<times> changes" where
  "copy_pac_url e c =
     (let url = effective_pac_url (config_of c); c1 = call (CallCopy url) c in
      case fx_copy e url of None \<Rightarrow> set_notice LinkCopied c1 | Some _ \<Rightarrow> (c1, no_changes))"

section \<open>Start, exit, reload\<close>

definition startup_connection :: "effects \<Rightarrow> controller \<Rightarrow> controller \<times> changes" where
  "startup_connection e c =
     (if (case rn_startup_connection_state (runtime_of c) of
            StartOff \<Rightarrow> False | StartOn \<Rightarrow> True | LastState \<Rightarrow> rn_was_running (runtime_of c))
      then start_active e c else (c, no_changes))"

definition startup :: "control_env \<Rightarrow> effects \<Rightarrow> nat option \<Rightarrow> controller \<Rightarrow> controller \<times> changes \<times> (string \<times> string) option" where
  "startup v e age c =
     (let x = and_also (fst (restart_pac_server v e True c), OVERVIEW) (startup_connection e);
          y = (if ac_system_proxy_mode (config_of (fst x)) \<noteq> ProxyDisable then and_also x (apply_proxy e) else x)
      in if rules_overdue age (fst y)
         then (case begin_rules (fst y) of (c', job) \<Rightarrow> (c', snd y, job))
         else (fst y, snd y, None))"

definition shutdown :: "control_env \<Rightarrow> effects \<Rightarrow> controller \<Rightarrow> controller" where
  "shutdown v e c =
     (let c1 = (call CallStop c)\<lparr>ct_connected := False\<rparr>;
          c2 = (if ac_system_proxy_mode (config_of c1) \<noteq> ProxyDisable
                then call (CallProxy ((config_of c1)\<lparr>ac_system_proxy_mode := ProxyDisable\<rparr>)) c1 else c1)
      in fst (flush_all v e c2))"

definition proxy_relevant_change :: "app_config \<Rightarrow> app_config \<Rightarrow> bool" where
  "proxy_relevant_change old new =
     (ac_system_proxy_mode old \<noteq> ac_system_proxy_mode new \<or> ac_mixed_listen old \<noteq> ac_mixed_listen new
      \<or> ac_pac_listen old \<noteq> ac_pac_listen new \<or> ac_pac_mode old \<noteq> ac_pac_mode new
      \<or> ac_online_pac_url old \<noteq> ac_online_pac_url new)"

text \<open>The state after a reload, before the side effects of a new \<open>app.json\<close>.\<close>

definition take_reload :: "config_file list \<Rightarrow> bool \<Rightarrow> nat \<Rightarrow> controller \<Rightarrow> controller \<times> changes" where
  "take_reload reloaded was_dirty working_active c =
     (if \<not> was_dirty
      then (with_gui (\<lambda>g. g\<lparr>gs_profiles := (if CfProfiles \<in> set reloaded then sv_profiles (ct_saved c) else gs_profiles g),
              gs_runtime := (gs_runtime g)\<lparr>rn_selected_profile := sv_active (ct_saved c)\<rparr>\<rparr>) c, no_changes)
      else
        let c1 = set_working_active working_active c in
        if CfProfiles \<in> set reloaded \<and> list_dirty c1 then set_notice ProfilesChanged c1 else (c1, no_changes))"

definition after_app_reload :: "control_env \<Rightarrow> effects \<Rightarrow> app_config \<Rightarrow> controller \<Rightarrow> controller \<times> changes" where
  "after_app_reload v e old c =
     (case restart_pac_server v e (ac_pac_listen old \<noteq> ac_pac_listen (config_of c)) c of
        (c1, Inl err) \<Rightarrow> set_notice (ProxyFailed err) c1
      | (c1, Inr _) \<Rightarrow> if proxy_relevant_change old (config_of c1) then apply_proxy e c1 else (c1, no_changes))"

definition on_files_changed :: "control_env \<Rightarrow> effects \<Rightarrow> controller \<Rightarrow> controller \<times> changes" where
  "on_files_changed v e c =
     (let old = config_of c; edited = edited_profile c; working_active = active_of c; was_dirty = list_dirty c in
      case reload_changed (ce_persist v) (ct_files c) (fx_now e) (ct_gui c) (ct_saved c) (ct_persist c) of
        (p, g, s, reloaded) \<Rightarrow>
          let c1 = c\<lparr>ct_persist := p, ct_gui := g, ct_saved := s\<rparr>;
              ch = no_changes\<lparr>ch_persist := persist_delay (fx_now e) p \<noteq> None\<rparr>
          in if reloaded = [] then (c1, ch)
             else
               let x = and_also (c1, ch) (take_reload reloaded was_dirty working_active);
                   y = and_also (with_gui normalize_selected_index (fst x), ch_or (snd x) (ch_or OVERVIEW SETTINGS)) (after_reload edited)
               in if CfApp \<in> set reloaded then and_also y (after_app_reload v e old) else y)"

section \<open>Tray\<close>

datatype tray_event = TrayToggleConnection | TraySetProxyMode system_proxy_mode | TraySetPacRule pac_rule_mode | TrayUpdateRules
  | TraySelectNode nat | TrayImportClipboard | TrayWindow

definition activate_node :: "effects \<Rightarrow> nat \<Rightarrow> controller \<Rightarrow> controller \<times> changes" where
  "activate_node e i c =
     (if i < length (profiles_of c)
      then (let missing = missing_fields (profiles_of c ! i) in
            if missing \<noteq> [] then set_notice (MissingFields missing) c
            else if active_of c = i then (c, no_changes)
            else let x = (set_working_active i c, ch_or OVERVIEW NODES) in
              if ct_connected c then and_also x (start_active e) else x)
      else (c, no_changes))"

definition on_tray :: "control_env \<Rightarrow> effects \<Rightarrow> tray_event \<Rightarrow> controller \<Rightarrow> controller \<times> changes \<times> (string \<times> string) option" where
  "on_tray v e ev c =
     (let plain = (\<lambda>x. (fst x, snd x, None)) in
      case ev of
        TrayToggleConnection \<Rightarrow> plain (toggle_connection e c)
      | TraySetProxyMode mode \<Rightarrow> plain (set_proxy_mode e mode c)
      | TraySetPacRule rule \<Rightarrow> plain (set_pac_rule v e rule c)
      | TrayUpdateRules \<Rightarrow> update_rules c
      | TraySelectNode i \<Rightarrow> plain (activate_node e i c)
      | TrayImportClipboard \<Rightarrow> plain (import_links v e c)
      | TrayWindow \<Rightarrow> (c, no_changes, None))"

end
