(* ===== verification/Gui_Settings.thy ===== *)
theory Gui_Settings
  imports Gui_Control
begin

text \<open>
  The settings page, \<open>gui/src/ui/controller/settings.rs\<close>: the checks of the sheet's text and the
  operations that change a setting, and that a checked text can be stored.
\<close>

section \<open>Checking text\<close>

definition interval_presets :: "nat list" where "interval_presets = [6, 12, 24, 72, 168]"

definition is_interval_preset :: "u32 \<Rightarrow> bool" where
  "is_interval_preset hours = (hours = 0 \<or> unat hours \<in> set interval_presets)"

text \<open>White space is found at character boundaries only: the first byte of each of its encodings
  starts a character.\<close>

definition has_white_space :: "string \<Rightarrow> bool" where
  "has_white_space s = list_ex (\<lambda>i. ws_len white_space (drop i s) \<noteq> 0) [0..<length s]"

definition is_digit :: "char \<Rightarrow> bool" where
  "is_digit c = (48 \<le> (of_char c :: nat) \<and> (of_char c :: nat) \<le> 57)"

definition is_alnum :: "char \<Rightarrow> bool" where
  "is_alnum c = (let n = of_char c :: nat in 48 \<le> n \<and> n \<le> 57 \<or> 65 \<le> n \<and> n \<le> 90 \<or> 97 \<le> n \<and> n \<le> 122)"

definition label_ok :: "string \<Rightarrow> bool" where
  "label_ok l = (l \<noteq> [] \<and> \<not> starts_with ''-'' l \<and> last l \<noteq> CHR ''-'' \<and> list_all (\<lambda>c. is_alnum c \<or> c = CHR ''-'') l)"

definition listen_host_ok :: "string \<Rightarrow> bool" where
  "listen_host_ok host =
     (if list_all (\<lambda>c. is_digit c \<or> c = CHR ''.'') host then parse_ipv4 host \<noteq> None
      else list_all label_ok (split_on (CHR ''.'') host))"

definition listen_parts :: "string \<Rightarrow> (string \<times> string) option" where
  "listen_parts text =
     (case strip_prefix ''['' text of
        Some rest \<Rightarrow>
          (case find_sub '']:'' rest of
             Some pos \<Rightarrow> if parse_ipv6 (take pos rest) \<noteq> None
                         then Some (''['' @ take pos rest @ '']'', drop (pos + 2) rest) else None
           | None \<Rightarrow> None)
      | None \<Rightarrow>
          (case rsplit_once (CHR '':'') text of
             Some (host, port) \<Rightarrow> if listen_host_ok host then Some (host, port) else None
           | None \<Rightarrow> None))"

definition parse_listen :: "string \<Rightarrow> string option" where
  "parse_listen text =
     (if has_white_space text then None
      else Option.bind (listen_parts text) (\<lambda>(host, port).
        if port = [] \<or> \<not> list_all is_digit port then None
        else case parse_u16 port of
          Some n \<Rightarrow> if n = 0 then None else Some (host @ '':'' @ dec_str (unat n))
        | None \<Rightarrow> None))"

definition http_url :: "(string \<Rightarrow> url option) \<Rightarrow> string \<Rightarrow> setting_error + string" where
  "http_url url_parse text =
     (case url_parse text of
        Some u \<Rightarrow> if url_scheme u \<in> {''http'', ''https''} \<and> url_host u \<noteq> None then Inr text else Inl SeUrl
      | None \<Rightarrow> Inl SeUrl)"

definition validate :: "(string \<Rightarrow> url option) \<Rightarrow> setting_key \<Rightarrow> string \<Rightarrow> setting_error + string" where
  "validate url_parse key input =
     (let text = trim input in
      case key of
        MixedPort \<Rightarrow> (case parse_u16 text of
            Some port \<Rightarrow> if port = 0 then Inl SePort else Inr (dec_str (unat port)) | None \<Rightarrow> Inl SePort)
      | PacListen \<Rightarrow> ok_or SeListenAddress (parse_listen text)
      | DirectUrl \<Rightarrow> http_url url_parse text
      | ProxyUrl \<Rightarrow> http_url url_parse text
      | OnlinePacUrl \<Rightarrow> if text = [] then Inr [] else http_url url_parse text
      | UpdateHours \<Rightarrow> (case parse_uint 10 (2 ^ 32) text of
            Some hours \<Rightarrow> if 1 \<le> hours then Inr (dec_str hours) else Inl SeHours | None \<Rightarrow> Inl SeHours))"

section \<open>Operations\<close>

definition runtime_setting :: "effects \<Rightarrow> bool \<Rightarrow> (runtime_state \<Rightarrow> runtime_state) \<Rightarrow> controller \<Rightarrow> controller \<times> changes" where
  "runtime_setting e same f c =
     (if same then (c, SETTINGS) else and_also (with_runtime f c, SETTINGS) (mark_dirty CfRuntime (fx_now e)))"

definition set_language :: "effects \<Rightarrow> language_preference \<Rightarrow> controller \<Rightarrow> controller \<times> changes" where
  "set_language e l c = runtime_setting e (rn_language (runtime_of c) = l) (\<lambda>r. r\<lparr>rn_language := l\<rparr>) c"

definition set_appearance :: "effects \<Rightarrow> appearance_preference \<Rightarrow> controller \<Rightarrow> controller \<times> changes" where
  "set_appearance e a c = runtime_setting e (rn_appearance (runtime_of c) = a) (\<lambda>r. r\<lparr>rn_appearance := a\<rparr>) c"

text \<open>\<open>supported\<close> is \<open>autostart::SUPPORTED\<close>.\<close>

definition set_autostart :: "bool \<Rightarrow> effects \<Rightarrow> bool \<Rightarrow> controller \<Rightarrow> controller \<times> changes" where
  "set_autostart supported e enabled c =
     (if \<not> supported \<or> rn_auto_start (runtime_of c) = enabled then (c, SETTINGS)
      else
        let c1 = call (CallAutostart enabled) c in
        (case fx_autostart e enabled of
           Some err \<Rightarrow> and_also (c1, SETTINGS) (set_notice (SaveFailed err))
         | None \<Rightarrow> and_also (with_runtime (\<lambda>r. r\<lparr>rn_auto_start := enabled\<rparr>) c1, SETTINGS) (mark_dirty CfRuntime (fx_now e))))"

definition install_app_icon :: "effects \<Rightarrow> controller \<Rightarrow> controller \<times> changes" where
  "install_app_icon e c =
     and_also (call CallAppIcon c, SETTINGS)
       (set_notice (case fx_app_icon e of None \<Rightarrow> AppIconInstalled | Some err \<Rightarrow> AppIconFailed err))"

definition set_hide_on_start :: "effects \<Rightarrow> bool \<Rightarrow> controller \<Rightarrow> controller \<times> changes" where
  "set_hide_on_start e b c =
     runtime_setting e (rn_hide_window_on_startup (runtime_of c) = b) (\<lambda>r. r\<lparr>rn_hide_window_on_startup := b\<rparr>) c"

definition set_close_to_tray :: "effects \<Rightarrow> bool \<Rightarrow> controller \<Rightarrow> controller \<times> changes" where
  "set_close_to_tray e b c = runtime_setting e (rn_close_to_tray (runtime_of c) = b) (\<lambda>r. r\<lparr>rn_close_to_tray := b\<rparr>) c"

definition set_startup_connection :: "effects \<Rightarrow> startup_connection_state \<Rightarrow> controller \<Rightarrow> controller \<times> changes" where
  "set_startup_connection e s c =
     runtime_setting e (rn_startup_connection_state (runtime_of c) = s) (\<lambda>r. r\<lparr>rn_startup_connection_state := s\<rparr>) c"

definition reapply_pac_proxy :: "effects \<Rightarrow> controller \<Rightarrow> controller \<times> changes" where
  "reapply_pac_proxy e c = (if ac_system_proxy_mode (config_of c) \<noteq> ProxyPac then (c, no_changes) else apply_proxy e c)"

definition set_pac_source :: "effects \<Rightarrow> pac_mode \<Rightarrow> controller \<Rightarrow> controller \<times> changes" where
  "set_pac_source e mode c =
     (if ac_pac_mode (config_of c) = mode then (c, SETTINGS)
      else and_also (and_also (with_config (\<lambda>k. k\<lparr>ac_pac_mode := mode\<rparr>) c, ch_or OVERVIEW SETTINGS) (mark_dirty CfApp (fx_now e)))
             (reapply_pac_proxy e))"

definition set_update_hours :: "effects \<Rightarrow> u32 \<Rightarrow> controller \<Rightarrow> controller \<times> changes" where
  "set_update_hours e hours c =
     (if ac_pac_auto_update_hours (config_of c) = hours then (c, SETTINGS)
      else and_also (with_config (\<lambda>k. k\<lparr>ac_pac_auto_update_hours := hours\<rparr>) c, SETTINGS) (mark_dirty CfApp (fx_now e)))"

definition open_setting :: "setting_key \<Rightarrow> controller \<Rightarrow> controller \<times> changes" where
  "open_setting key c =
     (let k = config_of c;
          show = (\<lambda>draft. (c\<lparr>ct_sheet := Some \<lparr>sh_key = key, sh_draft = draft, sh_error = None\<rparr>\<rparr>, SETTINGS))
      in case key of
           MixedPort \<Rightarrow> show (dec_str (unat (snd (split_host_port (ac_mixed_listen k)))))
         | DirectUrl \<Rightarrow> show (ac_pac_direct_url k)
         | ProxyUrl \<Rightarrow> show (ac_pac_proxy_url k)
         | UpdateHours \<Rightarrow> show (if ac_pac_auto_update_hours k = 0 then ''24'' else dec_str (unat (ac_pac_auto_update_hours k)))
         | PacListen \<Rightarrow> show (ac_pac_listen k)
         | OnlinePacUrl \<Rightarrow> if ac_pac_mode k \<noteq> PacOnline then (c, no_changes) else show (opt_text (ac_online_pac_url k)))"

definition edit_setting :: "control_env \<Rightarrow> string \<Rightarrow> controller \<Rightarrow> controller \<times> changes" where
  "edit_setting v text c =
     (case ct_sheet c of
        None \<Rightarrow> (c, no_changes)
      | Some sheet \<Rightarrow>
          (c\<lparr>ct_sheet := Some (sheet\<lparr>sh_draft := text,
             sh_error := (case validate (ce_url_parse v) (sh_key sheet) text of Inl err \<Rightarrow> Some err | Inr _ \<Rightarrow> None)\<rparr>)\<rparr>, SETTINGS))"

definition cancel_setting :: "controller \<Rightarrow> controller \<times> changes" where
  "cancel_setting c = (if ct_sheet c \<noteq> None then (c\<lparr>ct_sheet := None\<rparr>, SETTINGS) else (c, no_changes))"

definition apply_listen_change :: "control_env \<Rightarrow> effects \<Rightarrow> controller \<Rightarrow> controller \<times> changes" where
  "apply_listen_change v e c =
     (let x = (case restart_pac_server v e False c of
                 (c1, Inl err) \<Rightarrow> and_also (c1, OVERVIEW) (set_notice (ProxyFailed err))
               | (c1, Inr _) \<Rightarrow> (c1, OVERVIEW));
          y = (if ac_system_proxy_mode (config_of (fst x)) \<noteq> ProxyDisable then and_also x (apply_proxy e) else x)
      in if ct_connected (fst y) then and_also y (start_active e) else y)"

definition change_pac_listen :: "control_env \<Rightarrow> effects \<Rightarrow> string \<Rightarrow> controller \<Rightarrow> controller \<times> changes" where
  "change_pac_listen v e listen c =
     (case restart_pac_server v e True (with_config (\<lambda>k. k\<lparr>ac_pac_listen := listen\<rparr>) c) of
        (c1, Inl err) \<Rightarrow> set_notice (ProxyFailed err) (with_config (\<lambda>k. k\<lparr>ac_pac_listen := ac_pac_listen (config_of c)\<rparr>) c1)
      | (c1, Inr _) \<Rightarrow> and_also (and_also (c1, OVERVIEW) (mark_dirty CfApp (fx_now e))) (reapply_pac_proxy e))"

text \<open>Storing a text in the configuration.\<close>

definition store_setting :: "effects \<Rightarrow> bool \<Rightarrow> (app_config \<Rightarrow> app_config) \<Rightarrow> controller \<Rightarrow> controller \<times> changes" where
  "store_setting e unchanged f c =
     (if unchanged then (c, SETTINGS) else and_also (with_config f c, SETTINGS) (mark_dirty CfApp (fx_now e)))"

definition commit_setting :: "control_env \<Rightarrow> effects \<Rightarrow> controller \<Rightarrow> controller \<times> changes" where
  "commit_setting v e c =
     (case ct_sheet c of
        None \<Rightarrow> (c, no_changes)
      | Some sheet \<Rightarrow>
          (case validate (ce_url_parse v) (sh_key sheet) (sh_draft sheet) of
             Inl err \<Rightarrow> (c\<lparr>ct_sheet := Some (sheet\<lparr>sh_error := Some err\<rparr>)\<rparr>, SETTINGS)
           | Inr value \<Rightarrow>
               let c1 = c\<lparr>ct_sheet := None\<rparr>; k = config_of c in
               (case sh_key sheet of
                  MixedPort \<Rightarrow>
                    let listen = format_host_port (fst (split_host_port (ac_mixed_listen k))) (port_or_zero value) in
                    if listen = ac_mixed_listen k then (c1, SETTINGS)
                    else and_also (and_also (with_config (\<lambda>k. k\<lparr>ac_mixed_listen := listen\<rparr>) c1, SETTINGS) (mark_dirty CfApp (fx_now e)))
                           (apply_listen_change v e)
                | DirectUrl \<Rightarrow> store_setting e (ac_pac_direct_url k = value) (\<lambda>k. k\<lparr>ac_pac_direct_url := value\<rparr>) c1
                | ProxyUrl \<Rightarrow> store_setting e (ac_pac_proxy_url k = value) (\<lambda>k. k\<lparr>ac_pac_proxy_url := value\<rparr>) c1
                | UpdateHours \<Rightarrow>
                    let hours = (case parse_uint 10 (2 ^ 32) value of Some n \<Rightarrow> word_of_nat n | None \<Rightarrow> 0) in
                    store_setting e (ac_pac_auto_update_hours k = hours) (\<lambda>k. k\<lparr>ac_pac_auto_update_hours := hours\<rparr>) c1
                | PacListen \<Rightarrow>
                    if ac_pac_listen k = value then (c1, SETTINGS)
                    else and_also (c1, SETTINGS) (change_pac_listen v e value)
                | OnlinePacUrl \<Rightarrow>
                    let url = (if value = [] then None else Some value) in
                    if ac_online_pac_url k = url then (c1, SETTINGS)
                    else and_also (and_also (with_config (\<lambda>k. k\<lparr>ac_online_pac_url := url\<rparr>) c1, ch_or OVERVIEW SETTINGS)
                           (mark_dirty CfApp (fx_now e))) (reapply_pac_proxy e))))"

section \<open>Checked texts\<close>

text \<open>\<^bold>\<open>C36.\<close>  A checked setting has the type that is stored: a text that passes the check is a port from 1 to 65535, a
  number of hours from 1 that fits 32 bits, an address that ends with such a port, or a web address with
  a host (or nothing, for the online script), so that reading it back when it is stored cannot fail.\<close>

theorem settings_well_typed:
  assumes "validate url_parse key text = Inr checked"
  shows "case key of
      MixedPort \<Rightarrow> (\<exists>p. p \<noteq> 0 \<and> parse_u16 checked = Some p \<and> checked = dec_str (unat p))
    | UpdateHours \<Rightarrow> (\<exists>n. 1 \<le> n \<and> n < 2 ^ 32 \<and> parse_uint 10 (2 ^ 32) checked = Some n)
    | PacListen \<Rightarrow> (\<exists>host (p :: u16). p \<noteq> 0 \<and> checked = host @ '':'' @ dec_str (unat p) \<and> rsplit_once (CHR '':'') checked = Some (host, dec_str (unat p)))
    | OnlinePacUrl \<Rightarrow> checked = [] \<or> (\<exists>u. url_parse checked = Some u \<and> url_scheme u \<in> {''http'', ''https''} \<and> url_host u \<noteq> None)
    | _ \<Rightarrow> (\<exists>u. url_parse checked = Some u \<and> url_scheme u \<in> {''http'', ''https''} \<and> url_host u \<noteq> None)"
proof (cases key)
  case MixedPort
  then show ?thesis using assms by (auto simp: validate_def Let_def parse_u16_dec_str split: option.splits if_splits)
next
  case UpdateHours
  then obtain n where n: "parse_uint 10 (2 ^ 32) (trim text) = Some n" "1 \<le> n" "checked = dec_str n"
    using assms by (auto simp: validate_def Let_def split: option.splits if_splits)
  have "n < 2 ^ 32" using n(1) by (auto simp: parse_uint_def Let_def split: option.splits if_splits prod.splits)
  then show ?thesis using n UpdateHours by (simp add: dec_str_def parse_uint_radix_str)
next
  case PacListen
  then have "parse_listen (trim text) = Some checked" using assms by (cases "parse_listen (trim text)") (auto simp: validate_def Let_def)
  then obtain host p where h: "p \<noteq> 0" "checked = host @ '':'' @ dec_str (unat (p :: u16))"
    by (auto simp: parse_listen_def split: if_splits option.splits bind_splits)
  have "CHR '':'' \<notin> set (dec_str (unat p))" using dec_str_no_char by blast
  then have "rsplit_once (CHR '':'') checked = Some (host, dec_str (unat p))" by (simp add: h(2) rsplit_once_def rfind_char_append)
  with h have "\<exists>host p. p \<noteq> 0 \<and> checked = host @ '':'' @ dec_str (unat (p :: u16)) \<and> rsplit_once (CHR '':'') checked = Some (host, dec_str (unat p))" by blast
  then show ?thesis by (simp only: PacListen setting_key.case)
qed (use assms in \<open>auto simp: validate_def http_url_def Let_def split: option.splits if_splits\<close>)

theorem settings_well_typed_witness: "\<exists>p. p \<noteq> 0 \<and> parse_u16 ''1080'' = Some p"
proof -
  have t: "trim ''1080'' = ''1080''" by (simp add: trim_visible visible_text)
  have d: "dec_str 1080 = ''1080''" by code_simp
  have p: "parse_u16 ''1080'' = Some 1080" using parse_u16_dec_str [of 1080] d by simp
  have "validate (\<lambda>_. None) MixedPort ''1080'' = Inr ''1080''" by (simp add: validate_def t p d)
  from settings_well_typed [OF this] show ?thesis unfolding setting_key.case by blast
qed

end
