(* ===== verification/Gui_Safety.thy ===== *)
theory Gui_Safety
  imports Gui_Settings
begin

text \<open>
  The controller as a whole: the type of its operations, with the writes of other programs to its files, the
  invariant that all of them keep, what
  reaches the disk, what \<open>Changes\<close> promises, and saving.
\<close>

section \<open>Operations\<close>

text \<open>\<open>OpOutside\<close> is another program that writes or removes a file.\<close>

datatype gui_op = OpDismiss | OpExpire u64 | OpFlushDue | OpFilesChanged | OpSave | OpRevert | OpLeave leave | OpAnswer answer
  | OpToggle | OpPoll | OpSelect nat | OpAdd string | OpCommand nat list_command | OpEdit draft_field string | OpSetActive
  | OpImport | OpExport | OpShareQr | OpCloseQr | OpOpenAdvanced | OpEditAdvanced draft_field string | OpCommitAdvanced
  | OpCancelAdvanced | OpProxyMode system_proxy_mode | OpPacRule pac_rule_mode | OpUpdateRules | OpFinishRules "reason option"
  | OpCopyPacUrl | OpTray tray_event | OpLanguage language_preference | OpAppearance appearance_preference
  | OpAutostart bool bool | OpAppIcon | OpHideOnStart bool | OpCloseToTray bool | OpStartupConnection startup_connection_state
  | OpPacSource pac_mode | OpUpdateHours u32 | OpOpenSetting setting_key | OpEditSetting string | OpCancelSetting | OpCommitSetting
  | OpStartup "nat option" | OpShutdown | OpOutside string "entry option"

definition drop_result :: "controller \<times> changes \<times> 'a \<Rightarrow> controller \<times> changes" where
  "drop_result x = (fst x, fst (snd x))"

fun gui_do :: "control_env \<Rightarrow> effects \<Rightarrow> gui_op \<Rightarrow> controller \<Rightarrow> controller \<times> changes" where
  "gui_do v e OpDismiss c = dismiss_notice c"
| "gui_do v e (OpExpire n) c = expire_notice n c"
| "gui_do v e OpFlushDue c = flush_due v e c"
| "gui_do v e OpFilesChanged c = on_files_changed v e c"
| "gui_do v e OpSave c = save_nodes v e c"
| "gui_do v e OpRevert c = revert_nodes c"
| "gui_do v e (OpLeave l) c = drop_result (request_leave l c)"
| "gui_do v e (OpAnswer a) c = drop_result (answer_prompt v e a c)"
| "gui_do v e OpToggle c = toggle_connection e c"
| "gui_do v e OpPoll c = poll_core e c"
| "gui_do v e (OpSelect i) c = select_node i c"
| "gui_do v e (OpAdd name) c = add_node name c"
| "gui_do v e (OpCommand i cmd) c = node_command e i cmd c"
| "gui_do v e (OpEdit f t) c = edit_node f t c"
| "gui_do v e OpSetActive c = set_active_node e c"
| "gui_do v e OpImport c = import_links v e c"
| "gui_do v e OpExport c = export_link v e c"
| "gui_do v e OpShareQr c = share_qr_code v e c"
| "gui_do v e OpCloseQr c = close_qr_code c"
| "gui_do v e OpOpenAdvanced c = open_advanced c"
| "gui_do v e (OpEditAdvanced f t) c = edit_advanced f t c"
| "gui_do v e OpCommitAdvanced c = commit_advanced c"
| "gui_do v e OpCancelAdvanced c = cancel_advanced c"
| "gui_do v e (OpProxyMode m) c = set_proxy_mode e m c"
| "gui_do v e (OpPacRule r) c = set_pac_rule v e r c"
| "gui_do v e OpUpdateRules c = drop_result (update_rules c)"
| "gui_do v e (OpFinishRules r) c = finish_rules v e r c"
| "gui_do v e OpCopyPacUrl c = copy_pac_url e c"
| "gui_do v e (OpTray ev) c = drop_result (on_tray v e ev c)"
| "gui_do v e (OpLanguage l) c = set_language e l c"
| "gui_do v e (OpAppearance a) c = set_appearance e a c"
| "gui_do v e (OpAutostart s b) c = set_autostart s e b c"
| "gui_do v e OpAppIcon c = install_app_icon e c"
| "gui_do v e (OpHideOnStart b) c = set_hide_on_start e b c"
| "gui_do v e (OpCloseToTray b) c = set_close_to_tray e b c"
| "gui_do v e (OpStartupConnection s) c = set_startup_connection e s c"
| "gui_do v e (OpPacSource m) c = set_pac_source e m c"
| "gui_do v e (OpUpdateHours h) c = set_update_hours e h c"
| "gui_do v e (OpOpenSetting k) c = open_setting k c"
| "gui_do v e (OpEditSetting t) c = edit_setting v t c"
| "gui_do v e OpCancelSetting c = cancel_setting c"
| "gui_do v e OpCommitSetting c = commit_setting v e c"
| "gui_do v e (OpStartup age) c = drop_result (startup v e age c)"
| "gui_do v e OpShutdown c = (shutdown v e c, no_changes)"
| "gui_do v e (OpOutside path x) c = (c\<lparr>ct_files := (ct_files c)(path := x)\<rparr>, no_changes)"

definition gui_run :: "control_env \<Rightarrow> (effects \<times> gui_op) list \<Rightarrow> controller \<Rightarrow> controller" where
  "gui_run v ops c = fold (\<lambda>(e, op) c. fst (gui_do v e op c)) ops c"

text \<open>The operations that may write the node list.\<close>

definition saves_nodes :: "gui_op \<Rightarrow> bool" where
  "saves_nodes op = (op = OpSave \<or> op = OpAnswer AnswerSave)"

section \<open>The invariant\<close>

definition control_inv :: "controller \<Rightarrow> bool" where
  "control_inv c = (active_of c < length (profiles_of c) \<and> selected_of c < length (profiles_of c)
     \<and> sv_active (ct_saved c) < length (sv_profiles (ct_saved c))
     \<and> (ct_connected c \<longrightarrow> ns_started_with (ct_nodes c) \<noteq> None)
     \<and> \<not> pe_dirty (ct_persist c) CfProfiles)"

text \<open>The parts of the state that the invariant looks at.\<close>

definition inv_view :: "controller \<Rightarrow> proxy_profile list \<times> nat \<times> nat \<times> saved_nodes \<times> bool \<times> bool \<times> bool" where
  "inv_view c = (profiles_of c, active_of c, selected_of c, ct_saved c, ct_connected c,
     ns_started_with (ct_nodes c) = None, pe_dirty (ct_persist c) CfProfiles)"

lemma control_inv_view: "inv_view c' = inv_view c \<Longrightarrow> control_inv c' \<longleftrightarrow> control_inv c"
  by (simp add: inv_view_def control_inv_def)

named_theorems control \<open>what the building blocks of the controller do to its parts\<close>

lemma with_fields [control]:
  "ct_gui (with_nodes f c) = ct_gui c" "ct_nodes (with_gui g c) = ct_nodes c" "ct_saved (with_nodes f c) = ct_saved c"
  "ct_saved (with_gui g c) = ct_saved c" "ct_connected (with_nodes f c) = ct_connected c" "ct_connected (with_gui g c) = ct_connected c"
  "ct_persist (with_nodes f c) = ct_persist c" "ct_persist (with_gui g c) = ct_persist c" "ct_files (with_nodes f c) = ct_files c"
  "ct_files (with_gui g c) = ct_files c" "ct_gui (with_gui g c) = g (ct_gui c)" "ct_nodes (with_nodes f c) = f (ct_nodes c)"
  "ct_notice (with_gui g c) = ct_notice c" "ct_notice (with_nodes f c) = ct_notice c" "ct_leave (with_gui g c) = ct_leave c"
  "ct_leave (with_nodes f c) = ct_leave c" "ct_sheet (with_gui g c) = ct_sheet c" "ct_sheet (with_nodes f c) = ct_sheet c"
  "ct_rules_updating (with_gui g c) = ct_rules_updating c" "ct_rules_updating (with_nodes f c) = ct_rules_updating c"
  "ct_calls (with_gui g c) = ct_calls c" "ct_calls (with_nodes f c) = ct_calls c"
  by (simp_all add: with_nodes_def with_gui_def)

lemmas gui_parts [control] = with_runtime_def with_config_def with_profiles_def set_working_active_def

lemma call_fields [control]:
  "ct_gui (call x c) = ct_gui c" "ct_nodes (call x c) = ct_nodes c" "ct_saved (call x c) = ct_saved c"
  "ct_connected (call x c) = ct_connected c" "ct_persist (call x c) = ct_persist c" "ct_files (call x c) = ct_files c"
  "ct_notice (call x c) = ct_notice c" "ct_leave (call x c) = ct_leave c" "ct_sheet (call x c) = ct_sheet c"
  "ct_rules_updating (call x c) = ct_rules_updating c" "ct_calls (call x c) = ct_calls c @ [x]"
  by (simp_all add: call_def)

lemma and_also_parts [control]:
  "fst (and_also x f) = fst (f (fst x))" "snd (and_also x f) = ch_or (snd x) (snd (f (fst x)))"
  by (simp_all add: and_also_def case_prod_beta)

lemma set_notice_fst [control]:
  "fst (set_notice n c) = c\<lparr>ct_notice := n, ct_notice_seq := ct_notice_seq c + 1\<rparr>" "snd (set_notice n c) = NOTICE"
  "fst (dismiss_notice c) = c\<lparr>ct_notice := NoNotice, ct_notice_seq := ct_notice_seq c + 1\<rparr>" "snd (dismiss_notice c) = NOTICE"
  by (simp_all add: set_notice_def dismiss_notice_def)

lemma mark_dirty_fst [control]:
  "fst (mark_dirty f now c) = c\<lparr>ct_persist := persist_mark f now (ct_persist c)\<rparr>" "snd (mark_dirty f now c) = PERSIST"
  by (simp_all add: mark_dirty_def)

lemma persist_mark_dirty [control]: "pe_dirty (persist_mark f now p) g \<longleftrightarrow> g = f \<or> pe_dirty p g"
  by (simp add: persist_mark_def)

lemma load_selected_parts [control]:
  "fst (load_selected c) = with_nodes (\<lambda>n. n\<lparr>ns_selected := min (selected_of c) (length (profiles_of c) - 1),
     ns_draft := draft_at (min (selected_of c) (length (profiles_of c) - 1)) (ct_gui c), ns_errors := [], ns_qr := None\<rparr>) c"
  "snd (load_selected c) = EDITOR"
  by (simp_all add: load_selected_def Let_def)

text \<open>Operations that leave the node lists, the selection and the disk alone.\<close>

definition core_known :: "controller \<Rightarrow> bool" where
  "core_known c = (ct_connected c \<longrightarrow> ns_started_with (ct_nodes c) \<noteq> None)"

definition steady :: "controller \<Rightarrow> controller \<Rightarrow> bool" where
  "steady c c' = (profiles_of c' = profiles_of c \<and> active_of c' = active_of c \<and> selected_of c' = selected_of c
     \<and> ct_saved c' = ct_saved c \<and> ct_files c' = ct_files c
     \<and> pe_dirty (ct_persist c') CfProfiles = pe_dirty (ct_persist c) CfProfiles \<and> (core_known c \<longrightarrow> core_known c'))"

lemma steady_refl [simp]: "steady c c"
  by (simp add: steady_def)

lemma steady_trans: "steady a b \<Longrightarrow> steady b c \<Longrightarrow> steady a c"
  by (simp add: steady_def)

lemma steady_inv: "steady c c' \<Longrightarrow> control_inv c \<Longrightarrow> control_inv c'"
  by (simp add: steady_def control_inv_def core_known_def)

lemma steady_notice [control]: "steady c (fst (set_notice n c'))  \<longleftrightarrow> steady c c'" "steady c (fst (dismiss_notice c')) \<longleftrightarrow> steady c c'"
  by (simp_all add: control steady_def core_known_def)

lemma steady_mark [control]: "f \<noteq> CfProfiles \<Longrightarrow> steady c (fst (mark_dirty f now c')) \<longleftrightarrow> steady c c'"
  by (simp add: control steady_def core_known_def)

lemma steady_call [control]: "steady c (call x c') \<longleftrightarrow> steady c c'"
  by (simp add: control steady_def core_known_def)

lemma steady_restart_pac: "steady c (fst (restart_pac_server v e b c))"
  by (auto simp: restart_pac_server_def steady_def core_known_def Let_def case_prod_beta split: option.split)

lemma steady_apply_proxy: "steady c (fst (apply_proxy e c))"
  by (simp add: apply_proxy_def Let_def steady_call steady_notice split: option.split)

lemma steady_start_active: "steady c (fst (start_active e c))"
  by (simp add: start_active_def Let_def steady_notice steady_def core_known_def control split: option.split)

lemma steady_toggle: "steady c (fst (toggle_connection e c))"
  using steady_start_active by (simp add: toggle_connection_def steady_def core_known_def control)

lemma steady_poll: "steady c (fst (poll_core e c))"
  by (simp add: poll_core_def Let_def steady_def core_known_def control split: option.split)

lemma steady_config [control]: "steady c (with_config f c') \<longleftrightarrow> steady c c'"
  by (simp add: steady_def core_known_def control)

lemma steady_runtime: "(\<And>r. rn_selected_profile (f r) = rn_selected_profile r) \<Longrightarrow> steady c (with_runtime f c) "
  by (simp add: steady_def core_known_def control)

lemma steady_sheet [control]: "steady c (c'\<lparr>ct_sheet := s\<rparr>) \<longleftrightarrow> steady c c'"
  by (simp add: steady_def core_known_def)

lemma steady_leave [control]: "steady c (c'\<lparr>ct_leave := l\<rparr>) \<longleftrightarrow> steady c c'"
  by (simp add: steady_def core_known_def)

lemma steady_reapply: "steady c (fst (reapply_pac_proxy e c))"
  using steady_apply_proxy by (simp add: reapply_pac_proxy_def)

lemma steady_listen_change: "steady c (fst (apply_listen_change v e c))"
proof -
  let ?r = "restart_pac_server v e False c"
  have s: "steady a (fst (apply_proxy e b))" "steady a (fst (start_active e b))" if "steady a b" for a b
    using that steady_apply_proxy steady_start_active steady_trans by blast+
  have "steady c (fst ?r)" by (rule steady_restart_pac)
  then show ?thesis
    by (cases ?r; cases "snd ?r")
      (auto simp: apply_listen_change_def Let_def and_also_parts set_notice_fst split: sum.split
        intro!: s simp: steady_notice [unfolded set_notice_fst])
qed

lemma steady_step: "steady a b \<Longrightarrow> steady a (fst (apply_proxy e b))" "steady a b \<Longrightarrow> steady a (fst (start_active e b))"
  "steady a b \<Longrightarrow> steady a (fst (reapply_pac_proxy e b))" "steady a b \<Longrightarrow> steady a (fst (restart_pac_server v e force b))"
  "steady a b \<Longrightarrow> steady a (fst (apply_listen_change v e b))" "steady a b \<Longrightarrow> steady a (fst (toggle_connection e b))"
  using steady_apply_proxy steady_start_active steady_reapply steady_restart_pac steady_listen_change steady_toggle steady_trans
  by blast+

lemma steady_runtime_setting:
  "(\<And>r. rn_selected_profile (f r) = rn_selected_profile r) \<Longrightarrow> steady c (fst (runtime_setting e same f c))"
  using steady_runtime [of f c] by (simp add: runtime_setting_def and_also_parts steady_mark)

lemma steady_change_pac_listen: "steady c (fst (change_pac_listen v e listen c))"
proof -
  let ?r = "restart_pac_server v e True (with_config (\<lambda>k. k\<lparr>ac_pac_listen := listen\<rparr>) c)"
  have r: "steady c (fst ?r)" by (rule steady_step) (simp add: steady_config)
  show ?thesis
  proof (cases ?r)
    case (Pair c1 res)
    then show ?thesis
      using r by (cases res) (auto simp: change_pac_listen_def and_also_parts steady_notice steady_config steady_mark intro: steady_step)
  qed
qed

lemma steady_store: "steady c (fst (store_setting e same f c'))  \<longleftrightarrow> steady c c'"
  by (simp add: store_setting_def and_also_parts steady_mark steady_config)

lemma steady_commit_setting: "steady c (fst (commit_setting v e c))"
proof (cases "ct_sheet c")
  case (Some sheet)
  have p: "steady c (fst (change_pac_listen v e listen (c\<lparr>ct_sheet := None\<rparr>)))" for listen
    using steady_change_pac_listen [of "c\<lparr>ct_sheet := None\<rparr>"] steady_trans [of c "c\<lparr>ct_sheet := None\<rparr>"] by (simp add: steady_sheet)
  show ?thesis
    by (cases "sh_key sheet")
      (auto simp: commit_setting_def Some Let_def and_also_parts steady_sheet steady_store steady_config steady_mark p
        split: sum.split intro!: steady_step)
qed (simp add: commit_setting_def)

text \<open>The operations that leave the lists, the selection and the disk alone.\<close>

fun steady_op :: "gui_op \<Rightarrow> bool" where
  "steady_op OpFlushDue = False"
| "steady_op OpFilesChanged = False"
| "steady_op OpSave = False"
| "steady_op OpRevert = False"
| "steady_op (OpAnswer _) = False"
| "steady_op (OpSelect _) = False"
| "steady_op (OpAdd _) = False"
| "steady_op (OpCommand _ _) = False"
| "steady_op (OpEdit _ _) = False"
| "steady_op OpSetActive = False"
| "steady_op OpImport = False"
| "steady_op OpCommitAdvanced = False"
| "steady_op OpShutdown = False"
| "steady_op (OpOutside _ _) = False"
| "steady_op (OpTray (TraySelectNode _)) = False"
| "steady_op (OpTray TrayImportClipboard) = False"
| "steady_op _ = True"

lemma steady_nodes: "(\<And>n. ns_selected (f n) = ns_selected n \<and> ns_started_with (f n) = ns_started_with n) \<Longrightarrow> steady c (with_nodes f c)"
  by (simp add: steady_def core_known_def control)

lemma steady_begin_rules: "steady c (fst (begin_rules c))"
  by (simp add: begin_rules_def steady_def core_known_def)

lemma steady_set_pac_rule: "steady c (fst (set_pac_rule v e r c))"
  by (simp add: set_pac_rule_def and_also_parts steady_mark steady_step steady_config)

lemma steady_set_proxy_mode: "steady c (fst (set_proxy_mode e m c))"
  by (simp add: set_proxy_mode_def and_also_parts steady_step steady_mark steady_config)

lemma steady_startup: "steady c (fst (startup v e age c))"
proof -
  let ?x = "and_also (fst (restart_pac_server v e True c), OVERVIEW) (startup_connection e)"
  let ?y = "if ac_system_proxy_mode (config_of (fst ?x)) \<noteq> ProxyDisable then and_also ?x (apply_proxy e) else ?x"
  have "steady c (fst ?x)"
    using steady_restart_pac [of c v e True] by (simp add: and_also_parts startup_connection_def steady_step)
  then have "steady c (fst ?y)" by (simp add: and_also_parts steady_step)
  moreover from this have "steady c (fst (begin_rules (fst ?y)))" using steady_begin_rules steady_trans by blast
  moreover have "fst (startup v e age c) = (if rules_overdue age (fst ?y) then fst (begin_rules (fst ?y)) else fst ?y)"
    unfolding startup_def Let_def case_prod_beta by (simp only: fst_conv if_distrib [of fst])
  ultimately show ?thesis by (cases "rules_overdue age (fst ?y)") simp_all
qed

lemma steady_export: "steady c (fst (export_link v e c))" "steady c (fst (share_qr_code v e c))"
proof -
  show "steady c (fst (export_link v e c))"
    by (simp add: export_link_def steady_notice steady_call split: option.split sum.split)
  have "steady c (with_nodes (\<lambda>n. n\<lparr>ns_qr := q\<rparr>) c)" for q by (rule steady_nodes) simp
  then show "steady c (fst (share_qr_code v e c))"
    by (simp add: share_qr_code_def steady_notice split: option.split sum.split)
qed

lemma steady_do: "steady_op op \<Longrightarrow> steady c (fst (gui_do v e op c))"
proof (cases op)
  case (OpTray ev)
  then show "steady_op op \<Longrightarrow> ?thesis"
    by (cases ev) (simp_all add: drop_result_def on_tray_def Let_def steady_toggle steady_set_proxy_mode steady_set_pac_rule
      update_rules_def case_prod_beta steady_begin_rules)
next
  case OpCloseQr
  then show ?thesis by (simp add: close_qr_code_def) (rule steady_nodes, simp)
next
  case OpOpenAdvanced
  then show ?thesis by (simp add: open_advanced_def) (rule steady_nodes, simp)
next
  case OpCancelAdvanced
  then show ?thesis by (simp add: cancel_advanced_def) (rule steady_nodes, simp)
next
  case (OpEditAdvanced f t)
  then show ?thesis by (auto simp: edit_advanced_def Let_def split: option.split intro!: steady_nodes)
next
  case (OpAutostart s b)
  then show ?thesis
    by (auto simp: set_autostart_def Let_def and_also_parts steady_notice steady_call steady_mark split: option.split
      intro!: steady_trans [OF _ steady_runtime])
next
  case (OpPacSource m)
  then show ?thesis by (simp add: set_pac_source_def and_also_parts steady_step steady_mark steady_config)
next
  case (OpFinishRules r)
  have "steady c (c\<lparr>ct_rules_updating := False\<rparr>)" by (simp add: steady_def core_known_def)
  then show ?thesis
    using OpFinishRules by (simp add: finish_rules_def Let_def and_also_parts steady_notice steady_step split: option.split)
qed (auto simp: expire_notice_def steady_notice drop_result_def request_leave_def steady_toggle steady_poll steady_export
    steady_set_proxy_mode steady_set_pac_rule update_rules_def case_prod_beta steady_begin_rules copy_pac_url_def Let_def steady_leave
    steady_call set_language_def set_appearance_def set_hide_on_start_def set_close_to_tray_def set_startup_connection_def
    install_app_icon_def and_also_parts set_update_hours_def steady_mark steady_config open_setting_def steady_sheet
    edit_setting_def cancel_setting_def steady_commit_setting steady_startup
    split: option.split setting_key.split intro!: steady_runtime_setting)

section \<open>List operations\<close>

text \<open>Where the nodes go: a node keeps its identity under the map that comes with the new list, and
  the deleted node's index becomes that of a neighbour.\<close>

lemma rearrange_tracks:
  assumes "rearrange cmd i ps = Some (ps', remap)" "i < length ps" "k < length ps"
  shows "remap k < length ps'" "cmd \<noteq> Delete \<or> k \<noteq> i \<Longrightarrow> ps' ! remap k = ps ! k"
proof -
  show "remap k < length ps'"
    using assms by (cases cmd) (auto simp: rearrange_def Let_def list_swap_def split: if_splits)
  show "ps' ! remap k = ps ! k" if "cmd \<noteq> Delete \<or> k \<noteq> i"
    using assms that
    by (cases cmd) (auto simp: rearrange_def Let_def list_swap_def nth_list_update nth_append min_def nth_Cons' not_less split: if_splits)
qed

lemma inv_nonempty: "control_inv c \<Longrightarrow> profiles_of c \<noteq> [] \<and> sv_profiles (ct_saved c) \<noteq> []"
  by (auto simp: control_inv_def)

lemma inv_load_selected: "control_inv (with_nodes (\<lambda>n. n\<lparr>ns_selected := i\<rparr>) c) \<Longrightarrow> control_inv (fst (load_selected (with_nodes (\<lambda>n. n\<lparr>ns_selected := i\<rparr>) c)))"
  by (auto simp: control_inv_def control min_def)

lemma inv_select: "control_inv c \<Longrightarrow> control_inv (fst (select_node i c))"
  by (auto simp: select_node_def control control_inv_def min_def)

lemma inv_add: "control_inv c \<Longrightarrow> control_inv (fst (add_node name c))"
  by (auto simp: add_node_def Let_def control control_inv_def min_def)

lemma inv_commit_draft: "control_inv c \<Longrightarrow> control_inv (fst (commit_draft c))"
  by (auto simp: commit_draft_def Let_def control control_inv_def)

lemma inv_draft [control]: "(\<And>n. ns_selected (f n) = ns_selected n \<and> ns_started_with (f n) = ns_started_with n) \<Longrightarrow>
    control_inv (with_nodes f c) \<longleftrightarrow> control_inv c"
  by (simp add: control_inv_def control)

lemma inv_edit: "control_inv c \<Longrightarrow> control_inv (fst (edit_node f t c))"
  using inv_commit_draft [of "with_nodes (\<lambda>n. n\<lparr>ns_draft := draft_set f t (ns_draft n)\<rparr>) c"]
    inv_draft [of "\<lambda>n. n\<lparr>ns_draft := draft_set f t (ns_draft n)\<rparr>" c]
  by (simp add: edit_node_def case_prod_beta)

lemma inv_commit_advanced: "control_inv c \<Longrightarrow> control_inv (fst (commit_advanced c))"
proof -
  assume "control_inv c"
  then have "control_inv (fst (commit_draft (with_nodes (\<lambda>n. n\<lparr>ns_advanced := None, ns_draft := take_advanced s (ns_draft n)\<rparr>) c)))" for s
    by (intro inv_commit_draft) (simp add: inv_draft)
  then show ?thesis using \<open>control_inv c\<close> by (simp add: commit_advanced_def and_also_parts split: option.split)
qed

lemma inv_active: "control_inv c \<Longrightarrow> i < length (profiles_of c) \<Longrightarrow> control_inv (set_working_active i c)"
  by (simp add: control_inv_def control)

lemma inv_start: "control_inv c \<Longrightarrow> control_inv (fst (start_active e c))"
  using steady_inv steady_start_active by blast

lemma inv_notice: "control_inv (fst (set_notice n c)) \<longleftrightarrow> control_inv c" "control_inv (fst (dismiss_notice c)) \<longleftrightarrow> control_inv c"
  by (simp_all add: control_inv_def control)

lemma inv_set_active: "control_inv c \<Longrightarrow> control_inv (fst (set_active_node e c))" "control_inv c \<Longrightarrow> control_inv (fst (activate_node e i c))"
  by (auto simp: set_active_node_def activate_node_def Let_def inv_notice and_also_parts intro!: inv_start inv_active)

lemma inv_import: "control_inv c \<Longrightarrow> control_inv (fst (import_links v e c))"
proof -
  assume c: "control_inv c"
  have "control_inv (fst (import_text v t (call CallPaste c)))" for t
  proof -
    obtain added skipped where a: "import_lines v (filter (\<lambda>l. l \<noteq> []) (map trim (str_lines t))) = (added, skipped)" by fastforce
    show ?thesis
    proof (cases "added = []")
      case True
      then show ?thesis using c by (simp add: import_text_def a Let_def inv_notice) (simp add: control_inv_def control)
    next
      case False
      then show ?thesis
        using c by (cases added) (auto simp: import_text_def a Let_def and_also_parts inv_notice control control_inv_def min_def)
    qed
  qed
  then show ?thesis using c by (simp add: import_links_def Let_def inv_notice split: sum.split) (simp add: control_inv_def control)
qed

lemma inv_command: "control_inv c \<Longrightarrow> control_inv (fst (node_command e i cmd c))"
proof -
  assume c: "control_inv c"
  show ?thesis
  proof (cases "i < length (profiles_of c)")
    case True
    show ?thesis
    proof (cases "rearrange cmd i (profiles_of c)")
      case (Some r)
      obtain ps remap where r: "rearrange cmd i (profiles_of c) = Some (ps, remap)" using Some by (cases r) simp
      have ok: "remap (active_of c) < length ps" "remap (selected_of c) < length ps"
        using rearrange_tracks(1) [OF r True] c by (auto simp: control_inv_def)
      let ?c1 = "set_working_active (remap (active_of c)) (with_profiles (\<lambda>_. ps) c)"
      let ?d = "and_also (with_nodes (\<lambda>n. n\<lparr>ns_selected := i + 1\<rparr>) ?c1, ch_or OVERVIEW NODES) load_selected"
      let ?s = "with_nodes (\<lambda>n. n\<lparr>ns_selected := remap (selected_of c)\<rparr>) ?c1"
      have d: "control_inv (fst ?d)" if "cmd = Duplicate"
        using that c ok r by (auto simp: control control_inv_def min_def rearrange_def)
      have s: "control_inv ?s" "control_inv (fst (and_also (?s, ch_or OVERVIEW NODES) load_selected))"
        using c ok by (auto simp: control control_inv_def min_def)
      have fin: "control_inv (fst (if b then and_also (if b' then and_also x (toggle_connection e) else x) (start_active e) else x))"
        if "control_inv (fst x)" for x b b'
        using that steady_inv [OF steady_toggle] by (simp add: and_also_parts inv_start)
      let ?x = "if cmd = Duplicate then ?d
        else if cmd = Delete \<and> selected_of c = i then and_also (?s, ch_or OVERVIEW NODES) load_selected else (?s, ch_or OVERVIEW NODES)"
      have "node_command e i cmd c =
        (if cmd = Delete \<and> i = active_of c \<and> ct_connected (fst ?x)
         then and_also (if case selected_profile (ct_gui (fst ?x)) of None \<Rightarrow> True | Some p \<Rightarrow> missing_fields p \<noteq> []
                        then and_also ?x (toggle_connection e) else ?x) (start_active e) else ?x)"
        by (simp only: node_command_def r Let_def option.case prod.case linorder_not_less [symmetric] True simp_thms if_False)
      moreover have "control_inv (fst ?x)" using d s by auto
      ultimately show ?thesis using fin by (simp only:)
    qed (use c in \<open>simp add: node_command_def\<close>)
  qed (use c in \<open>simp add: node_command_def\<close>)
qed

section \<open>Saving and reloading\<close>

text \<open>What an attempted write of one file leaves of the controller.\<close>

lemma write_file_fields [control]:
  "ct_gui (fst (write_file v e f s c)) = ct_gui c" "ct_nodes (fst (write_file v e f s c)) = ct_nodes c"
  "ct_saved (fst (write_file v e f s c)) = ct_saved c" "ct_connected (fst (write_file v e f s c)) = ct_connected c"
  "ct_leave (fst (write_file v e f s c)) = ct_leave c" "ct_notice (fst (write_file v e f s c)) = ct_notice c"
  "ct_sheet (fst (write_file v e f s c)) = ct_sheet c" "ct_rules_updating (fst (write_file v e f s c)) = ct_rules_updating c"
  "ct_calls (fst (write_file v e f s c)) = ct_calls c"
  by (simp_all add: write_file_def split: prod.split)

lemma persist_write_dirty: "pe_dirty (fst (persist_write e fault f g s p m)) f' \<Longrightarrow> pe_dirty p f'"
  by (auto simp: persist_write_def split: option.splits prod.splits sum.splits if_splits)

lemma write_file_dirty: "pe_dirty (ct_persist (fst (write_file v e f s c))) f' \<Longrightarrow> pe_dirty (ct_persist c) f'"
  using persist_write_dirty [of "ce_persist v" "fx_faults e f" f "ct_gui c" s "ct_persist c" "ct_files c" f']
  by (simp add: write_file_def case_prod_beta)

lemma clear_save_notice_cases:
  "clear_save_notice c = dismiss_notice c \<or> clear_save_notice c = (c, no_changes)"
  by (simp add: clear_save_notice_def split: notice.split)

lemma inv_clear_notice: "control_inv (fst (clear_save_notice c)) \<longleftrightarrow> control_inv c"
  using clear_save_notice_cases [of c] by (auto simp: inv_notice)

lemma inv_leave: "control_inv (c\<lparr>ct_leave := l\<rparr>) \<longleftrightarrow> control_inv c"
  by (simp add: control_inv_def)

lemma inv_save_failed: "control_inv (fst (save_failed err c)) \<longleftrightarrow> control_inv c"
  by (simp add: save_failed_def case_prod_beta and_also_parts inv_notice inv_leave)

lemma inv_write_file: "control_inv c \<Longrightarrow> control_inv (fst (write_file v e f s c))"
  using write_file_dirty by (fastforce simp: control_inv_def control)

lemma inv_saved: "control_inv c \<Longrightarrow> sv_active s < length (sv_profiles s) \<Longrightarrow> control_inv (c\<lparr>ct_saved := s\<rparr>)"
  by (simp add: control_inv_def)

lemma inv_write_active:
  assumes "control_inv c" "active < length (sv_profiles (ct_saved c))"
  shows "control_inv (fst (write_active v e active c))"
proof (cases "active = sv_active (ct_saved c)")
  case True
  then show ?thesis using assms(1) by (simp add: write_active_def case_prod_beta and_also_parts inv_clear_notice)
next
  case False
  let ?s = "(ct_saved c)\<lparr>sv_active := active\<rparr>"
  have w: "control_inv (fst (write_file v e CfRuntime ?s (c\<lparr>ct_saved := ?s\<rparr>)))"
    using assms by (intro inv_write_file inv_saved) simp_all
  moreover from this have "control_inv ((fst (write_file v e CfRuntime ?s (c\<lparr>ct_saved := ?s\<rparr>)))\<lparr>ct_saved := ct_saved c\<rparr>)"
    using assms(1) by (intro inv_saved) (simp_all add: control_inv_def)
  ultimately show ?thesis
    using False by (simp add: write_active_def Let_def case_prod_beta and_also_parts inv_clear_notice inv_save_failed split: sum.split prod.split)
qed

lemma inv_write_nodes: "control_inv c \<Longrightarrow> control_inv (fst (write_nodes v e c))"
proof -
  assume c: "control_inv c"
  let ?c1 = "fst (save_refusal c)" and ?new = "clamp_active \<lparr>sv_profiles = profiles_of c, sv_active = active_of c\<rparr>"
  have c1: "control_inv ?c1" "ct_gui ?c1 = ct_gui c" "ct_saved ?c1 = ct_saved c"
    using c by (simp_all add: save_refusal_def Let_def control)
  have ok: "sv_active ?new < length (profiles_of c)" using clamp_active_valid [of "\<lparr>sv_profiles = profiles_of c, sv_active = active_of c\<rparr>"] inv_nonempty [OF c] by simp
  let ?w = "write_file v e CfProfiles ?new ?c1"
  have w: "control_inv (fst ?w)" using c1(1) by (rule inv_write_file)
  let ?s = "clamp_active ((ct_saved (fst ?w))\<lparr>sv_profiles := profiles_of c\<rparr>)"
  have "sv_active ?s < length (sv_profiles ?s)"
    using clamp_active_valid [of "(ct_saved (fst ?w))\<lparr>sv_profiles := profiles_of c\<rparr>"] inv_nonempty [OF c] by simp
  then have "control_inv ((fst ?w)\<lparr>ct_saved := ?s\<rparr>)" using w by (rule inv_saved [rotated])
  then have a: "control_inv (fst (write_active v e (sv_active ?new) ((fst ?w)\<lparr>ct_saved := ?s\<rparr>)))"
    using ok by (intro inv_write_active) simp_all
  have b: "control_inv (fst (write_active v e (sv_active ?new) ?c1))" if "profiles_of c = sv_profiles (ct_saved c)"
    using ok that c1 by (intro inv_write_active) simp_all
  show ?thesis
  proof (cases "snd (save_refusal c)")
    case (Some n)
    then show ?thesis using c c1 by (simp add: write_nodes_def case_prod_beta and_also_parts inv_notice inv_leave)
  next
    case None
    then show ?thesis
      using c c1 a b w
      by (cases "snd ?w") (simp_all add: write_nodes_def Let_def case_prod_beta inv_save_failed split: prod.split sum.split)
  qed
qed

lemma inv_revert: "control_inv c \<Longrightarrow> control_inv (fst (revert_nodes c))"
  by (auto simp: revert_nodes_def Let_def and_also_parts inv_clear_notice)
    (auto simp: control control_inv_def normalize_selected_index_def Let_def min_def)

lemma inv_flush_all:
  assumes "control_inv c" "pv_paths (ce_persist v) = in_dir d"
  shows "control_inv (fst (flush_all v e c))"
    "ct_files (fst (flush_all v e c)) (config_file_path (in_dir d) CfProfiles) = ct_files c (config_file_path (in_dir d) CfProfiles)"
proof -
  obtain p m r where f: "persist_flush (ce_persist v) (fx_faults e) (ct_gui c) (ct_saved c) (fx_now e) (ct_persist c) (ct_files c) = (p, m, r)"
    by (metis prod_cases3)
  have "flushed (ce_persist v) (ct_gui c) (ct_saved c) (fx_now e) (ct_persist c) (ct_files c) (p, m, r) CfProfiles"
    by (rule persist_flush_spec(1) [OF assms(2) f])
  moreover have "\<not> pe_dirty (ct_persist c) CfProfiles" using assms(1) by (simp add: control_inv_def)
  ultimately have "\<not> pe_dirty p CfProfiles" "m (config_file_path (in_dir d) CfProfiles) = ct_files c (config_file_path (in_dir d) CfProfiles)"
    using assms(2) by (simp_all add: flushed_def Let_def)
  then show "control_inv (fst (flush_all v e c))"
    "ct_files (fst (flush_all v e c)) (config_file_path (in_dir d) CfProfiles) = ct_files c (config_file_path (in_dir d) CfProfiles)"
    using assms(1) by (simp_all add: flush_all_def f control_inv_def)
qed

lemma inv_shutdown:
  assumes "control_inv c" "pv_paths (ce_persist v) = in_dir d"
  shows "control_inv (shutdown v e c)"
    "ct_files (shutdown v e c) (config_file_path (in_dir d) CfProfiles) = ct_files c (config_file_path (in_dir d) CfProfiles)"
proof -
  let ?c1 = "(call CallStop c)\<lparr>ct_connected := False\<rparr>"
  let ?c2 = "if ac_system_proxy_mode (config_of ?c1) \<noteq> ProxyDisable
    then call (CallProxy ((config_of ?c1)\<lparr>ac_system_proxy_mode := ProxyDisable\<rparr>)) ?c1 else ?c1"
  have "control_inv ?c2" using assms(1) by (simp add: control_inv_def control)
  moreover have "ct_files ?c2 = ct_files c" by (simp add: control)
  ultimately show "control_inv (shutdown v e c)"
    "ct_files (shutdown v e c) (config_file_path (in_dir d) CfProfiles) = ct_files c (config_file_path (in_dir d) CfProfiles)"
    using inv_flush_all [OF _ assms(2), of ?c2 e] unfolding shutdown_def Let_def by simp_all
qed

lemma inv_outside: "control_inv (c\<lparr>ct_files := m\<rparr>) \<longleftrightarrow> control_inv c"
  by (simp add: control_inv_def)

definition reload_ok :: "persist \<Rightarrow> gui_state \<Rightarrow> saved_nodes \<Rightarrow> persist \<times> gui_state \<times> saved_nodes \<times> config_file list \<Rightarrow> bool" where
  "reload_ok p0 g0 s0 acc = (case acc of (p, g, s, l) \<Rightarrow>
     (l = [] \<longrightarrow> g = g0 \<and> s = s0) \<and> gs_profiles g = gs_profiles g0 \<and> sv_active s < length (sv_profiles s) \<and> pe_dirty p = pe_dirty p0)"

lemma clamp_active_index: "sv_active (clamp_active s) = min (sv_active s) (length (sv_profiles s) - 1)"
  by (simp add: clamp_active_def)

lemma file_load_ok:
  assumes "file_load ps f bs g s = Some (g', s')" "sv_active s < length (sv_profiles s)"
  shows "gs_profiles g' = gs_profiles g" "sv_active s' < length (sv_profiles s')"
proof -
  have "sv_profiles s \<noteq> []" using assms(2) by auto
  then show "gs_profiles g' = gs_profiles g" "sv_active s' < length (sv_profiles s')"
    using assms by (auto simp: file_load_def clamp_active_index min_less_iff_disj split: config_file.splits)
qed

lemma reload_one_ok: "reload_ok p0 g0 s0 acc \<Longrightarrow> reload_ok p0 g0 s0 (reload_one e m now f acc)"
proof -
  assume ok: "reload_ok p0 g0 s0 acc"
  obtain p g s l where acc: "acc = (p, g, s, l)" by (metis prod_cases4)
  show ?thesis
  proof (cases rule: reload_one_cases [of e m now f p g s l])
    case (Loaded p' bs g' s')
    then show ?thesis using ok file_load_ok [OF Loaded(5)] unfolding acc by (simp add: reload_ok_def)
  qed (use ok acc in \<open>simp_all add: reload_ok_def\<close>)
qed

lemma reload_changed_ok:
  assumes "control_inv c"
  shows "reload_ok (ct_persist c) (ct_gui c) (ct_saved c) (reload_changed e m now (ct_gui c) (ct_saved c) (ct_persist c))"
proof -
  have "reload_ok p0 g0 s0 acc \<Longrightarrow> reload_ok p0 g0 s0 (fold (reload_one e m now) fs acc)" for p0 g0 s0 fs acc
    by (induction fs arbitrary: acc) (simp_all add: reload_one_ok)
  then show ?thesis using assms by (simp add: reload_changed_def reload_ok_def control_inv_def)
qed

text \<open>The reloaded state made consistent again.\<close>

lemma inv_take_reload:
  assumes "sv_active (ct_saved c) < length (sv_profiles (ct_saved c))" "core_known c" "\<not> pe_dirty (ct_persist c) CfProfiles"
    and "profiles_of c \<noteq> []"
  shows "control_inv (fst (after_reload edited (with_gui normalize_selected_index (fst (take_reload reloaded dirty active c)))))"
proof -
  let ?c = "fst (take_reload reloaded dirty active c)"
  let ?g = "with_gui normalize_selected_index ?c"
  have t: "ct_saved ?c = ct_saved c" "ct_connected ?c = ct_connected c" "ct_nodes ?c = ct_nodes c" "ct_persist ?c = ct_persist c"
    "profiles_of ?c \<noteq> []"
    using assms by (auto simp: take_reload_def Let_def control)
  then have n: "profiles_of ?g \<noteq> []" "active_of ?g < length (profiles_of ?g)"
    by (auto simp: control normalize_selected_index_def Let_def)
  then show ?thesis
    using t assms by (auto simp: after_reload_def Let_def control control_inv_def core_known_def min_def)
qed

lemma inv_files_changed:
  assumes "control_inv c"
  shows "control_inv (fst (on_files_changed v e c))" "ct_files (fst (on_files_changed v e c)) = ct_files c"
proof -
  obtain p g s l where r: "reload_changed (ce_persist v) (ct_files c) (fx_now e) (ct_gui c) (ct_saved c) (ct_persist c) = (p, g, s, l)"
    by (metis prod_cases4)
  let ?c1 = "c\<lparr>ct_persist := p, ct_gui := g, ct_saved := s\<rparr>"
  have ok: "gs_profiles g = profiles_of c" "sv_active s < length (sv_profiles s)" "pe_dirty p = pe_dirty (ct_persist c)"
    "l = [] \<Longrightarrow> g = ct_gui c \<and> s = ct_saved c"
    using reload_changed_ok [OF assms, of "ce_persist v" "ct_files c" "fx_now e"] by (simp_all add: r reload_ok_def)
  let ?t = "fst (take_reload l (list_dirty c) (active_of c) ?c1)"
  let ?y = "fst (after_reload (edited_profile c) (with_gui normalize_selected_index ?t))"
  have y: "control_inv ?y"
    using ok assms by (intro inv_take_reload) (auto simp: control_inv_def core_known_def)
  have files: "ct_files ?y = ct_files c"
    by (simp add: after_reload_def take_reload_def Let_def control)
  have app: "steady d (fst (after_app_reload v e old d))" for d old
  proof (cases "restart_pac_server v e (ac_pac_listen old \<noteq> ac_pac_listen (config_of d)) d")
    case (Pair d1 res)
    then have "steady d d1" using steady_restart_pac [of d v e] by (metis fst_conv)
    then show ?thesis by (cases res) (auto simp: after_app_reload_def Pair steady_notice intro: steady_step)
  qed
  have res: "fst (on_files_changed v e c) =
      (if l = [] then ?c1 else if CfApp \<in> set l then fst (after_app_reload v e (config_of c) ?y) else ?y)"
    by (simp add: on_files_changed_def r Let_def and_also_parts)
  have "control_inv (fst (after_app_reload v e (config_of c) ?y))" using y app steady_inv by blast
  moreover have "ct_files (fst (after_app_reload v e (config_of c) ?y)) = ct_files c"
    using app [of ?y "config_of c"] files by (simp add: steady_def)
  moreover have "control_inv ?c1 \<or> l \<noteq> []"
    using ok assms by (auto simp: control_inv_def)
  ultimately show "control_inv (fst (on_files_changed v e c))" "ct_files (fst (on_files_changed v e c)) = ct_files c"
    using res y files by auto
qed


section \<open>Every operation\<close>

lemma inv_do:
  assumes "control_inv c" "pv_paths (ce_persist v) = in_dir d"
  shows "control_inv (fst (gui_do v e op c))"
proof (cases "steady_op op")
  case True
  then show ?thesis using steady_do steady_inv assms(1) by blast
next
  case False
  have rules: "control_inv (fst (write_nodes v e c))" "control_inv (fst (revert_nodes c))" "control_inv (fst (on_files_changed v e c))"
    "control_inv (fst (flush_all v e c))" "control_inv (fst (import_links v e c))"
    by (simp_all add: assms(1) inv_write_nodes inv_revert inv_files_changed inv_flush_all [OF _ assms(2)] inv_import)
  have flush: "control_inv (fst (flush_due v e c))"
    using rules(4) assms(1) by (auto simp: flush_due_def case_prod_beta and_also_parts inv_notice split: option.split sum.split)
  have answer: "control_inv (fst (answer_prompt v e a c))" for a
    using rules(1) assms(1) inv_revert [of "c\<lparr>ct_leave := None\<rparr>"]
    by (auto simp: answer_prompt_def case_prod_beta inv_leave split: option.split answer.split)
  show ?thesis
  proof (cases op)
    case (OpTray ev)
    then show ?thesis using False assms(1) rules(5) inv_set_active(2) by (cases ev) (simp_all add: drop_result_def on_tray_def Let_def)
  qed (use False assms(1) rules flush answer in \<open>simp_all add: save_nodes_def case_prod_beta drop_result_def
      inv_select inv_add inv_command inv_edit inv_set_active inv_commit_advanced inv_outside inv_shutdown(1) [OF assms]\<close>)
qed

text \<open>Only Save writes the node list.\<close>

definition profiles_entry :: "string \<Rightarrow> controller \<Rightarrow> entry option" where
  "profiles_entry d c = ct_files c (config_file_path (in_dir d) CfProfiles)"

lemma commit_draft_files: "ct_files (fst (commit_draft c)) = ct_files c"
  by (simp add: commit_draft_def Let_def control)

lemma start_active_files: "ct_files (fst (start_active e c)) = ct_files c" "ct_files (fst (toggle_connection e c)) = ct_files c"
  using steady_start_active [of c e] steady_toggle [of c e] by (simp_all add: steady_def)

lemma list_ops_files:
  "ct_files (fst (revert_nodes c)) = ct_files c" "ct_files (fst (select_node i c)) = ct_files c" "ct_files (fst (add_node n c)) = ct_files c"
  "ct_files (fst (edit_node f t c)) = ct_files c" "ct_files (fst (set_active_node e c)) = ct_files c"
  "ct_files (fst (activate_node e i c)) = ct_files c" "ct_files (fst (commit_advanced c)) = ct_files c"
  "ct_files (fst (node_command e i cmd c)) = ct_files c"
  using clear_save_notice_cases
  by (auto simp: revert_nodes_def select_node_def add_node_def edit_node_def set_active_node_def activate_node_def commit_advanced_def
      node_command_def Let_def case_prod_beta commit_draft_files start_active_files clear_save_notice_def control
      split: option.split notice.split)

lemma import_files: "ct_files (fst (import_links v e c)) = ct_files c"
  by (auto simp: import_links_def import_text_def Let_def case_prod_beta control split: sum.split)

text \<open>What other programs make of a file.\<close>

definition outside_write :: "string \<Rightarrow> gui_op \<Rightarrow> entry option \<Rightarrow> entry option" where
  "outside_write path op x = (case op of OpOutside p y \<Rightarrow> if p = path then y else x | _ \<Rightarrow> x)"

definition outside_entry :: "string \<Rightarrow> (effects \<times> gui_op) list \<Rightarrow> entry option \<Rightarrow> entry option" where
  "outside_entry path ops x = fold (\<lambda>(e, op). outside_write path op) ops x"

lemma outside_entry_none: "\<forall>(e, op) \<in> set ops. \<forall>y. op \<noteq> OpOutside path y \<Longrightarrow> outside_entry path ops x = x"
  by (induction ops arbitrary: x) (auto simp: outside_entry_def outside_write_def split: gui_op.split)

lemma unsaved_do:
  assumes "control_inv c" "pv_paths (ce_persist v) = in_dir d" "\<not> saves_nodes op"
  shows "profiles_entry d (fst (gui_do v e op c)) = outside_write (config_file_path (in_dir d) CfProfiles) op (profiles_entry d c)"
proof (cases "steady_op op")
  case True
  then have "outside_write path op x = x" for path x by (cases op) (simp_all add: outside_write_def)
  then show ?thesis using True steady_do [of op c v e] by (simp add: steady_def profiles_entry_def)
next
  case False
  have flush: "profiles_entry d (fst (flush_due v e c)) = profiles_entry d c"
    using inv_flush_all(2) [OF assms(1,2), of e]
    by (auto simp: flush_due_def case_prod_beta and_also_parts set_notice_fst profiles_entry_def split: option.split sum.split)
  have answer: "a \<noteq> AnswerSave \<Longrightarrow> ct_files (fst (answer_prompt v e a c)) = ct_files c" for a
    by (auto simp: answer_prompt_def case_prod_beta list_ops_files split: option.split answer.split)
  show ?thesis
  proof (cases op)
    case (OpTray ev)
    then show ?thesis
      using False by (cases ev) (simp_all add: outside_write_def drop_result_def on_tray_def Let_def profiles_entry_def list_ops_files import_files)
  next
    case OpFilesChanged
    then show ?thesis using inv_files_changed(2) [OF assms(1)] by (simp add: outside_write_def profiles_entry_def)
  next
    case OpShutdown
    then show ?thesis using inv_shutdown(2) [OF assms(1,2)] by (simp add: outside_write_def profiles_entry_def)
  qed (use False assms(3) flush answer in \<open>simp_all add: outside_write_def saves_nodes_def drop_result_def profiles_entry_def list_ops_files import_files\<close>)
qed

section \<open>Results of saving\<close>

lemma refusal_parts:
  "ct_gui (fst (save_refusal c)) = ct_gui c" "ct_saved (fst (save_refusal c)) = ct_saved c" "ct_files (fst (save_refusal c)) = ct_files c"
  "ct_persist (fst (save_refusal c)) = ct_persist c"
  "ns_draft (ct_nodes (fst (save_refusal c))) = ns_draft (ct_nodes c)" "selected_of (fst (save_refusal c)) = selected_of c"
  "snd (save_refusal c) = None \<Longrightarrow> draft_errors (ns_draft (ct_nodes c)) = []"
  by (auto simp: save_refusal_def Let_def control split: if_splits)

lemma refusal_leave: "ct_leave (fst (save_refusal c)) = ct_leave c"
  by (simp add: save_refusal_def Let_def control)

lemma find_map_SomeD: "find_map f xs = Some y \<Longrightarrow> \<exists>x \<in> set xs. f x = Some y"
  by (induction xs) (auto split: option.splits)

lemma refusal_error: "snd (save_refusal c) = Some n \<Longrightarrow> is_error n"
  by (auto simp: save_refusal_def Let_def split: if_splits dest!: find_map_SomeD)

text \<open>The user's side of the state: lists, selection, draft.\<close>

definition same_edits :: "controller \<Rightarrow> controller \<Rightarrow> bool" where
  "same_edits c c' = (profiles_of c' = profiles_of c \<and> active_of c' = active_of c \<and> selected_of c' = selected_of c
     \<and> ns_draft (ct_nodes c') = ns_draft (ct_nodes c))"

lemma same_edits_dirty: "same_edits c c' \<Longrightarrow> draft_unapplied c' = draft_unapplied c"
  by (simp add: same_edits_def draft_unapplied_def)

lemma clear_notice_parts [control]:
  "ct_gui (fst (clear_save_notice c)) = ct_gui c" "ct_nodes (fst (clear_save_notice c)) = ct_nodes c"
  "ct_saved (fst (clear_save_notice c)) = ct_saved c" "ct_files (fst (clear_save_notice c)) = ct_files c"
  "ct_leave (fst (clear_save_notice c)) = ct_leave c" "ct_connected (fst (clear_save_notice c)) = ct_connected c"
  "ct_sheet (fst (clear_save_notice c)) = ct_sheet c" "ct_rules_updating (fst (clear_save_notice c)) = ct_rules_updating c"
  using clear_save_notice_cases [of c] by (auto simp: set_notice_fst)

text \<open>What is left to do about the active index.\<close>

lemma write_active_result:
  assumes "write_active v e active c = (c', ch, ok)" "pv_paths (ce_persist v) = in_dir d"
  shows "same_edits c c' \<and> sv_profiles (ct_saved c') = sv_profiles (ct_saved c) \<and> profiles_entry d c' = profiles_entry d c
    \<and> (if ok then sv_active (ct_saved c') = active \<and> ct_leave c' = ct_leave c
       else ct_saved c' = ct_saved c \<and> sv_active (ct_saved c) \<noteq> active \<and> ct_leave c' = None \<and> is_error (ct_notice c'))
    \<and> (sv_active (ct_saved c) = active \<longrightarrow> ct_files c' = ct_files c)"
proof (cases "active = sv_active (ct_saved c)")
  case True
  then show ?thesis using assms(1) by (auto simp: write_active_def case_prod_beta control same_edits_def profiles_entry_def)
next
  case False
  let ?s = "(ct_saved c)\<lparr>sv_active := active\<rparr>" and ?c = "c\<lparr>ct_saved := (ct_saved c)\<lparr>sv_active := active\<rparr>\<rparr>"
  obtain p m r where w: "persist_write (ce_persist v) (fx_faults e CfRuntime) CfRuntime (ct_gui c) ?s (ct_persist c) (ct_files c) = (p, m, r)"
    by (metis prod_cases3)
  have same: "m (config_file_path (in_dir d) CfProfiles) = ct_files c (config_file_path (in_dir d) CfProfiles)"
    using persist_write_spec [OF w assms(2)] assms(2) by (cases r) auto
  have f: "write_file v e CfRuntime ?s ?c = (?c\<lparr>ct_persist := p, ct_files := m\<rparr>, r)" by (simp add: write_file_def w)
  show ?thesis
    using assms(1) False same
    by (cases r) (auto simp: write_active_def f Let_def case_prod_beta save_failed_def control same_edits_def profiles_entry_def)
qed

lemma write_nodes_result:
  assumes "control_inv c" "pv_paths (ce_persist v) = in_dir d" "write_nodes v e c = (c', ch, ok)"
  shows "same_edits c c'
    \<and> (if ok then \<not> nodes_dirty c' \<and> ct_leave c' = ct_leave c \<and> sv_profiles (ct_saved c') = profiles_of c
         \<and> (profiles_of c = sv_profiles (ct_saved c) \<or> (\<exists>bs. print_profiles (pv_printers (ce_persist v)) (profiles_of c) = Some bs
              \<and> profiles_entry d c' = Some (File bs)))
       else nodes_dirty c' \<and> ct_leave c' = None \<and> is_error (ct_notice c'))"
proof (cases "nodes_dirty c")
  case False
  then show ?thesis using assms(3) by (auto simp: write_nodes_def same_edits_def nodes_dirty_def list_dirty_def)
next
  case dirty: True
  let ?c1 = "fst (save_refusal c)" and ?new = "clamp_active \<lparr>sv_profiles = profiles_of c, sv_active = active_of c\<rparr>"
  have act: "sv_active ?new = active_of c" using assms(1) by (auto simp: clamp_active_index control_inv_def min_def)
  show ?thesis
  proof (cases "snd (save_refusal c)")
    case (Some n)
    then show ?thesis
      using assms(3) dirty refusal_parts(1-6) [of c] refusal_error [OF Some]
      by (auto simp: write_nodes_def case_prod_beta control same_edits_def nodes_dirty_def list_dirty_def draft_unapplied_def)
  next
    case None
    have clean: "\<not> unapplied (ns_draft (ct_nodes c)) p" for p using refusal_parts(7) [OF None] by (simp add: unapplied_def)
    have fin: "\<not> nodes_dirty c''" if "same_edits c c''" "sv_profiles (ct_saved c'') = profiles_of c" "sv_active (ct_saved c'') = active_of c" for c''
      using that clean by (simp add: nodes_dirty_def list_dirty_def draft_unapplied_def same_edits_def)
    have bad: "nodes_dirty c''" if "same_edits c c''" "ct_saved c'' = s" "sv_profiles s \<noteq> profiles_of c \<or> sv_active s \<noteq> active_of c" for c'' s
      using that by (auto simp: nodes_dirty_def list_dirty_def same_edits_def)
    have e1: "same_edits c ?c1" "ct_leave ?c1 = ct_leave c"
      using refusal_parts(1-6) [of c] refusal_leave [of c] by (simp_all add: same_edits_def)
    show ?thesis
    proof (cases "profiles_of c = sv_profiles (ct_saved c)")
      case True
      then have "write_active v e (active_of c) ?c1 = (c', ch, ok)"
        using assms(3) None dirty refusal_parts(1,2) [of c] act by (simp add: write_nodes_def case_prod_beta Let_def)
      from write_active_result [OF this assms(2)] show ?thesis
        using True e1 refusal_parts(2) [of c] fin [of c'] bad [of c' "ct_saved c"] by (auto simp: same_edits_def split: if_splits)
    next
      case False
      obtain p m r where w: "persist_write (ce_persist v) (fx_faults e CfProfiles) CfProfiles (ct_gui ?c1) ?new (ct_persist ?c1) (ct_files ?c1) = (p, m, r)"
        by (metis prod_cases3)
      let ?c2 = "?c1\<lparr>ct_persist := p, ct_files := m\<rparr>"
      have f: "write_file v e CfProfiles ?new ?c1 = (?c2, r)" by (simp add: write_file_def w)
      note spec = persist_write_spec [OF w assms(2)]
      show ?thesis
      proof (cases r)
        case (Inl err)
        then have "save_failed err ?c2 = (c', ch, ok)"
          using assms(3) None dirty False f refusal_parts(1,2) [of c] by (simp add: write_nodes_def case_prod_beta Let_def)
        then show ?thesis
          using False e1 refusal_parts(2) [of c] bad [of c' "ct_saved c"]
          by (auto simp: save_failed_def case_prod_beta control same_edits_def)
      next
        case (Inr u)
        let ?c3 = "?c2\<lparr>ct_saved := clamp_active ((ct_saved ?c2)\<lparr>sv_profiles := profiles_of c\<rparr>)\<rparr>"
        have "write_active v e (active_of c) ?c3 = (c', ch, ok)"
          using assms(3) None dirty False f Inr refusal_parts(1,2) [of c] act by (simp add: write_nodes_def case_prod_beta Let_def)
        note res = write_active_result [OF this assms(2)]
        have disk: "\<exists>bs. print_profiles (pv_printers (ce_persist v)) (profiles_of c) = Some bs \<and> profiles_entry d ?c3 = Some (File bs)"
          using spec Inr assms(2) by (auto simp: file_bytes_def profiles_entry_def)
        show ?thesis
          using res disk e1 fin [of c'] bad [of c' "ct_saved ?c3"] by (auto simp: same_edits_def split: if_splits)
      qed
    qed
  qed
qed

lemma unapplied_stored: "\<not> unapplied (from_profile p) p"
  by (simp add: unapplied_def list_ex_iff)

lemma normalize_valid:
  "rn_selected_profile (gs_runtime g) < length (gs_profiles g) \<Longrightarrow> normalize_selected_index g = g"
  by (auto simp: normalize_selected_index_def Let_def)

lemma revert_result:
  assumes "control_inv c" "nodes_dirty c"
  shows "profiles_of (fst (revert_nodes c)) = sv_profiles (ct_saved c)" "active_of (fst (revert_nodes c)) = sv_active (ct_saved c)"
    "ct_saved (fst (revert_nodes c)) = ct_saved c" "\<not> nodes_dirty (fst (revert_nodes c))"
proof -
  let ?g = "(ct_gui c)\<lparr>gs_profiles := sv_profiles (ct_saved c), gs_runtime := (gs_runtime (ct_gui c))\<lparr>rn_selected_profile := sv_active (ct_saved c)\<rparr>\<rparr>"
  have "sv_active (ct_saved c) < length (sv_profiles (ct_saved c))" using assms(1) by (simp add: control_inv_def)
  then have g: "normalize_selected_index ?g = ?g" by (intro normalize_valid) simp
  have v: "min (sv_active (ct_saved c)) (length (sv_profiles (ct_saved c)) - 1) = sv_active (ct_saved c)"
    using assms(1) by (auto simp: control_inv_def min_def)
  show r: "profiles_of (fst (revert_nodes c)) = sv_profiles (ct_saved c)" "active_of (fst (revert_nodes c)) = sv_active (ct_saved c)"
    "ct_saved (fst (revert_nodes c)) = ct_saved c"
    using assms(2) by (simp_all add: revert_nodes_def Let_def control g)
  have "selected_of (fst (revert_nodes c)) = sv_active (ct_saved c)"
    "ns_draft (ct_nodes (fst (revert_nodes c))) = draft_at (sv_active (ct_saved c)) ?g"
    using assms(2) v by (simp_all add: revert_nodes_def Let_def control g)
  then show "\<not> nodes_dirty (fst (revert_nodes c))"
    using r unapplied_stored by (simp add: nodes_dirty_def list_dirty_def draft_unapplied_def draft_at_def)
qed

text \<open>An edit of \<open>app.json\<close> from outside never restarts the core, whatever it changes.\<close>

lemma external_edit_keeps_core:
  "\<exists>ks. ct_calls (fst (on_files_changed v e c)) = ct_calls c @ map CallProxy ks \<and> ct_connected (fst (on_files_changed v e c)) = ct_connected c"
proof -
  have r: "ct_calls (fst (restart_pac_server v e b d)) = ct_calls d" "ct_connected (fst (restart_pac_server v e b d)) = ct_connected d" for b d
    by (auto simp: restart_pac_server_def Let_def case_prod_beta split: option.split)
  have a: "\<exists>ks. ct_calls (fst (after_app_reload v e old d)) = ct_calls d @ map CallProxy ks"
    "ct_connected (fst (after_app_reload v e old d)) = ct_connected d" for old d
  proof -
    obtain d1 res where d1: "restart_pac_server v e (ac_pac_listen old \<noteq> ac_pac_listen (config_of d)) d = (d1, res)" by fastforce
    have same: "ct_calls d1 = ct_calls d" "ct_connected d1 = ct_connected d" using r [of "ac_pac_listen old \<noteq> ac_pac_listen (config_of d)" d] d1 by simp_all
    have p: "\<exists>ks. ct_calls (fst (apply_proxy e d1)) = ct_calls d1 @ map CallProxy ks" "ct_connected (fst (apply_proxy e d1)) = ct_connected d1"
      by (auto simp: apply_proxy_def Let_def control split: option.split intro!: exI [of _ "[config_of d1]"])
    have z: "\<exists>ks. ct_calls d = ct_calls d @ map CallProxy ks" by (rule exI [of _ "[]"]) simp
    show "\<exists>ks. ct_calls (fst (after_app_reload v e old d)) = ct_calls d @ map CallProxy ks"
      "ct_connected (fst (after_app_reload v e old d)) = ct_connected d"
      using p same z by (auto simp: after_app_reload_def d1 control split: sum.split)
  qed
  have t: "ct_calls (fst (take_reload rs w i d)) = ct_calls d" "ct_connected (fst (take_reload rs w i d)) = ct_connected d" for rs w i d
    by (auto simp: take_reload_def Let_def control)
  have l: "ct_calls (fst (after_reload ed d)) = ct_calls d" "ct_connected (fst (after_reload ed d)) = ct_connected d" for ed d
    by (auto simp: after_reload_def Let_def control)
  have z: "\<exists>ks. cs = cs @ map CallProxy ks" for cs by (rule exI [of _ "[]"]) simp
  have a': "ct_calls d = cs \<Longrightarrow> \<exists>ks. ct_calls (fst (after_app_reload v e old d)) = cs @ map CallProxy ks" for old d cs
    using a(1) by blast
  show ?thesis
    using z by (auto simp: on_files_changed_def Let_def case_prod_beta and_also_parts t l with_fields a(2) intro!: a')
qed

section \<open>Saving and the next start\<close>

text \<open>What the files hold of the nodes: the list and the active index that a start would load.\<close>

definition disk_list :: "control_env \<Rightarrow> files \<Rightarrow> proxy_profile list option" where
  "disk_list v m =
     (case m (cp_profiles_json (pv_paths (ce_persist v))) of
        Some (File bs) \<Rightarrow> parse_profiles (pv_parsers (ce_persist v)) bs | _ \<Rightarrow> None)"

definition disk_index :: "control_env \<Rightarrow> files \<Rightarrow> nat option" where
  "disk_index v m =
     (case m (cp_runtime_json (pv_paths (ce_persist v))) of
        Some (File bs) \<Rightarrow> map_option rn_selected_profile (parse_runtime (pv_parsers (ce_persist v)) bs) | _ \<Rightarrow> None)"

text \<open>What is used of \<open>serde_json\<close>: what was printed is read back.\<close>

definition json_faithful :: "persist_env \<Rightarrow> bool" where
  "json_faithful p =
     ((\<forall>l bs. print_profiles (pv_printers p) l = Some bs \<longrightarrow> parse_profiles (pv_parsers p) bs = Some l)
      \<and> (\<forall>r bs. print_runtime (pv_printers p) r = Some bs \<longrightarrow> parse_runtime (pv_parsers p) bs = Some r))"

text \<open>The files hold the saved nodes.\<close>

definition files_agree :: "control_env \<Rightarrow> controller \<Rightarrow> bool" where
  "files_agree v c = (disk_list v (ct_files c) = Some (sv_profiles (ct_saved c)) \<and> disk_index v (ct_files c) = Some (sv_active (ct_saved c)))"

lemma write_active_disk:
  assumes "write_active v e active c = (c', ch, True)" "pv_paths (ce_persist v) = in_dir d" "json_faithful (ce_persist v)"
  shows "disk_list v (ct_files c') = disk_list v (ct_files c)"
    "disk_index v (ct_files c') = (if active = sv_active (ct_saved c) then disk_index v (ct_files c) else Some active)"
proof -
  let ?s = "(ct_saved c)\<lparr>sv_active := active\<rparr>" and ?c = "c\<lparr>ct_saved := (ct_saved c)\<lparr>sv_active := active\<rparr>\<rparr>"
  obtain p m r where w: "persist_write (ce_persist v) (fx_faults e CfRuntime) CfRuntime (ct_gui c) ?s (ct_persist c) (ct_files c) = (p, m, r)"
    by (metis prod_cases3)
  have f: "write_file v e CfRuntime ?s ?c = (?c\<lparr>ct_persist := p, ct_files := m\<rparr>, r)" by (simp add: write_file_def w)
  note spec = persist_write_spec [OF w assms(2)]
  have "disk_list v (ct_files c') = disk_list v (ct_files c)
    \<and> disk_index v (ct_files c') = (if active = sv_active (ct_saved c) then disk_index v (ct_files c) else Some active)"
  proof (cases "active = sv_active (ct_saved c)")
    case True
    then show ?thesis using assms(1) by (auto simp: write_active_def case_prod_beta control)
  next
    case False
    then obtain u where r: "r = Inr u" and c': "ct_files c' = m"
      using assms(1) by (cases r) (auto simp: write_active_def f Let_def case_prod_beta save_failed_def control)
    from spec r obtain bs where bs: "print_runtime (pv_printers (ce_persist v)) ((gs_runtime (ct_gui c))\<lparr>rn_selected_profile := active\<rparr>) = Some bs"
      "m (cp_runtime_json (pv_paths (ce_persist v))) = Some (File bs)"
      "m (cp_profiles_json (pv_paths (ce_persist v))) = ct_files c (cp_profiles_json (pv_paths (ce_persist v)))"
      by (fastforce simp: file_bytes_def config_file_path_def)
    then show ?thesis using False assms(3) by (auto simp: disk_list_def disk_index_def c' json_faithful_def)
  qed
  then show "disk_list v (ct_files c') = disk_list v (ct_files c)"
    "disk_index v (ct_files c') = (if active = sv_active (ct_saved c) then disk_index v (ct_files c) else Some active)" by blast+
qed

lemma clamped_sv: "sv_active (clamp_active s) = min (sv_active s) (length (sv_profiles s) - 1)"
  by (simp add: clamp_active_def)

lemma save_disk:
  assumes "control_inv c" "pv_paths (ce_persist v) = in_dir d" "json_faithful (ce_persist v)" "write_nodes v e c = (c', ch, True)"
    "disk_list v (ct_files c) = Some (sv_profiles (ct_saved c))" "disk_index v (ct_files c) = Some (sv_active (ct_saved c))"
  shows "disk_list v (ct_files c') = Some (profiles_of c)
    \<and> disk_index v (ct_files c') = Some (if active_of c = min (sv_active (ct_saved c)) (length (profiles_of c) - 1)
        then sv_active (ct_saved c) else active_of c)"
proof -
  let ?c1 = "fst (save_refusal c)" and ?new = "clamp_active \<lparr>sv_profiles = profiles_of c, sv_active = active_of c\<rparr>"
  have act: "sv_active ?new = active_of c" using assms(1) by (auto simp: clamped_sv control_inv_def min_def)
  have valid: "min (sv_active (ct_saved c)) (length (sv_profiles (ct_saved c)) - 1) = sv_active (ct_saved c)"
    using assms(1) by (auto simp: control_inv_def min_def)
  show ?thesis
  proof (cases "nodes_dirty c")
    case False
    then show ?thesis using assms(4-6) valid by (auto simp: write_nodes_def nodes_dirty_def list_dirty_def)
  next
    case dirty: True
    have None: "snd (save_refusal c) = None"
      using assms(4) dirty by (cases "snd (save_refusal c)") (auto simp: write_nodes_def case_prod_beta)
    show ?thesis
    proof (cases "profiles_of c = sv_profiles (ct_saved c)")
      case True
      then have "write_active v e (active_of c) ?c1 = (c', ch, True)"
        using assms(4) None dirty refusal_parts(1,2) [of c] act by (simp add: write_nodes_def case_prod_beta Let_def)
      from write_active_disk [OF this assms(2,3)] show ?thesis using True assms(5,6) refusal_parts(2,3) [of c] valid by simp
    next
      case False
      obtain p m r where w: "persist_write (ce_persist v) (fx_faults e CfProfiles) CfProfiles (ct_gui ?c1) ?new (ct_persist ?c1) (ct_files ?c1) = (p, m, r)"
        by (metis prod_cases3)
      let ?c2 = "?c1\<lparr>ct_persist := p, ct_files := m\<rparr>"
      let ?c3 = "?c2\<lparr>ct_saved := clamp_active ((ct_saved ?c2)\<lparr>sv_profiles := profiles_of c\<rparr>)\<rparr>"
      have f: "write_file v e CfProfiles ?new ?c1 = (?c2, r)" by (simp add: write_file_def w)
      obtain u where r: "r = Inr u"
        using assms(4) None dirty False f refusal_parts(1,2) [of c]
        by (cases r) (auto simp: write_nodes_def case_prod_beta Let_def save_failed_def)
      have "write_active v e (active_of c) ?c3 = (c', ch, True)"
        using assms(4) None dirty False f r refusal_parts(1,2) [of c] act by (simp add: write_nodes_def case_prod_beta Let_def)
      note res = write_active_disk [OF this assms(2,3)]
      from persist_write_spec [OF w assms(2)] r obtain bs where "print_profiles (pv_printers (ce_persist v)) (profiles_of c) = Some bs"
        "m (cp_profiles_json (pv_paths (ce_persist v))) = Some (File bs)"
        "m (cp_runtime_json (pv_paths (ce_persist v))) = ct_files c (cp_runtime_json (pv_paths (ce_persist v)))"
        using refusal_parts(3) [of c] by (fastforce simp: file_bytes_def config_file_path_def)
      then have "disk_list v m = Some (profiles_of c)" "disk_index v m = disk_index v (ct_files c)"
        using assms(3) by (auto simp: disk_list_def disk_index_def json_faithful_def)
      then show ?thesis using res assms(6) refusal_parts(2) [of c] by (simp add: clamped_sv)
    qed
  qed
qed

text \<open>What a start makes of the files.\<close>

lemma bad_path:
  "with_extension ''json.bad'' (cp_app_json (in_dir d)) = d @ ''/app.json.bad''"
  using with_extension_file [of "''app''" "''json''" "''json.bad''" d] by (simp add: in_dir_def)

lemma start_from_disk:
  assumes "pv_paths (ce_persist v) = in_dir d" "disk_list v m = Some l" "l \<noteq> []" "disk_index v m = Some i"
  shows "profiles_of (controller_new v renamed mon m) = l" "active_of (controller_new v renamed mon m) = i"
    "sv_profiles (ct_saved (controller_new v renamed mon m)) = l" "sv_active (ct_saved (controller_new v renamed mon m)) = min i (length l - 1)"
proof -
  let ?P = "pv_parsers (ce_persist v)"
  obtain ca m1 where a: "load_or_recover renamed (cp_app_json (in_dir d)) (app_config_default, None)
      (load_with_bytes (parse_app ?P) app_config_default m (cp_app_json (in_dir d))) m = (ca, m1)" by fastforce
  have same: "m1 (cp_profiles_json (in_dir d)) = m (cp_profiles_json (in_dir d))" "m1 (cp_runtime_json (in_dir d)) = m (cp_runtime_json (in_dir d))"
    using a bad_path [of d] by (auto simp: load_or_recover_def in_dir_def split: sum.splits)
  obtain bs where p: "m (cp_profiles_json (in_dir d)) = Some (File bs)" "parse_profiles ?P bs = Some l"
    using assms(1,2) by (auto simp: disk_list_def split: option.splits entry.splits)
  obtain rb r where q: "m (cp_runtime_json (in_dir d)) = Some (File rb)" "parse_runtime ?P rb = Some r" "rn_selected_profile r = i"
    using assms(1,4) by (auto simp: disk_index_def split: option.splits entry.splits)
  have "load_tracked ?P renamed (in_dir d) m = (\<lparr>gs_config = fst ca, gs_profiles = l, gs_runtime = r\<rparr>, (snd ca, Some bs, Some rb), m1)"
    using a assms(3) by (cases ca) (simp add: load_tracked_def load_with_bytes_def load_or_recover_def same p q)
  then show "profiles_of (controller_new v renamed mon m) = l" "active_of (controller_new v renamed mon m) = i"
    "sv_profiles (ct_saved (controller_new v renamed mon m)) = l" "sv_active (ct_saved (controller_new v renamed mon m)) = min i (length l - 1)"
    using assms(1) q(3) by (simp_all add: controller_new_def saved_new_def clamped_sv)
qed

section \<open>Properties\<close>

text \<open>\<^bold>\<open>C24.\<close>  The controller stays consistent: started on files whose active index is in range, after
  every sequence of operations, shutdown included, whatever the calls to the outside answer and whatever other
  programs write to the files that a reload then reads, the active and the selected node exist, the
  saved index points into the saved list, a connected core is one that the controller knows, and the
  node list is never queued for an automatic write.\<close>

theorem control_invariant:
  assumes "pv_paths (ce_persist v) = in_dir d"
    and "active_of (controller_new v renamed mon m) < length (profiles_of (controller_new v renamed mon m))"
  shows "control_inv (gui_run v ops (controller_new v renamed mon m))"
proof -
  obtain g app pb rb m' where l: "load_tracked (pv_parsers (ce_persist v)) renamed (pv_paths (ce_persist v)) m = (g, (app, pb, rb), m')"
    by (metis prod.collapse)
  have "control_inv (controller_new v renamed mon m)"
    using assms(2) by (auto simp: controller_new_def l control_inv_def nodes_new_def saved_new_def clamp_active_def Let_def persist_new_def)
  moreover have "control_inv c \<Longrightarrow> control_inv (fold (\<lambda>(e, op) c. fst (gui_do v e op c)) ops c)" for c
    by (induction ops arbitrary: c) (auto simp: inv_do [OF _ assms(1)])
  ultimately show ?thesis by (simp add: gui_run_def)
qed

text \<open>\<^bold>\<open>C25.\<close>  Unsaved edits never reach the disk: over every sequence of operations without a Save
  (edits, imports, deletions, starting and stopping, changed settings, automatic flushes, reloads,
  discarding, shutdown), the file with the node list is byte for byte what it was, or what another program last
  made of it.\<close>

theorem unsaved_never_written:
  assumes "control_inv c" "pv_paths (ce_persist v) = in_dir d" "\<forall>(e, op) \<in> set ops. \<not> saves_nodes op"
  shows "profiles_entry d (gui_run v ops c) = outside_entry (config_file_path (in_dir d) CfProfiles) ops (profiles_entry d c)
    \<and> ((\<forall>(e, op) \<in> set ops. \<forall>y. op \<noteq> OpOutside (config_file_path (in_dir d) CfProfiles) y) \<longrightarrow>
         profiles_entry d (gui_run v ops c) = profiles_entry d c)"
proof -
  let ?p = "config_file_path (in_dir d) CfProfiles"
  have "profiles_entry d (fold (\<lambda>(e, op) c. fst (gui_do v e op c)) ops c) = fold (\<lambda>(e, op). outside_write ?p op) ops (profiles_entry d c)"
    using assms(1,3)
  proof (induction ops arbitrary: c)
    case (Cons x ops)
    obtain e op where x: "x = (e, op)" by (cases x)
    have "control_inv (fst (gui_do v e op c))" using Cons.prems(1) assms(2) by (rule inv_do)
    moreover have "profiles_entry d (fst (gui_do v e op c)) = outside_write ?p op (profiles_entry d c)"
      using Cons.prems assms(2) x by (intro unsaved_do) auto
    ultimately show ?case using Cons.IH Cons.prems(2) x by simp
  qed simp
  then have "profiles_entry d (gui_run v ops c) = outside_entry ?p ops (profiles_entry d c)"
    by (simp only: gui_run_def outside_entry_def)
  then show ?thesis using outside_entry_none [of ops ?p "profiles_entry d c"] by metis
qed

text \<open>Save does what it says: the edits on screen stay as they are; when it reports success
  nothing is unsaved and the file holds the printed working list; when it does not, the changes
  still count as unsaved, a pending close is cancelled and an error is shown.\<close>

lemma save_result:
  assumes "control_inv c" "pv_paths (ce_persist v) = in_dir d" "write_nodes v e c = (c', ch, ok)"
  shows "same_edits c c'
    \<and> (if ok then \<not> nodes_dirty c' \<and> ct_leave c' = ct_leave c \<and> sv_profiles (ct_saved c') = profiles_of c
         \<and> (profiles_of c = sv_profiles (ct_saved c) \<or> (\<exists>bs. print_profiles (pv_printers (ce_persist v)) (profiles_of c) = Some bs
              \<and> profiles_entry d c' = Some (File bs)))
       else nodes_dirty c' \<and> ct_leave c' = None \<and> is_error (ct_notice c'))"
  by (rule write_nodes_result [OF assms])


text \<open>\<^bold>\<open>C26.\<close>  What was saved is there at the next start: when the files agree with the saved nodes and
  the saved index still points into the edited list, a save that reports success makes a new start
  load exactly the edited list and its active node, and the files agree with the saved nodes again.\<close>

theorem save_survives_restart:
  assumes "control_inv c" "pv_paths (ce_persist v) = in_dir d" "json_faithful (ce_persist v)"
    and "disk_list v (ct_files c) = Some (sv_profiles (ct_saved c))" "disk_index v (ct_files c) = Some (sv_active (ct_saved c))"
    and "sv_active (ct_saved c) < length (profiles_of c)" "write_nodes v e c = (c', ch, True)"
  shows "profiles_of (controller_new v renamed mon (ct_files c')) = profiles_of c
    \<and> active_of (controller_new v renamed mon (ct_files c')) = active_of c
    \<and> disk_list v (ct_files c') = Some (sv_profiles (ct_saved c')) \<and> disk_index v (ct_files c') = Some (sv_active (ct_saved c'))"
proof -
  have m: "min (sv_active (ct_saved c)) (length (profiles_of c) - 1) = sv_active (ct_saved c)" using assms(6) by (auto simp: min_def)
  have d: "disk_list v (ct_files c') = Some (profiles_of c)" "disk_index v (ct_files c') = Some (active_of c)"
    using save_disk [OF assms(1-3,7,4,5)] m by auto
  have s: "sv_profiles (ct_saved c') = profiles_of c" "sv_active (ct_saved c') = active_of c"
    using write_nodes_result [OF assms(1,2,7)] by (auto simp: nodes_dirty_def list_dirty_def same_edits_def)
  have "profiles_of c \<noteq> []" using assms(6) by auto
  from start_from_disk [OF assms(2) d(1) this d(2)] show ?thesis using d s by simp
qed

text \<open>\<^bold>\<open>C28.\<close>  A deletion can leave an index on disk that points past the list: when the saved index lies
  beyond the edited list and the active node is its last one, the saved index in memory is moved to
  that node without being written, so the save reports success and skips the index file.  The next
  start then has no active node, shows unsaved changes, and starting the connection reports that
  there is no node.\<close>

theorem save_leaves_stale_index:
  assumes "control_inv c" "pv_paths (ce_persist v) = in_dir d" "json_faithful (ce_persist v)"
    and "disk_list v (ct_files c) = Some (sv_profiles (ct_saved c))" "disk_index v (ct_files c) = Some (sv_active (ct_saved c))"
    and "length (profiles_of c) \<le> sv_active (ct_saved c)" "active_of c = length (profiles_of c) - 1" "write_nodes v e c = (c', ch, True)"
  shows "\<not> nodes_dirty c' \<and> selected_profile (ct_gui c') \<noteq> None
    \<and> (let n = controller_new v renamed mon (ct_files c') in
       profiles_of n = profiles_of c \<and> selected_profile (ct_gui n) = None \<and> nodes_dirty n
       \<and> ct_notice (fst (start_active e' n)) = NoNode)"
proof -
  let ?n = "controller_new v renamed mon (ct_files c')"
  have d: "disk_list v (ct_files c') = Some (profiles_of c)" "disk_index v (ct_files c') = Some (sv_active (ct_saved c))"
    using save_disk [OF assms(1-3,8,4,5)] assms(6,7) by auto
  have ne: "profiles_of c \<noteq> []" using assms(1) by (auto simp: control_inv_def)
  have old: "\<not> nodes_dirty c'" "same_edits c c'" using write_nodes_result [OF assms(1,2,8)] by auto
  note n = start_from_disk [OF assms(2) d(1) ne d(2), of renamed mon]
  have sel: "selected_profile (ct_gui ?n) = None" using n(1,2) assms(6) by (simp add: selected_profile_def)
  have "nodes_dirty ?n" using n assms(6) ne by (cases "profiles_of c") (auto simp: nodes_dirty_def list_dirty_def)
  moreover have "ct_notice (fst (start_active e' ?n)) = NoNode" using sel by (simp add: start_active_def control)
  moreover have "selected_profile (ct_gui c') \<noteq> None"
    using old(2) ne assms(7) by (simp add: same_edits_def selected_profile_def Let_def)
  ultimately show ?thesis using old(1) n(1) sel by (simp add: Let_def)
qed

section \<open>An example\<close>

text \<open>Three nodes on disk, the last one active; the printers of the example know the values used.\<close>

definition demo_store :: persist_env where
  "demo_store =
     \<lparr>pv_printers = \<lparr>print_app = (\<lambda>_. None), print_profiles = (\<lambda>l. if l = [demo_profile, demo_profile] then Some [2] else None),
        print_runtime = (\<lambda>r. if r = runtime_default\<lparr>rn_selected_profile := 0\<rparr> then Some [0] else None)\<rparr>,
      pv_parsers = \<lparr>parse_app = (\<lambda>_. None),
        parse_profiles = (\<lambda>bs. Some (if bs = [2] then [demo_profile, demo_profile] else [demo_profile, demo_profile, demo_profile])),
        parse_runtime = (\<lambda>bs. Some (runtime_default\<lparr>rn_selected_profile := (if bs = [0] then 0 else if bs = [1] then 1 else 2)\<rparr>))\<rparr>,
      pv_hash = (\<lambda>_. 0), pv_paths = in_dir ''d''\<rparr>"

definition demo_control_env :: control_env where
  "demo_control_env = \<lparr>ce_persist = demo_store, ce_url_parse = (\<lambda>_. None), ce_engines = [], ce_b64 = (\<lambda>_. []), ce_ser = (\<lambda>s. s)\<rparr>"

definition demo_effects :: effects where
  "demo_effects = \<lparr>fx_start = (\<lambda>_ _. None), fx_poll = None, fx_proxy = (\<lambda>_. None), fx_copy = (\<lambda>_. None), fx_paste = Inr [],
     fx_autostart = (\<lambda>_. None), fx_app_icon = None, fx_counters = None, fx_bind = (\<lambda>_. None), fx_qr = (\<lambda>_. None),
     fx_faults = (\<lambda>_. None), fx_now = 0, fx_clock = 0\<rparr>"

text \<open>The index byte selects the saved active node.\<close>

definition demo_disk :: "byte \<Rightarrow> files" where
  "demo_disk b = [''d/profiles.json'' \<mapsto> File [3], ''d/runtime.json'' \<mapsto> File [b]]"

definition demo_start :: "byte \<Rightarrow> controller" where
  "demo_start b = controller_new demo_control_env True traffic_new (demo_disk b)"

definition demo_deleted :: "byte \<Rightarrow> controller" where
  "demo_deleted b = gui_run demo_control_env [(demo_effects, OpCommand 2 Delete)] (demo_start b)"

lemma demo_paths: "pv_paths (ce_persist demo_control_env) = in_dir ''d''"
  by (simp add: demo_control_env_def demo_store_def)

lemma demo_json: "json_faithful (ce_persist demo_control_env)"
  by (simp add: json_faithful_def demo_control_env_def demo_store_def)

lemma demo_start_parts:
  "disk_list demo_control_env (demo_disk b) = Some [demo_profile, demo_profile, demo_profile]"
  "disk_index demo_control_env (demo_disk b) = Some (if b = 0 then 0 else if b = 1 then 1 else 2)"
  by (simp_all add: disk_list_def disk_index_def demo_disk_def demo_control_env_def demo_store_def in_dir_def)

lemma demo_start_state:
  "demo_start b = \<lparr>ct_gui = \<lparr>gs_config = app_config_default, gs_profiles = [demo_profile, demo_profile, demo_profile],
       gs_runtime = runtime_default\<lparr>rn_selected_profile := (if b = 0 then 0 else if b = 1 then 1 else 2)\<rparr>\<rparr>,
     ct_pac = None, ct_persist = persist_new (\<lambda>_. 0) (\<lambda>f. case f of CfApp \<Rightarrow> None | CfProfiles \<Rightarrow> Some [3] | CfRuntime \<Rightarrow> Some [b]),
     ct_connected = False, ct_rules_updating = False, ct_notice = NoNotice, ct_notice_seq = 0,
     ct_nodes = \<lparr>ns_selected = (if b = 0 then 0 else if b = 1 then 1 else 2), ns_draft = from_profile demo_profile, ns_errors = [],
       ns_advanced = None, ns_advanced_errors = [], ns_qr = None, ns_started_with = None\<rparr>,
     ct_saved = \<lparr>sv_profiles = [demo_profile, demo_profile, demo_profile], sv_active = (if b = 0 then 0 else if b = 1 then 1 else 2)\<rparr>,
     ct_leave = None, ct_sheet = None, ct_traffic = traffic_new, ct_files = demo_disk b, ct_calls = []\<rparr>"
  by (simp add: demo_start_def controller_new_def load_tracked_def load_with_bytes_def load_or_recover_def demo_control_env_def demo_store_def
    demo_disk_def in_dir_def nodes_new_def saved_new_def clamp_active_def draft_at_def Let_def)

lemma demo_start_inv: "control_inv (demo_start b)"
  by (simp add: demo_start_state control_inv_def persist_new_def)

lemma demo_deleted_state:
  "profiles_of (demo_deleted b) = [demo_profile, demo_profile]" "active_of (demo_deleted b) = (if b = 0 then 0 else 1)"
  "ct_saved (demo_deleted b) = ct_saved (demo_start b)" "ct_files (demo_deleted b) = demo_disk b"
  "runtime_of (demo_deleted b) = runtime_default\<lparr>rn_selected_profile := (if b = 0 then 0 else 1)\<rparr>"
  "ns_draft (ct_nodes (demo_deleted b)) = from_profile demo_profile" "control_inv (demo_deleted b)"
proof -
  show "control_inv (demo_deleted b)" unfolding demo_deleted_def gui_run_def
    by (simp add: inv_do [OF demo_start_inv demo_paths] del: gui_do.simps)
qed (simp_all add: demo_deleted_def gui_run_def node_command_def rearrange_def demo_start_state control draft_at_def Let_def)

lemma demo_draft: "draft_errors (from_profile demo_profile) = []" "missing_fields demo_profile = []"
proof -
  have "trim ''h'' = ''h''" "trim ''u'' = ''u''" by (simp_all add: trim_visible visible_text)
  then show "draft_errors (from_profile demo_profile) = []" "missing_fields demo_profile = []"
    using parse_port_text [of 443] parse_timeout_text [of 5]
    by (simp_all add: draft_errors_Nil draft_missing_def missing_fields_def from_profile_def demo_profile_def profile_default_def)
qed

lemma demo_saved_leaving: "snd (snd (write_nodes demo_control_env demo_effects ((demo_deleted b)\<lparr>ct_leave := l\<rparr>))) = True"
proof -
  let ?c = "(demo_deleted b)\<lparr>ct_leave := l\<rparr>"
  let ?new = "clamp_active \<lparr>sv_profiles = [demo_profile, demo_profile], sv_active = (if b = 0 then 0 else 1 :: nat)\<rparr>"
  have none: "snd (save_refusal ?c) = None"
    by (simp add: save_refusal_def Let_def demo_deleted_state demo_draft)
  have p: "write_file demo_control_env demo_effects CfProfiles ?new (fst (save_refusal ?c))
      = ((fst (save_refusal ?c))\<lparr>ct_persist := (ct_persist ?c)\<lparr>pe_dirty := (pe_dirty (ct_persist ?c))(CfProfiles := False),
          pe_known := (pe_known (ct_persist ?c))(CfProfiles := Some 0)\<rparr>,
         ct_files := ((demo_disk b)(''d/profiles.tmp'' := None))(''d/profiles.json'' \<mapsto> File [2])\<rparr>, Inr ())"
    using config_paths_tmp(2) [of "''d''"]
    by (simp add: write_file_def persist_write_def file_bytes_def demo_control_env_def demo_store_def demo_effects_def write_atomic_def
      refusal_parts(1-4) demo_deleted_state config_file_path_def in_dir_def demo_disk_def clamp_active_def)
  have "nodes_dirty ?c" by (simp add: nodes_dirty_def list_dirty_def demo_deleted_state demo_start_state)
  then show ?thesis
    using none p
    by (simp add: write_nodes_def case_prod_beta Let_def refusal_parts(1,2) demo_deleted_state demo_start_state write_active_def
      clamp_active_def split: if_splits)
qed

lemma demo_saved: "snd (snd (write_nodes demo_control_env demo_effects (demo_deleted b))) = True"
  using demo_saved_leaving [of "ct_leave (demo_deleted b)" b] by simp

lemma demo_save: "\<exists>c' ch. write_nodes demo_control_env demo_effects (demo_deleted b) = (c', ch, True)"
  by (metis demo_saved prod.collapse)

theorem control_invariant_witness:
  "control_inv (gui_run demo_control_env [(demo_effects, OpCommand 2 Delete), (demo_effects, OpSave),
     (demo_effects, OpOutside ''d/runtime.json'' (Some (File [2]))), (demo_effects, OpFilesChanged), (demo_effects, OpShutdown)] (demo_start 7))"
  using control_invariant [OF demo_paths, of True traffic_new "demo_disk 7"] by (simp add: demo_start_def [symmetric] demo_start_state)

theorem unsaved_never_written_witness:
  "profiles_entry ''d'' (gui_run demo_control_env [(demo_effects, OpCommand 2 Delete), (demo_effects, OpFlushDue)] (demo_start 7))
       = profiles_entry ''d'' (demo_start 7)
   \<and> profiles_entry ''d'' (gui_run demo_control_env
       [(demo_effects, OpCommand 2 Delete), (demo_effects, OpOutside ''d/profiles.json'' (Some (File [9]))), (demo_effects, OpShutdown)] (demo_start 7))
       = Some (File [9])"
proof (rule conjI)
  let ?ops = "[(demo_effects, OpCommand 2 Delete), (demo_effects, OpFlushDue)]"
  have "\<forall>(e, op) \<in> set ?ops. \<not> saves_nodes op" "\<forall>(e, op) \<in> set ?ops. \<forall>y. op \<noteq> OpOutside (config_file_path (in_dir ''d'') CfProfiles) y"
    by (simp_all add: saves_nodes_def)
  then show "profiles_entry ''d'' (gui_run demo_control_env ?ops (demo_start 7)) = profiles_entry ''d'' (demo_start 7)"
    using unsaved_never_written [OF demo_start_inv [of 7] demo_paths] by blast
  let ?ops = "[(demo_effects, OpCommand 2 Delete), (demo_effects, OpOutside ''d/profiles.json'' (Some (File [9]))), (demo_effects, OpShutdown)]"
  have "\<forall>(e, op) \<in> set ?ops. \<not> saves_nodes op" by (simp add: saves_nodes_def)
  then have "profiles_entry ''d'' (gui_run demo_control_env ?ops (demo_start 7)) =
      outside_entry (config_file_path (in_dir ''d'') CfProfiles) ?ops (profiles_entry ''d'' (demo_start 7))"
    using unsaved_never_written [OF demo_start_inv [of 7] demo_paths] by blast
  then show "profiles_entry ''d'' (gui_run demo_control_env ?ops (demo_start 7)) = Some (File [9])"
    by (simp add: outside_entry_def outside_write_def config_file_path_def in_dir_def)
qed

lemma save_result_witness:
  "\<not> nodes_dirty (fst (write_nodes demo_control_env demo_effects (demo_deleted 7)))"
proof -
  obtain c' ch where w: "write_nodes demo_control_env demo_effects (demo_deleted 7) = (c', ch, True)" using demo_save by blast
  show ?thesis using save_result [OF demo_deleted_state(7) demo_paths w] w by simp
qed


theorem save_survives_restart_witness:
  "\<exists>c' ch. write_nodes demo_control_env demo_effects (demo_deleted 1) = (c', ch, True)
     \<and> profiles_of (controller_new demo_control_env True traffic_new (ct_files c')) = [demo_profile, demo_profile]"
proof -
  obtain c' ch where w: "write_nodes demo_control_env demo_effects (demo_deleted 1) = (c', ch, True)" using demo_save by blast
  show ?thesis
    using save_survives_restart [OF demo_deleted_state(7) demo_paths demo_json _ _ _ w] w
    by (simp add: demo_deleted_state(1-4) demo_start_parts demo_start_state)
qed

theorem save_leaves_stale_index_witness:
  "\<exists>c' ch. write_nodes demo_control_env demo_effects (demo_deleted 7) = (c', ch, True)
     \<and> selected_profile (ct_gui (controller_new demo_control_env True traffic_new (ct_files c'))) = None"
proof -
  obtain c' ch where w: "write_nodes demo_control_env demo_effects (demo_deleted 7) = (c', ch, True)" using demo_save by blast
  show ?thesis
    using save_leaves_stale_index [OF demo_deleted_state(7) demo_paths demo_json _ _ _ _ w, of True traffic_new] w
    by (simp add: demo_deleted_state(1-4) demo_start_parts demo_start_state Let_def)
qed

end
