(* ===== verification/Gui_Logs.thy ===== *)
theory Gui_Logs
  imports Gui_Control
begin

text \<open>
  Log lines and the traffic chart: \<open>gui/src/logging.rs\<close> and \<open>gui/src/ui/controller/logs.rs\<close>.

  Coordinates and angles are exact rationals where the source rounds to \<open>f64\<close>; \<open>TAU\<close> is the value of
  \<open>std::f64::consts::TAU\<close> as it is printed.  The text of the path commands is left out.
\<close>

section \<open>Log buffer\<close>

definition max_lines :: nat where "max_lines = 2000"

definition max_line_len :: nat where "max_line_len = 2048"

datatype level = Trace | Debug | Info | Warn | Error

record log_line =
  ll_time :: string
  ll_level :: level
  ll_target :: string
  ll_message :: string

record log_buffer =
  lb_lines :: "log_line list"
  lb_dropped :: u64
  lb_version :: u64

definition log_new :: log_buffer where
  "log_new = \<lparr>lb_lines = [], lb_dropped = 0, lb_version = 0\<rparr>"

definition two_digits :: "nat \<Rightarrow> string" where
  "two_digits n = (if n < 10 then ''0'' @ dec_str n else dec_str n)"

definition elapsed :: "nat \<Rightarrow> string" where
  "elapsed secs = two_digits (secs div 3600) @ '':'' @ two_digits ((secs div 60) mod 60) @ '':'' @ two_digits (secs mod 60)"

definition log_push :: "nat \<Rightarrow> level \<Rightarrow> string \<Rightarrow> string \<Rightarrow> log_buffer \<Rightarrow> log_buffer" where
  "log_push secs lv target message b =
     (let line = \<lparr>ll_time = elapsed secs, ll_level = lv, ll_target = target, ll_message = message\<rparr>;
          b1 = (if length (lb_lines b) = max_lines then b\<lparr>lb_lines := drop 1 (lb_lines b), lb_dropped := lb_dropped b + 1\<rparr> else b)
      in b1\<lparr>lb_lines := lb_lines b1 @ [line], lb_version := lb_version b + 1\<rparr>)"

definition log_clear :: "log_buffer \<Rightarrow> log_buffer" where
  "log_clear b = b\<lparr>lb_lines := [], lb_dropped := 0, lb_version := lb_version b + 1\<rparr>"

text \<open>\<open>str::is_char_boundary\<close>.\<close>

definition is_char_boundary :: "string \<Rightarrow> nat \<Rightarrow> bool" where
  "is_char_boundary s i = (i = 0 \<or> i = length s \<or> i < length s \<and> \<not> is_cont (str_bytes s ! i))"

fun boundary_below :: "string \<Rightarrow> nat \<Rightarrow> nat" where
  "boundary_below s 0 = 0"
| "boundary_below s (Suc n) = (if is_char_boundary s (Suc n) then Suc n else boundary_below s n)"

definition ellipsis :: string where "ellipsis = [CHR 0xE2, CHR 0x80, CHR 0xA6]"

definition visitor_append :: "string \<Rightarrow> string \<Rightarrow> string" where
  "visitor_append text message =
     (if max_line_len \<le> length message then message
      else
        let m = (if message = [] then message else message @ '' '');
            room = max_line_len - length m
        in if length text \<le> room then m @ text else m @ take (boundary_below text room) text @ ellipsis)"

text \<open>A field with its printed value.\<close>

definition record_field :: "string \<times> string \<Rightarrow> string \<Rightarrow> string" where
  "record_field f message = (case f of (name, val) \<Rightarrow> visitor_append (if name = ''message'' then val else name @ ''='' @ val) message)"

definition on_event :: "nat \<Rightarrow> level \<Rightarrow> string \<Rightarrow> string \<Rightarrow> (string \<times> string) list \<Rightarrow> log_buffer \<Rightarrow> log_buffer" where
  "on_event secs lv target name fs b =
     (let message = fold record_field fs [] in log_push secs lv target (if message = [] then name else message) b)"

section \<open>Refreshing the pages\<close>

record logs_state =
  ls_follow :: bool
  ls_seen_logs :: u64
  ls_seen_traffic :: u64

definition logs_new :: "log_buffer \<Rightarrow> traffic_data \<Rightarrow> logs_state" where
  "logs_new b d = \<lparr>ls_follow = True, ls_seen_logs = lb_version b, ls_seen_traffic = td_version d\<rparr>"

abbreviation "LOGS \<equiv> no_changes\<lparr>ch_logs := True\<rparr>"
abbreviation "TRAFFIC \<equiv> no_changes\<lparr>ch_traffic := True\<rparr>"

definition refresh_logs :: "log_buffer \<Rightarrow> logs_state \<Rightarrow> logs_state \<times> changes" where
  "refresh_logs b s = (s\<lparr>ls_seen_logs := lb_version b\<rparr>, if lb_version b \<noteq> ls_seen_logs s then LOGS else no_changes)"

definition refresh_traffic :: "traffic_data \<Rightarrow> logs_state \<Rightarrow> logs_state \<times> changes" where
  "refresh_traffic d s = (s\<lparr>ls_seen_traffic := td_version d\<rparr>, if td_version d \<noteq> ls_seen_traffic s then TRAFFIC else no_changes)"

definition reload_logs :: "log_buffer \<Rightarrow> logs_state \<Rightarrow> logs_state \<times> changes" where
  "reload_logs b s = (s\<lparr>ls_seen_logs := lb_version b\<rparr>, LOGS)"

definition reload_traffic :: "traffic_data \<Rightarrow> logs_state \<Rightarrow> logs_state \<times> changes" where
  "reload_traffic d s = (s\<lparr>ls_seen_traffic := td_version d\<rparr>, TRAFFIC)"

definition set_log_follow :: "bool \<Rightarrow> logs_state \<Rightarrow> logs_state \<times> changes" where
  "set_log_follow follow s = (if ls_follow s = follow then (s, no_changes) else (s\<lparr>ls_follow := follow\<rparr>, LOGS))"

definition clear_logs :: "log_buffer \<Rightarrow> logs_state \<Rightarrow> log_buffer \<times> logs_state \<times> changes" where
  "clear_logs b s = (let b' = log_clear b in (b', s\<lparr>ls_seen_logs := lb_version b'\<rparr>, LOGS))"

section \<open>The chart\<close>

type_synonym chart_point = "rat \<times> rat"

type_synonym segment = "chart_point \<times> chart_point \<times> chart_point \<times> chart_point"

definition slopes_of :: "rat list \<Rightarrow> rat list" where
  "slopes_of values = map (\<lambda>i. values ! (i + 1) - values ! i) [0..<length values - 1]"

definition tangent :: "rat list \<Rightarrow> nat \<Rightarrow> rat" where
  "tangent slopes i =
     (case (if i = 0 then None else Some (slopes ! (i - 1)), if i < length slopes then Some (slopes ! i) else None) of
        (Some before, Some after) \<Rightarrow> if before * after > 0 then 2 * before * after / (before + after) else 0
      | (None, Some only) \<Rightarrow> only
      | (Some only, None) \<Rightarrow> only
      | (None, None) \<Rightarrow> 0)"

definition segment_at :: "rat list \<Rightarrow> nat \<Rightarrow> segment" where
  "segment_at values i =
     (let slopes = slopes_of values; x = of_nat i; start = values ! i; stop = values ! (i + 1) in
      ((x, start), (x + 1 / 3, start + tangent slopes i / 3), (x + 2 / 3, stop - tangent slopes (i + 1) / 3), (x + 1, stop)))"

definition monotone_segments :: "rat list \<Rightarrow> segment list" where
  "monotone_segments values = map (segment_at values) [0..<length (slopes_of values)]"

definition scale_floor :: rat where "scale_floor = 1024"

definition clamp :: "rat \<Rightarrow> rat \<Rightarrow> rat \<Rightarrow> rat" where
  "clamp lo hi v = (if v < lo then lo else if hi < v then hi else v)"

definition series :: "rat \<Rightarrow> (speed \<Rightarrow> rat) \<Rightarrow> speed list \<Rightarrow> rat list" where
  "series scale pick samples =
     replicate (history_limit - length samples) 0 @ map (\<lambda>s. clamp 0 1 (pick s / scale)) samples"

definition chart_curves :: "traffic_snapshot \<Rightarrow> segment list \<times> segment list" where
  "chart_curves snap =
     (let scale = max (max (ts_peak_down snap) (ts_peak_up snap)) scale_floor;
          samples = drop (length (ts_samples snap) - history_limit) (ts_samples snap)
      in if length samples < 2 then ([], [])
         else (monotone_segments (series scale sp_down samples), monotone_segments (series scale sp_up samples)))"

definition TAU :: rat where "TAU = 6283185307179586 / 10 ^ 15"

definition donut_gap :: rat where "donut_gap = 12 / 100"

definition donut_min_sweep :: rat where "donut_min_sweep = 6 / 100"

definition donut_sweeps :: "u64 \<Rightarrow> u64 \<Rightarrow> (rat \<times> rat) option \<times> (rat \<times> rat) option" where
  "donut_sweeps down up =
     (if down = 0 \<and> up = 0 then (None, None)
      else if up = 0 then (Some (0, TAU), None)
      else if down = 0 then (None, Some (0, TAU))
      else
        let reserve = donut_gap + donut_min_sweep;
            share = of_nat (unat down) / (of_nat (unat down) + of_nat (unat up));
            split = clamp reserve (TAU - reserve) (TAU * share);
            half = donut_gap / 2
        in (Some (half, split - half), Some (split + half, TAU - half)))"

section \<open>Lemmas\<close>

text \<open>Between zero and twice a slope.\<close>

definition within_twice :: "rat \<Rightarrow> rat \<Rightarrow> bool" where
  "within_twice t m = (if 0 \<le> m then 0 \<le> t \<and> t \<le> 2 * m else 2 * m \<le> t \<and> t \<le> 0)"

lemma harmonic_pos:
  fixes a b :: rat
  assumes "0 < a" "0 < b"
  shows "0 \<le> 2 * a * b / (a + b)" "2 * a * b / (a + b) \<le> 2 * a" "2 * a * b / (a + b) \<le> 2 * b"
  using assms by (simp_all add: pos_divide_le_eq algebra_simps)

lemma harmonic_within:
  assumes "0 < a * b"
  shows "within_twice (2 * a * b / (a + b)) a" "within_twice (2 * a * b / (a + b)) b"
proof -
  have "within_twice (2 * a * b / (a + b)) a \<and> within_twice (2 * a * b / (a + b)) b"
  proof (cases "0 < a")
    case True
    then have "0 < b" using assms by (simp add: zero_less_mult_iff)
    then show ?thesis using harmonic_pos [OF True] True by (simp add: within_twice_def)
  next
    case False
    then have n: "0 < - a" "0 < - b" using assms by (simp_all add: zero_less_mult_iff)
    have "2 * (- a) * (- b) / ((- a) + (- b)) = - (2 * a * b / (a + b))" by (metis minus_add_distrib minus_divide_right mult_minus_left mult_minus_right minus_minus)
    then show ?thesis using harmonic_pos [OF n] n by (simp add: within_twice_def)
  qed
  then show "within_twice (2 * a * b / (a + b)) a" "within_twice (2 * a * b / (a + b)) b" by blast+
qed

lemma within_twice_simple [simp]: "within_twice m m" "within_twice 0 m"
  by (simp_all add: within_twice_def)

lemma tangent_within:
  assumes "i < length s"
  shows "within_twice (tangent s i) (s ! i)" "within_twice (tangent s (i + 1)) (s ! i)"
  using assms harmonic_within [of "s ! (i - 1)" "s ! i"] harmonic_within [of "s ! i" "s ! (i + 1)"]
  by (simp_all add: tangent_def)

lemma length_slopes [simp]: "length (slopes_of values) = length values - 1"
  by (simp add: slopes_of_def)

text \<open>The value of a cubic curve over its control values.\<close>

definition bezier :: "rat \<Rightarrow> rat \<Rightarrow> rat \<Rightarrow> rat \<Rightarrow> rat \<Rightarrow> rat" where
  "bezier t a b c d = (1 - t) ^ 3 * a + 3 * (1 - t) ^ 2 * t * b + 3 * (1 - t) * t ^ 2 * c + t ^ 3 * d"

lemma bezier_const: "bezier t m m m m = m"
  by (simp add: bezier_def power2_eq_square power3_eq_cube algebra_simps)

lemma bezier_even: "bezier t x (x + 1 / 3) (x + 2 / 3) (x + 1) = x + t"
proof -
  have "bezier t (x + 0) (x + 1 / 3) (x + 2 / 3) (x + 1) = x + bezier t 0 (1 / 3) (2 / 3) 1"
    by (simp add: bezier_def power2_eq_square power3_eq_cube algebra_simps)
  moreover have "bezier t 0 (1 / 3) (2 / 3) 1 = t"
    by (simp add: bezier_def power2_eq_square power3_eq_cube algebra_simps)
  ultimately show ?thesis by simp
qed

lemma bezier_mono:
  assumes "0 \<le> t" "t \<le> 1" "a \<le> a'" "b \<le> b'" "c \<le> c'" "d \<le> d'"
  shows "bezier t a b c d \<le> bezier t a' b' c' d'"
  unfolding bezier_def using assms by (intro add_mono mult_left_mono) simp_all

lemma bezier_hull:
  assumes "0 \<le> t" "t \<le> 1" "lo \<le> a" "lo \<le> b" "lo \<le> c" "lo \<le> d" "a \<le> hi" "b \<le> hi" "c \<le> hi" "d \<le> hi"
  shows "lo \<le> bezier t a b c d" "bezier t a b c d \<le> hi"
  using bezier_mono [OF assms(1-6)] bezier_mono [OF assms(1,2,7-10)] by (simp_all add: bezier_const)

lemma segment_hull:
  assumes "i + 1 < length values" "segment_at values i = ((x0, a), (x1, b), (x2, c), (x3, d))"
  shows "a = values ! i" "d = values ! (i + 1)"
    "min a d \<le> b" "b \<le> max a d" "min a d \<le> c" "c \<le> max a d"
proof -
  let ?s = "slopes_of values"
  have i: "i < length ?s" and si: "?s ! i = values ! (i + 1) - values ! i" using assms(1) by (simp_all add: slopes_of_def less_diff_conv)
  show ad: "a = values ! i" "d = values ! (i + 1)" using assms(2) by (auto simp: segment_at_def Let_def)
  have b: "b = a + tangent ?s i / 3" and c: "c = d - tangent ?s (i + 1) / 3"
    using assms(2) ad by (auto simp: segment_at_def Let_def)
  have w: "within_twice (tangent ?s i) (d - a)" "within_twice (tangent ?s (i + 1)) (d - a)"
    using tangent_within [OF i] si ad by simp_all
  show "min a d \<le> b" "b \<le> max a d" "min a d \<le> c" "c \<le> max a d"
    using w by (auto simp: b c within_twice_def min_def max_def split: if_splits)
qed

text \<open>The chart stays in its box, from the first slot to the last.\<close>

lemma clamp_range: "lo \<le> hi \<Longrightarrow> lo \<le> clamp lo hi v \<and> clamp lo hi v \<le> hi"
  by (simp add: clamp_def)

lemma series_range: "v \<in> set (series scale pick samples) \<Longrightarrow> 0 \<le> v \<and> v \<le> 1"
  by (auto simp: series_def clamp_range)

lemma chart_in_box:
  assumes "chart_curves snap = (down, up)" "((x0, a), (x1, b), (x2, c), (x3, d)) \<in> set (down @ up)"
  shows "list_all (\<lambda>y. 0 \<le> y \<and> y \<le> 1) [a, b, c, d]"
proof -
  obtain scale pick samples where "((x0, a), (x1, b), (x2, c), (x3, d)) \<in> set (monotone_segments (series scale pick samples))"
    using assms by (auto simp: chart_curves_def Let_def split: if_splits)
  then obtain i where i: "i + 1 < length (series scale pick samples)"
    "segment_at (series scale pick samples) i = ((x0, a), (x1, b), (x2, c), (x3, d))"
    by (auto simp: monotone_segments_def less_diff_conv)
  note h = segment_hull [OF i]
  have "0 \<le> a \<and> a \<le> 1" "0 \<le> d \<and> d \<le> 1" using h(1,2) i(1) series_range nth_mem by (metis add_lessD1)+
  then show ?thesis using h(3-6) by (auto simp: min_def max_def split: if_splits)
qed

lemma chart_width:
  assumes "chart_curves snap = (down, up)" "2 \<le> length (ts_samples snap)"
  shows "length down = history_limit - 1" "length up = history_limit - 1"
  using assms by (auto simp: chart_curves_def Let_def monotone_segments_def series_def history_limit_def split: if_splits)

text \<open>The usage ring: the arcs start and end half a gap from each other and none is too short to see.\<close>

lemma donut_arcs:
  assumes "donut_sweeps down up = (Some (a, b), Some (c, d))"
  shows "a = donut_gap / 2" "c - b = donut_gap" "d = TAU - donut_gap / 2" "donut_min_sweep \<le> b - a" "donut_min_sweep \<le> d - c"
proof -
  let ?r = "donut_gap + donut_min_sweep" and ?share = "of_nat (unat down) / (of_nat (unat down) + of_nat (unat up)) :: rat"
  have "?r \<le> TAU - ?r" by (simp add: donut_gap_def donut_min_sweep_def TAU_def)
  from clamp_range [OF this, of "TAU * ?share"]
  show "a = donut_gap / 2" "c - b = donut_gap" "d = TAU - donut_gap / 2" "donut_min_sweep \<le> b - a" "donut_min_sweep \<le> d - c"
    using assms by (auto simp: donut_sweeps_def Let_def split: if_splits)
qed

text \<open>A line can be three bytes longer than the limit, by the ellipsis.\<close>

lemma boundary_below_le: "boundary_below s n \<le> n"
  by (induction n) auto

lemma visitor_append_len:
  assumes "length m \<le> max_line_len + 3"
  shows "length (visitor_append t m) \<le> max_line_len + 3"
proof (cases "max_line_len \<le> length m")
  case False
  define m' where "m' = (if m = [] then m else m @ '' '')"
  define r where "r = max_line_len - length m'"
  have "length m' + r = max_line_len" using False by (simp add: m'_def r_def)
  moreover have "visitor_append t m = (if length t \<le> r then m' @ t else m' @ take (boundary_below t r) t @ ellipsis)"
    using False by (simp add: visitor_append_def m'_def r_def Let_def)
  moreover have "min (length t) (boundary_below t r) \<le> r" using boundary_below_le [of t r] by simp
  ultimately show ?thesis by (auto simp: ellipsis_def)
qed (use assms in \<open>simp add: visitor_append_def\<close>)

text \<open>A message of two fields that is longer than the limit.\<close>

lemma line_over_limit: "length (visitor_append ''b'' (replicate 2047 (CHR ''a''))) = max_line_len + 3"
  by (simp add: visitor_append_def max_line_len_def ellipsis_def Let_def)

lemma line_length: "length (fold record_field fs []) \<le> max_line_len + 3"
proof -
  have "length m \<le> max_line_len + 3 \<Longrightarrow> length (fold record_field fs m) \<le> max_line_len + 3" for m
    by (induction fs arbitrary: m) (auto simp: record_field_def visitor_append_len)
  then show ?thesis by simp
qed

text \<open>The log keeps the latest lines and counts the others: after lines were added to a cleared log, it holds
  the last 2000 of them, oldest first, and the count of dropped lines is exactly the rest.\<close>

type_synonym log_event = "nat \<times> level \<times> string \<times> string"

definition line_of :: "log_event \<Rightarrow> log_line" where
  "line_of e = (case e of (secs, lv, target, message) \<Rightarrow>
     \<lparr>ll_time = elapsed secs, ll_level = lv, ll_target = target, ll_message = message\<rparr>)"

definition push_all :: "log_event list \<Rightarrow> log_buffer \<Rightarrow> log_buffer" where
  "push_all es b = fold (\<lambda>(secs, lv, target, message). log_push secs lv target message) es b"

lemma push_all_state:
  "lb_lines (push_all es (log_clear b)) = drop (length es - max_lines) (map line_of es)
   \<and> lb_dropped (push_all es (log_clear b)) = of_nat (length es - max_lines)
   \<and> lb_version (push_all es (log_clear b)) = lb_version b + 1 + of_nat (length es)"
proof (induction es rule: rev_induct)
  case (snoc e es)
  obtain secs lv target message where e: "e = (secs, lv, target, message)" by (cases e)
  let ?b = "push_all es (log_clear b)"
  have step: "push_all (es @ [(secs, lv, target, message)]) (log_clear b) = log_push secs lv target message ?b" by (simp add: push_all_def)
  have full: "length (lb_lines ?b) = max_lines \<longleftrightarrow> max_lines \<le> length es" using snoc by (auto simp: max_lines_def)
  show ?case
  proof (cases "max_lines \<le> length es")
    case True
    then have n: "Suc (length es) - max_lines = Suc (length es - max_lines)" "Suc (length es - max_lines) - length es = 0"
      by (simp_all add: max_lines_def)
    then show ?thesis using snoc True full by (simp add: step log_push_def Let_def line_of_def e)
  next
    case False
    then show ?thesis using snoc full by (simp add: step log_push_def Let_def line_of_def e)
  qed
qed (simp add: push_all_def log_clear_def)

lemma log_keeps_latest:
  assumes "length es < 2 ^ 64"
  shows "lb_lines (push_all es (log_clear b)) = drop (length es - max_lines) (map line_of es)"
    "length (lb_lines (push_all es (log_clear b))) \<le> max_lines"
    "unat (lb_dropped (push_all es (log_clear b))) + length (lb_lines (push_all es (log_clear b))) = length es"
  using push_all_state [of es b] assms by (simp_all add: unat_of_nat max_lines_def)

text \<open>The page is told exactly when there is something new.\<close>

lemma refresh_exact:
  assumes "length es < 2 ^ 64"
  shows "snd (refresh_logs (push_all es (log_clear b)) (fst (reload_logs (log_clear b) s))) = (if es = [] then no_changes else LOGS)"
    "snd (refresh_logs b (fst (refresh_logs b s))) = no_changes"
proof -
  have "unat (of_nat (length es) :: u64) = length es" using assms by (simp add: unat_of_nat)
  then have "of_nat (length es) = (0 :: u64) \<longleftrightarrow> es = []" by (cases "of_nat (length es) = (0 :: u64)") auto
  then show "snd (refresh_logs (push_all es (log_clear b)) (fst (reload_logs (log_clear b) s))) = (if es = [] then no_changes else LOGS)"
    using push_all_state [of es b] by (auto simp: refresh_logs_def reload_logs_def log_clear_def)
qed (simp add: refresh_logs_def)

section \<open>Properties\<close>

text \<open>\<^bold>\<open>C37.\<close>  The traffic curve never overshoots: every piece of it runs from one sample to the next at an even
  pace from slot to slot, and at every point in between its height lies between these two samples.\<close>

theorem chart_never_overshoots:
  assumes "i + 1 < length values" "0 \<le> t" "t \<le> 1"
  shows "case monotone_segments values ! i of ((x0, a), (x1, b), (x2, c), (x3, d)) \<Rightarrow>
    a = values ! i \<and> d = values ! (i + 1) \<and> bezier t x0 x1 x2 x3 = of_nat i + t
    \<and> min a d \<le> bezier t a b c d \<and> bezier t a b c d \<le> max a d"
proof -
  obtain x0 a x1 b x2 c x3 d where seg: "segment_at values i = ((x0, a), (x1, b), (x2, c), (x3, d))" by (metis prod.collapse)
  have m: "monotone_segments values ! i = segment_at values i" using assms(1) by (simp add: monotone_segments_def less_diff_conv)
  note h = segment_hull [OF assms(1) seg]
  have "min a d \<le> bezier t a b c d" "bezier t a b c d \<le> max a d"
    by (rule bezier_hull [OF assms(2,3), of "min a d" a b c d "max a d"]; use h(3-6) in simp)+
  moreover have "x0 = of_nat i" "x1 = of_nat i + 1 / 3" "x2 = of_nat i + 2 / 3" "x3 = of_nat i + 1"
    using seg by (auto simp: segment_at_def Let_def)
  then have "bezier t x0 x1 x2 x3 = of_nat i + t" by (simp only: bezier_even)
  ultimately show ?thesis using h(1,2) by (simp add: m seg)
qed

theorem chart_never_overshoots_witness:
  "case monotone_segments [0, 1, 3, 2] ! 1 of ((x0, a), (x1, b), (x2, c), (x3, d)) \<Rightarrow> bezier (1 / 2) a b c d \<le> max 1 3"
  using chart_never_overshoots [of 1 "[0, 1, 3, 2]" "1 / 2"] by (auto split: prod.splits)

end
