(* ===== verification/Gui_Desktop.thy ===== *)
theory Gui_Desktop
  imports Gui_Config Gui_Pac
begin

text \<open>
  The desktop session: \<open>gui/src/desktop/\<close> \<open>autostart.rs\<close>, \<open>integration.rs\<close> (Linux), the menu ids of \<open>tray/mod.rs\<close> and
  the decisions of \<open>single_instance.rs\<close>; and the choice of a language in \<open>gui/src/i18n.rs\<close>.

  Files are those of \<open>Gui_Config\<close>; a fault is an argument.  The icons, which the build renders, and the
  template of the desktop file are arguments.  D-Bus, the Windows registry, pipes and shortcuts are
  calls to other software.
\<close>

section \<open>Paths\<close>

text \<open>\<open>std::path\<close> for Unix, as far as it is used: \<open>join\<close> with a relative path, and the comparison by components.\<close>

definition is_absolute :: "string \<Rightarrow> bool" where
  "is_absolute path = starts_with ''/'' path"

definition join_path :: "string \<Rightarrow> string \<Rightarrow> string" where
  "join_path dir name = (if dir = [] \<or> last dir = CHR ''/'' then dir @ name else dir @ ''/'' @ name)"

definition path_components :: "string \<Rightarrow> string list" where
  "path_components path =
     (case split_on (CHR ''/'') path of
        [] \<Rightarrow> [] | c # cs \<Rightarrow> (if c = [] then [] else [c]) @ filter (\<lambda>c. c \<noteq> [] \<and> c \<noteq> ''.'') cs)"

definition same_path :: "string \<Rightarrow> string \<Rightarrow> bool" where
  "same_path p q = (is_absolute p = is_absolute q \<and> path_components p = path_components q)"

section \<open>Autostart\<close>

definition backslash_char :: char where "backslash_char = CHR 0x5C"

definition quote_char :: char where "quote_char = CHR 0x22"

definition reserved :: "char list" where
  "reserved = [CHR '' '', CHR 0x09, CHR 0x0A, quote_char, CHR 0x27, backslash_char, CHR ''>'', CHR ''<'', CHR ''~'', CHR ''|'', CHR ''&'',
     CHR '';'', CHR ''$'', CHR ''*'', CHR ''?'', CHR ''#'', CHR ''('', CHR '')'', CHR 0x60]"

definition quote_step :: "char \<Rightarrow> string" where
  "quote_step c = (if c = quote_char \<or> c = CHR 0x60 \<or> c = CHR ''$'' \<or> c = backslash_char then [backslash_char, c] else [c])"

definition escape_step :: "char \<Rightarrow> string" where
  "escape_step c =
     (if c = CHR ''%'' then ''%%'' else if c = backslash_char then [backslash_char, backslash_char]
      else if c = CHR 0x0A then [backslash_char, CHR ''n''] else if c = CHR 0x09 then [backslash_char, CHR ''t'']
      else if c = CHR 0x0D then [backslash_char, CHR ''r''] else [c])"

definition exec_argument :: "string \<Rightarrow> string" where
  "exec_argument arg =
     (let quoted = (if list_ex (\<lambda>c. c \<in> set reserved) arg then [quote_char] @ concat (map quote_step arg) @ [quote_char] else arg)
      in concat (map escape_step quoted))"

definition new_line :: string where "new_line = [CHR 0x0A]"

definition autostart_entry :: "string \<Rightarrow> string" where
  "autostart_entry exe =
     ''[Desktop Entry]'' @ new_line @ ''Type=Application'' @ new_line @ ''Name=Juicity GUI'' @ new_line
     @ ''Comment=Juicity GUI Client'' @ new_line @ ''Exec='' @ exec_argument exe @ new_line @ ''Icon=io.juicity.gui'' @ new_line
     @ ''Terminal=false'' @ new_line @ ''Categories=Network;'' @ new_line @ ''X-GNOME-Autostart-enabled=true'' @ new_line"

datatype desktop_error = NoHome | RemoveFailed | MkdirFailedAt string | WriteFailedAt string

datatype file_fault = RemoveFault | DirFault | ContentFault nat

text \<open>Writing is not atomic here: a failure leaves what was written.\<close>

definition write_or_remove :: "file_fault option \<Rightarrow> bool \<Rightarrow> string \<Rightarrow> bytes \<Rightarrow> files \<Rightarrow> files \<times> (desktop_error + unit)" where
  "write_or_remove fault enabled file content m =
     (if \<not> enabled
      then if m file = None then (m, Inr ())
           else if fault = Some RemoveFault then (m, Inl RemoveFailed) else (m(file := None), Inr ())
      else case fault of
        Some DirFault \<Rightarrow> (m, Inl (MkdirFailedAt file))
      | Some (ContentFault k) \<Rightarrow> (m(file \<mapsto> File (take k content)), Inl (WriteFailedAt file))
      | _ \<Rightarrow> (m(file \<mapsto> File content), Inr ()))"

definition apply_in :: "file_fault option \<Rightarrow> string \<Rightarrow> bool \<Rightarrow> string \<Rightarrow> files \<Rightarrow> files \<times> (desktop_error + unit)" where
  "apply_in fault dir enabled exe m =
     write_or_remove fault enabled (join_path dir ''io.juicity.gui.desktop'') (str_bytes (autostart_entry exe)) m"


definition autostart_dir :: "string option \<Rightarrow> string option \<Rightarrow> desktop_error + string" where
  "autostart_dir xdg_config home =
     (case (case xdg_config of Some p \<Rightarrow> if is_absolute p then Some p else None | None \<Rightarrow> None) of
        Some p \<Rightarrow> Inr (join_path p ''autostart'')
      | None \<Rightarrow> (case home of Some h \<Rightarrow> Inr (join_path (join_path h ''.config'') ''autostart'') | None \<Rightarrow> Inl NoHome))"

definition apply_with :: "file_fault option \<Rightarrow> file_fault option \<Rightarrow> string option \<Rightarrow> string option \<Rightarrow> bool \<Rightarrow> string \<Rightarrow> files \<Rightarrow>
    files \<times> (desktop_error + unit)" where
  "apply_with fault fault2 xdg_config home enabled exe m =
     (case autostart_dir xdg_config home of
        Inl e \<Rightarrow> (m, Inl e)
      | Inr dir \<Rightarrow>
          (case apply_in fault dir enabled exe m of
             (m1, Inl e) \<Rightarrow> (m1, Inl e)
           | (m1, Inr _) \<Rightarrow>
               (case home of
                  Some h \<Rightarrow> let legacy = join_path h ''.config/autostart'' in
                            if \<not> enabled \<and> \<not> same_path legacy dir then apply_in fault2 legacy False exe m1 else (m1, Inr ())
                | None \<Rightarrow> (m1, Inr ()))))"

definition xml_step :: "char \<Rightarrow> string" where
  "xml_step c = (if c = CHR ''&'' then ''&amp;'' else if c = CHR ''<'' then ''&lt;'' else if c = CHR ''>'' then ''&gt;'' else [c])"

definition tab :: string where "tab = [CHR 0x09]"

definition quoted_text :: "string \<Rightarrow> string" where "quoted_text s = [quote_char] @ s @ [quote_char]"

definition launch_agent :: "string \<Rightarrow> string" where
  "launch_agent exe =
     ''<?xml version='' @ quoted_text ''1.0'' @ '' encoding='' @ quoted_text ''UTF-8'' @ ''?>'' @ new_line
     @ ''<!DOCTYPE plist PUBLIC '' @ quoted_text ''-//Apple//DTD PLIST 1.0//EN'' @ '' ''
     @ quoted_text ''http://www.apple.com/DTDs/PropertyList-1.0.dtd'' @ ''>'' @ new_line
     @ ''<plist version='' @ quoted_text ''1.0'' @ ''>'' @ new_line @ ''<dict>'' @ new_line
     @ tab @ ''<key>Label</key>'' @ new_line @ tab @ ''<string>io.juicity.gui</string>'' @ new_line
     @ tab @ ''<key>ProgramArguments</key>'' @ new_line @ tab @ ''<array>'' @ new_line
     @ tab @ tab @ ''<string>'' @ concat (map xml_step exe) @ ''</string>'' @ new_line
     @ tab @ ''</array>'' @ new_line @ tab @ ''<key>RunAtLoad</key>'' @ new_line @ tab @ ''<true/>'' @ new_line
     @ ''</dict>'' @ new_line @ ''</plist>'' @ new_line"

definition apply_launch_agent :: "file_fault option \<Rightarrow> string \<Rightarrow> bool \<Rightarrow> string \<Rightarrow> files \<Rightarrow> files \<times> (desktop_error + unit)" where
  "apply_launch_agent fault dir enabled exe m =
     write_or_remove fault enabled (join_path dir ''io.juicity.gui.plist'') (str_bytes (launch_agent exe)) m"

definition run_command :: "string \<Rightarrow> string" where "run_command exe = quoted_text exe"

section \<open>Desktop file and icons\<close>

definition app_id :: string where "app_id = ''io.juicity.gui''"

definition data_home :: "string option \<Rightarrow> string option \<Rightarrow> desktop_error + string" where
  "data_home xdg_data home =
     (case (case xdg_data of Some p \<Rightarrow> if is_absolute p then Some p else None | None \<Rightarrow> None) of
        Some p \<Rightarrow> Inr p
      | None \<Rightarrow> (case home of Some h \<Rightarrow> if h = [] then Inl NoHome else Inr (join_path h ''.local/share'') | None \<Rightarrow> Inl NoHome))"

definition desktop_entry :: "string \<Rightarrow> string \<Rightarrow> string" where
  "desktop_entry template exe =
     concat (map (\<lambda>line. (if starts_with ''Exec='' line then ''Exec='' @ exec_argument exe else line) @ new_line) (str_lines template))"

text \<open>The temporary file is in the same directory and is removed again after a failure.\<close>

definition write_if_changed :: "(string \<Rightarrow> file_fault option) \<Rightarrow> string \<Rightarrow> bytes \<Rightarrow> files \<Rightarrow> files \<times> (desktop_error + bool)" where
  "write_if_changed fault path content m =
     (if m path = Some (File content) then (m, Inr False)
      else case fault path of
        Some DirFault \<Rightarrow> (m, Inl (MkdirFailedAt path))
      | Some _ \<Rightarrow> (m, Inl (WriteFailedAt path))
      | None \<Rightarrow> if m path = Some Unreadable then (m, Inl (WriteFailedAt path)) else (m(path \<mapsto> File content), Inr True))"

fun write_each :: "(string \<Rightarrow> file_fault option) \<Rightarrow> (string \<times> bytes) list \<Rightarrow> bool \<Rightarrow> files \<Rightarrow> files \<times> (desktop_error + bool)" where
  "write_each fault [] wrote m = (m, Inr wrote)"
| "write_each fault ((path, content) # fs) wrote m =
     (case write_if_changed fault path content m of
        (m1, Inl e) \<Rightarrow> (m1, Inl e)
      | (m1, Inr w) \<Rightarrow> write_each fault fs (wrote \<or> w) m1)"

definition installed_files :: "string \<Rightarrow> string \<Rightarrow> (nat \<times> bytes) list \<Rightarrow> bytes \<Rightarrow> string \<Rightarrow> (string \<times> bytes) list" where
  "installed_files home template pngs svg exe =
     (let icons = join_path home ''icons/hicolor'' in
      map (\<lambda>(size, png). (join_path icons (dec_str size @ ''x'' @ dec_str size @ ''/apps/'' @ app_id @ ''.png''), png)) pngs
     @ [(join_path icons (''scalable/apps/'' @ app_id @ ''.svg''), svg),
        (join_path (join_path home ''applications'') (app_id @ ''.desktop''), str_bytes (desktop_entry template exe))])"

definition install_in :: "(string \<Rightarrow> file_fault option) \<Rightarrow> string \<Rightarrow> string list \<Rightarrow> string \<Rightarrow> (nat \<times> bytes) list \<Rightarrow> bytes \<Rightarrow> string \<Rightarrow> files \<Rightarrow>
    files \<times> (desktop_error + bool)" where
  "install_in fault home system_dirs template pngs svg exe m =
     (if list_ex (\<lambda>dir. m (join_path dir (app_id @ ''.desktop'')) \<noteq> None) system_dirs then (m, Inr False)
      else write_each fault (installed_files home template pngs svg exe) False m)"

section \<open>Tray menu\<close>

datatype tray_click = TeToggleWindow | TeToggleConnection | TeSetProxyMode system_proxy_mode | TeSetPacRule pac_rule_mode | TeUpdateRules
  | TeSelectNode nat | TeImportClipboard | TeOpen | TeShowNodes | TeShowLogs | TeShowSettings | TeShowAbout | TeQuit

definition proxy_modes :: "system_proxy_mode list" where "proxy_modes = [ProxyDisable, ProxyPac, ProxyGlobal]"

definition pac_rules :: "pac_rule_mode list" where "pac_rules = [BypassChina, ProxyGfw]"

fun position :: "'a \<Rightarrow> 'a list \<Rightarrow> nat option" where
  "position y [] = None"
| "position y (x # xs) = (if x = y then Some 0 else map_option Suc (position y xs))"

definition proxy_index :: "system_proxy_mode \<Rightarrow> nat" where
  "proxy_index mode = (case position mode proxy_modes of Some i \<Rightarrow> i | None \<Rightarrow> 0)"

definition pac_index :: "pac_rule_mode \<Rightarrow> nat" where
  "pac_index rule = (case position rule pac_rules of Some i \<Rightarrow> i | None \<Rightarrow> 0)"

fun menu_id :: "tray_click \<Rightarrow> string" where
  "menu_id TeToggleWindow = ''window''"
| "menu_id TeToggleConnection = ''connection''"
| "menu_id (TeSetProxyMode mode) = ''proxy:'' @ dec_str (proxy_index mode)"
| "menu_id (TeSetPacRule rule) = ''pac:'' @ dec_str (pac_index rule)"
| "menu_id TeUpdateRules = ''rules''"
| "menu_id (TeSelectNode i) = ''node:'' @ dec_str i"
| "menu_id TeImportClipboard = ''import''"
| "menu_id TeOpen = ''open''"
| "menu_id TeShowNodes = ''nodes''"
| "menu_id TeShowLogs = ''logs''"
| "menu_id TeShowSettings = ''settings''"
| "menu_id TeShowAbout = ''about''"
| "menu_id TeQuit = ''quit''"

definition indexed :: "string \<Rightarrow> string \<Rightarrow> nat option" where
  "indexed prefix i = Option.bind (strip_prefix prefix i) (parse_uint 10 (2 ^ 64))"

definition plain_ids :: "(string \<times> tray_click) list" where
  "plain_ids = [(''window'', TeToggleWindow), (''connection'', TeToggleConnection), (''rules'', TeUpdateRules), (''import'', TeImportClipboard),
     (''open'', TeOpen), (''nodes'', TeShowNodes), (''logs'', TeShowLogs), (''settings'', TeShowSettings), (''about'', TeShowAbout),
     (''quit'', TeQuit)]"

definition from_menu_id :: "string \<Rightarrow> tray_click option" where
  "from_menu_id i =
     (case map_of plain_ids i of
        Some e \<Rightarrow> Some e
      | None \<Rightarrow>
          (case indexed ''proxy:'' i of
             Some k \<Rightarrow> if k < length proxy_modes then Some (TeSetProxyMode (proxy_modes ! k)) else None
           | None \<Rightarrow>
               (case indexed ''pac:'' i of
                  Some k \<Rightarrow> if k < length pac_rules then Some (TeSetPacRule (pac_rules ! k)) else None
                | None \<Rightarrow> map_option TeSelectNode (indexed ''node:'' i))))"

definition escape_mnemonic :: "string \<Rightarrow> char \<Rightarrow> string" where
  "escape_mnemonic label marker = concat (map (\<lambda>c. if c = marker then [c, marker] else [c]) label)"

section \<open>One instance\<close>

datatype claim = Acquired | Taken | Unavailable

datatype decision = Primary | ActivateExisting | Unguarded

fun decide_instance :: "claim \<Rightarrow> decision" where
  "decide_instance Acquired = Primary"
| "decide_instance Taken = ActivateExisting"
| "decide_instance Unavailable = Unguarded"

record activation =
  av_ready :: bool
  av_pending :: bool

definition activation_new :: activation where "activation_new = \<lparr>av_ready = False, av_pending = False\<rparr>"

definition request_activation :: "activation \<Rightarrow> activation \<times> bool" where
  "request_activation a = (if \<not> av_ready a then a\<lparr>av_pending := True\<rparr> else a, av_ready a)"

definition window_ready :: "activation \<Rightarrow> activation \<times> bool" where
  "window_ready a = (a\<lparr>av_ready := True, av_pending := False\<rparr>, av_pending a)"

section \<open>Language\<close>

datatype ui_lang = UiEn | UiZhCn | UiZhTw | UiRu

definition pick_locale :: "string option list \<Rightarrow> string option" where
  "pick_locale vars = find (\<lambda>v. v \<noteq> []) (List.map_filter (\<lambda>v. v) vars)"

definition language_tag :: "string \<Rightarrow> string" where
  "language_tag raw =
     to_lower (map (\<lambda>c. if c = CHR ''_'' then CHR ''-'' else c) (takeWhile (\<lambda>c. c \<noteq> CHR ''.'' \<and> c \<noteq> CHR ''@'') raw))"

definition normalise :: "string \<Rightarrow> ui_lang" where
  "normalise raw =
     (let tag = language_tag raw; parts = split_on (CHR ''-'') tag; rest = tl parts in
      if hd parts = ''ru'' then UiRu
      else if hd parts \<noteq> ''zh'' then UiEn
      else if list_ex (\<lambda>p. p \<in> {''tw'', ''hk'', ''mo'', ''hant''}) rest then UiZhTw
      else if tag = ''zh'' \<or> list_ex (\<lambda>p. p \<in> {''cn'', ''sg'', ''hans''}) rest then UiZhCn
      else UiEn)"

section \<open>How a desktop reads an \<open>Exec\<close> line\<close>

text \<open>The Desktop Entry Specification, read without the code: string escapes first, then the command line
  is cut at spaces into arguments, then field codes, of which \<open>%%\<close> is a percent sign.  Inside double quotes a
  backslash must stand before a double quote, backtick, dollar sign or backslash, and the last three are not
  allowed without one; outside quotes none of the reserved characters of the specification is allowed.
  \<open>None\<close>: not a well-formed command line without further field codes.\<close>

fun unescape :: "string \<Rightarrow> string option" where
  "unescape [] = Some []"
| "unescape (c # s) =
     (if c \<noteq> backslash_char then map_option ((#) c) (unescape s)
      else case s of
        [] \<Rightarrow> None
      | d # s' \<Rightarrow>
          if d = CHR ''s'' then map_option ((#) (CHR '' '')) (unescape s')
          else if d = CHR ''n'' then map_option ((#) (CHR 0x0A)) (unescape s')
          else if d = CHR ''t'' then map_option ((#) (CHR 0x09)) (unescape s')
          else if d = CHR ''r'' then map_option ((#) (CHR 0x0D)) (unescape s')
          else if d = backslash_char then map_option ((#) backslash_char) (unescape s') else None)"

definition must_escape :: "char \<Rightarrow> bool" where
  "must_escape c = (c = CHR 0x22 \<or> c = CHR 0x60 \<or> c = CHR 0x24 \<or> c = CHR 0x5C)"

definition must_quote :: "char \<Rightarrow> bool" where
  "must_quote c \<longleftrightarrow> must_escape c \<or> c \<in> set '' ><~|&;*?#()'' \<or> c = CHR 0x09 \<or> c = CHR 0x0A \<or> c = CHR 0x27"

fun read_quoted :: "string \<Rightarrow> (string \<times> string) option" where
  "read_quoted [] = None"
| "read_quoted (c # s) =
     (if c = CHR 0x22 then Some ([], s)
      else if c = CHR 0x5C then
        (case s of [] \<Rightarrow> None | d # s' \<Rightarrow> if must_escape d then map_option (map_prod ((#) d) (\<lambda>r. r)) (read_quoted s') else None)
      else if must_escape c then None
      else map_option (map_prod ((#) c) (\<lambda>r. r)) (read_quoted s))"

lemma read_quoted_shorter: "read_quoted s = Some (a, r) \<Longrightarrow> length r < length s"
  by (induction s arbitrary: a r rule: read_quoted.induct) (fastforce split: if_splits list.splits)+

function exec_words :: "string \<Rightarrow> string list option" where
  "exec_words [] = Some []"
| "exec_words (c # s) =
     (if c = CHR '' '' then exec_words s
      else if c = CHR 0x22 then
        (case read_quoted s of
           None \<Rightarrow> None
         | Some (a, r) \<Rightarrow> if r = [] \<or> hd r = CHR '' '' then map_option ((#) a) (exec_words r) else None)
      else
        (let word = takeWhile (\<lambda>x. x \<noteq> CHR '' '') (c # s) in
         if list_ex must_quote word then None
         else map_option ((#) word) (exec_words (dropWhile (\<lambda>x. x \<noteq> CHR '' '') s))))"
  by pat_completeness auto
termination
  by (relation "measure length") (auto simp: less_Suc_eq_le length_dropWhile_le dest: read_quoted_shorter)

fun unpercent :: "string \<Rightarrow> string option" where
  "unpercent [] = Some []"
| "unpercent (c # s) =
     (if c \<noteq> CHR ''%'' then map_option ((#) c) (unpercent s)
      else case s of [] \<Rightarrow> None | d # s' \<Rightarrow> if d = CHR ''%'' then map_option ((#) d) (unpercent s') else None)"

definition exec_program :: "string \<Rightarrow> string list option" where
  "exec_program line = Option.bind (unescape line) (\<lambda>s. Option.bind (exec_words s) (\<lambda>ws. those (map unpercent ws)))"

definition percent_step :: "char \<Rightarrow> string" where
  "percent_step c = (if c = CHR ''%'' then ''%%'' else [c])"

lemmas special_chars = backslash_char_def quote_char_def

lemma unescape_escape: "unescape (concat (map escape_step s) @ t) = map_option ((@) (concat (map percent_step s))) (unescape t)"
proof (induction s)
  case (Cons c s)
  have "unescape (escape_step c @ u) = map_option ((@) (percent_step c)) (unescape u)" for u
    by (cases "unescape u") (simp_all add: escape_step_def percent_step_def special_chars)
  then show ?case using Cons by (simp add: option.map_comp comp_def)
qed (simp add: option.map_id0 [unfolded id_def])

lemma read_quoted_quote: "read_quoted (concat (map percent_step (concat (map quote_step s))) @ [quote_char]) = Some (concat (map percent_step s), [])"
proof (induction s)
  case (Cons c s)
  have "read_quoted (concat (map percent_step (quote_step c)) @ u)
      = map_option (map_prod ((@) (percent_step c)) (\<lambda>r. r)) (read_quoted u)" for u
    by (cases "read_quoted u") (auto simp: quote_step_def percent_step_def special_chars must_escape_def)
  then show ?case using Cons by simp
qed (simp add: special_chars)

lemma exec_words_quoted:
  "exec_words ([quote_char] @ concat (map percent_step (concat (map quote_step s))) @ [quote_char]) = Some [concat (map percent_step s)]"
  using read_quoted_quote [of s] by (simp add: special_chars)

lemma must_quote_reserved: "must_quote c \<longleftrightarrow> c \<in> set reserved"
  by (auto simp: must_quote_def must_escape_def reserved_def special_chars)

lemma exec_words_plain:
  assumes "s \<noteq> []" "\<not> list_ex must_quote s"
  shows "exec_words s = Some [s]"
proof -
  obtain c t where s: "s = c # t" using assms(1) by (cases s) auto
  have ne: "\<forall>x \<in> set s. x \<noteq> CHR '' ''" "\<forall>x \<in> set s. x \<noteq> CHR 0x22"
    using assms(2) by (auto simp: list_ex_iff must_quote_def must_escape_def)
  then have eqs: "takeWhile (\<lambda>x. x \<noteq> CHR '' '') t = t" "dropWhile (\<lambda>x. x \<noteq> CHR '' '') t = []"
    unfolding takeWhile_eq_all_conv dropWhile_eq_Nil_conv by (auto simp: s)
  show ?thesis using ne assms(2) unfolding s by (simp add: eqs)
qed

lemma unpercent_percent: "unpercent (concat (map percent_step s)) = Some s"
  by (induction s) (auto simp: percent_step_def)

text \<open>\<^bold>\<open>C38.\<close>  The autostart entry starts the program, whatever its path: the value written for \<open>Exec\<close>, read by the
  rules of the Desktop Entry Specification, is a command line of one argument, exactly the path, for every
  non-empty text, with spaces, quotes, backslashes, backticks, dollar and percent signs or line breaks in it.
  The specification leaves field codes inside quotes open; like the desktops, the reader takes \<open>%%\<close> there as a
  percent sign.\<close>

theorem exec_argument_roundtrip:
  assumes "arg \<noteq> []"
  shows "exec_program (exec_argument arg) = Some [arg]"
proof (cases "list_ex (\<lambda>c. c \<in> set reserved) arg")
  case True
  let ?q = "[quote_char] @ concat (map quote_step arg) @ [quote_char]"
  have q: "percent_step quote_char = [quote_char]" by (simp add: percent_step_def quote_char_def)
  have "unescape (exec_argument arg) = Some (concat (map percent_step ?q))"
    using True unescape_escape [of ?q "[]"] by (simp only: exec_argument_def Let_def if_True append_Nil2 unescape.simps option.map)
  then show ?thesis using exec_words_quoted [of arg] by (simp add: exec_program_def q unpercent_percent)
next
  case False
  have "unescape (exec_argument arg) = Some (concat (map percent_step arg))"
    using False unescape_escape [of arg "[]"] by (simp add: exec_argument_def)
  moreover have "\<not> list_ex must_quote (concat (map percent_step arg))"
    using False by (auto simp: list_ex_iff must_quote_reserved percent_step_def reserved_def special_chars split: if_splits)
  moreover have "concat (map percent_step arg) \<noteq> []" using assms by (cases arg) (auto simp: percent_step_def)
  ultimately show ?thesis by (simp add: exec_program_def exec_words_plain unpercent_percent)
qed

theorem exec_argument_roundtrip_witness:
  "exec_program (exec_argument ''/opt/my $HOME & 100%/juicity'') = Some [''/opt/my $HOME & 100%/juicity'']
   \<and> exec_argument ''/opt/my $HOME'' = [CHR 0x22] @ ''/opt/my '' @ [CHR 0x5C, CHR 0x5C] @ ''$HOME'' @ [CHR 0x22]"
  using exec_argument_roundtrip [of "''/opt/my $HOME & 100%/juicity''"]
  by (simp add: exec_argument_def reserved_def quote_step_def escape_step_def special_chars)

section \<open>Menu ids, files, activation\<close>

lemma indexed_id: "i < 2 ^ 64 \<Longrightarrow> indexed p (p @ dec_str i) = Some i"
  by (simp add: indexed_def strip_prefix_def starts_with_def dec_str_def parse_uint_radix_str)

lemma menu_id_roundtrip:
  assumes "\<And>i. e = TeSelectNode i \<Longrightarrow> i < 2 ^ 64"
  shows "from_menu_id (menu_id e) = Some e"
proof (cases e)
  case (TeSetProxyMode m)
  then show ?thesis
    using indexed_id [of "proxy_index m" "''proxy:''"]
    by (cases m) (simp_all add: from_menu_id_def plain_ids_def proxy_index_def proxy_modes_def)
next
  case (TeSetPacRule r)
  then show ?thesis
    using indexed_id [of "pac_index r" "''pac:''"]
    by (cases r) (simp_all add: from_menu_id_def plain_ids_def pac_index_def pac_rules_def indexed_def strip_prefix_def starts_with_def)
next
  case (TeSelectNode i)
  then show ?thesis
    using indexed_id [of i "''node:''"] assms
    by (simp add: from_menu_id_def plain_ids_def indexed_def strip_prefix_def starts_with_def)
qed (simp_all add: from_menu_id_def plain_ids_def)

text \<open>Disabling leaves no entry behind, neither in the configured directory nor in the default one.\<close>

lemma autostart_disabled:
  assumes "apply_with f f2 xdg home False exe m = (m', Inr ())" "autostart_dir xdg home = Inr dir"
  shows "m' (join_path dir ''io.juicity.gui.desktop'') = None"
    "home = Some h \<Longrightarrow> same_path (join_path h ''.config/autostart'') dir
       \<or> m' (join_path (join_path h ''.config/autostart'') ''io.juicity.gui.desktop'') = None"
  using assms by (auto simp: apply_with_def apply_in_def write_or_remove_def Let_def split: option.splits if_splits)

lemma autostart_enabled:
  assumes "apply_with f f2 xdg home True exe m = (m', Inr ())" "autostart_dir xdg home = Inr dir"
  shows "m' (join_path dir ''io.juicity.gui.desktop'') = Some (File (str_bytes (autostart_entry exe)))"
  using assms by (auto simp: apply_with_def apply_in_def write_or_remove_def Let_def split: option.splits if_splits file_fault.splits)

text \<open>Installing twice writes nothing the second time.\<close>

lemma write_each_done: "\<forall>(p, c) \<in> set fs. m p = Some (File c) \<Longrightarrow> write_each f fs w m = (m, Inr w)"
  by (induction fs) (auto simp: write_if_changed_def)

lemma write_each_written:
  assumes "write_each f fs w m = (m', Inr w')" "distinct (map fst fs)"
  shows "(\<forall>(p, c) \<in> set fs. m' p = Some (File c)) \<and> (\<forall>p. p \<notin> fst ` set fs \<longrightarrow> m' p = m p)"
  using assms
proof (induction fs arbitrary: w m)
  case (Cons x fs)
  obtain p c where x: "x = (p, c)" by (cases x)
  obtain m1 b where s: "write_if_changed f p c m = (m1, Inr b)" "write_each f fs (w \<or> b) m1 = (m', Inr w')"
    using Cons.prems(1) x by (auto split: prod.splits sum.splits)
  have m1: "m1 p = Some (File c)" "\<And>q. q \<noteq> p \<Longrightarrow> m1 q = m q"
    using s(1) by (auto simp: write_if_changed_def split: if_splits option.splits file_fault.splits)
  have "p \<notin> fst ` set fs" "distinct (map fst fs)" using Cons.prems(2) x by auto
  then show ?case using Cons.IH [OF s(2)] m1 x by auto
qed simp

lemma install_idempotent:
  assumes "install_in f home dirs template pngs svg exe m = (m', Inr w)" "distinct (map fst (installed_files home template pngs svg exe))"
  shows "\<exists>m''. install_in f2 home dirs template pngs svg exe m' = (m'', Inr False) \<and> m'' = m'"
  using assms write_each_written [of f "installed_files home template pngs svg exe" False m m' w]
    write_each_done [of "installed_files home template pngs svg exe" m' f2 False]
  by (auto simp: install_in_def split: if_splits)

text \<open>A request to show the window is answered at once or when the window is ready, never lost.\<close>

lemma activation_not_lost:
  "fst (request_activation a) = a' \<Longrightarrow> snd (request_activation a) \<or> snd (window_ready a')"
  by (auto simp: request_activation_def window_ready_def split: if_splits)

end
