(* ===== verification/Spec2Isabelle.thy ===== *)
theory Spec2Isabelle
  imports Consts Client_Reconnect Local_Http Forwarder Local_Assoc Server_Udp Server_Underlay Service_Loops Commands
    Gui_Core Gui_Safety Gui_Logs Gui_Desktop
begin

text \<open>
  \<^bold>\<open>Juicity\<close> is a proxy protocol over QUIC.  A client accepts SOCKS5, HTTP and statically forwarded
  connections and carries them on QUIC streams to a server, which dials the targets.  UDP travels
  either on streams or as sealed packets (\<open>underlay\<close>) beside QUIC on the server's socket.  This
  development models the program's own logic in \<^verbatim>\<open>common\<close>, \<^verbatim>\<open>server\<close> and \<^verbatim>\<open>client\<close> and the desktop
  application in \<^verbatim>\<open>gui\<close>, which runs the client as its core; this theory holds the properties that
  span both ends.

  \<^bold>\<open>Conventions.\<close>  Bytes are 8-bit words; ports and counters keep their width.  A reader takes the
  unread bytes of its stream and returns the rest; an error is \<open>Inl\<close> of an error datatype, as in
  the code's \<open>Result\<close>.  A Rust \<open>String\<close> is a list of characters below 256, one per byte of its UTF-8
  encoding; \<open>rust_str\<close> says that it is valid.  Hash maps are association lists with distinct keys
  (\<open>hm_wf\<close>).  Time is in milliseconds and comes in as an argument.  Concurrent code is a step
  relation with one step per critical section or await point, over any number of calls, so that a
  property of all reachable states (\<open>reach\<close>) holds in all interleavings.  A recursion follows its
  input or a decreasing measure; no definition uses fuel.

  \<^bold>\<open>Shared theories.\<close>
  \<^item> \<open>Prelude\<close>: results, hash maps, exact reads, reachability; the interfaces \<open>invariant_system\<close>
    (invariants over a step relation), \<open>framing\<close> (codecs) and \<open>single_flight\<close> (one task per key), each
    interpreted by the components that provide it.
  \<^item> \<open>Rust_Text\<close>, \<open>Text_Lemmas\<close>: UTF-8, trimming, splitting, searching and number parsing as in the
    standard library.  \<open>Rust_Net\<close>: IP and socket addresses, their printing and parsing, with the
    round trips.
  \<^item> \<open>Consts\<close>: \<^verbatim>\<open>common/src/consts.rs\<close>, and the relations between the limits that the code relies on.

  \<^bold>\<open>Common.\<close>
  \<^item> \<open>Protocol\<close> (\<^verbatim>\<open>protocol.rs\<close>): headers, addresses, authentication commands and underlay
    authentications; readers invert writers, synchronous and asynchronous readers agree.
  \<^item> \<open>Crypto\<close> (\<^verbatim>\<open>crypto.rs\<close>): packet layouts, subkeys, certificate chain hash.  The ciphers, HKDF and
    SHA-256 are parameters; \<open>aead_ok\<close> and \<open>sha256_ok\<close> state what is used of them.  Two chains with one hash
    exhibit a collision among the texts hashed for them (\<open>chain_inputs\<close>).
  \<^item> \<open>Config\<close> (\<^verbatim>\<open>config.rs\<close>, \<^verbatim>\<open>link.rs\<close>, \<^verbatim>\<open>cert.rs\<close>): configuration, validation, exports, share links, choice of
    a certificate's domain.

  \<^bold>\<open>Server.\<close>
  \<^item> \<open>Server_Session\<close> (\<^verbatim>\<open>server.rs\<close>, \<^verbatim>\<open>dialer.rs\<close>): authentication, the reader of underlay authentications,
    dispatch and dialling.  Exactly the holders of a configured password are let in.
  \<^item> \<open>Server_Dns\<close> (\<open>resolve_udp_target\<close>): name cache and single flight; answers are genuine, at most one
    lookup per name runs, no waiter is stranded.
  \<^item> \<open>Server_Udp\<close> (\<open>handle_udp_relay\<close>): datagrams on a stream reach the targets they name.
  \<^item> \<open>Udp_Pool\<close> (\<^verbatim>\<open>udp.rs\<close>): response frames, and the endpoint pool with one creator per address.
  \<^item> \<open>Tcp_Relay\<close> (\<^verbatim>\<open>tcp.rs\<close>): both copy loops and the idle timer.
  \<^item> \<open>Inflight\<close> (\<^verbatim>\<open>inflight.rs\<close>): the table of underlay authentications; each is used at most once per
    store, only when it verifies, no waiter misses it, and the table stays bounded.
  \<^item> \<open>Demux\<close> (\<^verbatim>\<open>underlay_socket.rs\<close>): separation of QUIC and underlay packets on one socket.
  \<^item> \<open>Server_Underlay\<close> (\<^verbatim>\<open>server.rs\<close>): sessions of sealed packets and their teardown.
  \<^item> \<open>Server_Setup\<close> (\<^verbatim>\<open>server.rs\<close>): construction, shutdown timing, certificate reload.
  \<^item> \<open>Service_Loops\<close> (\<open>serve_with_shutdown\<close>, and the accept loops of the client): sockets, accept workers with
    permits and shutdown, and the periodic tasks; handlers are bounded and cannot delay the end of the server
    (\<open>serve_own_step\<close> are the steps it takes without them), unclaimed authentications expire.

  \<^bold>\<open>Client.\<close>
  \<^item> \<open>Client\<close>, \<open>Client_Reconnect\<close> (\<^verbatim>\<open>client.rs\<close>): construction, stream headers; the shared reconnection with
    back-off, joining callers and cancellation.
  \<^item> \<open>Local_Socks\<close>, \<open>Local_Http\<close>, \<open>Local_Assoc\<close> (\<^verbatim>\<open>local.rs\<close>): the SOCKS5 and HTTP front ends and the UDP
    association.
  \<^item> \<open>Udp_Sessions\<close>, \<open>Forwarder\<close> (\<^verbatim>\<open>forwarder.rs\<close>): static forwarding, and the table of UDP sessions that
    it shares with the association.

  \<^bold>\<open>Programs.\<close>
  \<^item> \<open>Commands\<close> (\<^verbatim>\<open>server/src/main.rs\<close>, \<^verbatim>\<open>client/src/main.rs\<close>): what the run commands start, and what the export
    commands print; which exported certificate pins a client accepts.

  \<^bold>\<open>Desktop application\<close> (\<^verbatim>\<open>gui/src\<close>).
  \<^item> \<open>Gui_Config\<close> (\<^verbatim>\<open>config.rs\<close>, \<^verbatim>\<open>util.rs\<close>, \<^verbatim>\<open>validate.rs\<close>, \<^verbatim>\<open>state.rs\<close>): profiles, settings, storage; a file is never
    lost by a failing write.  \<open>Gui_Link\<close> (\<^verbatim>\<open>link.rs\<close>): import inverts export, with any URL
    parser that keeps the contract \<open>url_parser_ok\<close>.
  \<^item> \<open>Gui_Core\<close> (\<^verbatim>\<open>core.rs\<close>): both cores, their start, stop and statistics reader; the client dials what the
    profile names.  \<open>Gui_Traffic\<close> (\<^verbatim>\<open>traffic.rs\<close>): samples account for every byte counted.
  \<^item> \<open>Gui_Pac\<close> (\<^verbatim>\<open>pac.rs\<close>): rule lists, script and server; the script's text, read as JavaScript, decides
    by domain suffix.
    \<open>Gui_System_Proxy\<close> (\<^verbatim>\<open>system_proxy.rs\<close>): the commands for each desktop.
  \<^item> \<open>Gui_Persist\<close>, \<open>Gui_Nodes\<close>, \<open>Gui_Control\<close>, \<open>Gui_Settings\<close> (\<^verbatim>\<open>ui/controller\<close>: \<^verbatim>\<open>persist.rs\<close>, \<^verbatim>\<open>nodes.rs\<close>, \<^verbatim>\<open>mod.rs\<close>,
    \<^verbatim>\<open>save.rs\<close>, \<^verbatim>\<open>overview.rs\<close>, \<^verbatim>\<open>tray.rs\<close>, \<^verbatim>\<open>settings.rs\<close>): the controller as a record with one definition per
    operation.  \<open>Gui_Safety\<close>: the invariant of all operations, in any order, among other programs that
    write the files; unsaved edits are never written, saved ones survive a restart.
  \<^item> \<open>Gui_Logs\<close> (\<^verbatim>\<open>logging.rs\<close>, \<^verbatim>\<open>ui/controller/logs.rs\<close>): log buffer, chart and ring.
  \<^item> \<open>Gui_Desktop\<close> (\<^verbatim>\<open>desktop\<close>: \<^verbatim>\<open>autostart.rs\<close>, \<^verbatim>\<open>integration.rs\<close>, \<^verbatim>\<open>tray/mod.rs\<close>, \<^verbatim>\<open>single_instance.rs\<close>; \<^verbatim>\<open>i18n.rs\<close>): files of
    the desktop session, with a reader of \<open>Exec\<close> lines after the Desktop Entry Specification, menu ids, activation,
    choice of a language.

  \<^bold>\<open>Across components\<close> (this theory): a client's authentication stream fills the server's table;
  SOCKS and HTTP tunnels, UDP associations, forwarded UDP and their responses work from the local
  application to the target and back; a first underlay packet is told apart, authenticated and
  forwarded.

  \<^bold>\<open>Parameters.\<close>  QUIC, TLS and the operating system's sockets are other software.  What they
  deliver (bytes, outcomes of dials, sends and lookups, times, exporter output, random bytes) are
  arguments of the definitions, as are the JSON printer and parser, the hash of file contents, the
  URL, base64 and PEM readers, prompts, and the programs that the desktop application runs.  A
  hypothesis such as \<open>env_steady\<close> states documented behaviour of them and has an instance in the
  witness of the property that uses it.  Rates, coordinates and angles are exact rationals in place
  of \<open>f64\<close>.

  \<^bold>\<open>Not modelled.\<close>  Socket options; serialisation of JSON, QR
  codes and X.509 parsing, done by other crates; argument parsing and the set-up of logging; the
  bindings of the desktop application to its user interface (\<^verbatim>\<open>ui/bind\<close>, fonts, catalogs), the text
  of the chart's path commands, and the calls to D-Bus, the Windows registry, pipes and shortcuts:
  they only pass values on to other libraries.
\<close>

section \<open>The authentication stream, from the client to the server's table\<close>

text \<open>The client sends one underlay authentication after the other.\<close>

fun send_auths :: "bytes option \<Rightarrow> underlay_auth list \<Rightarrow> bytes option" where
  "send_auths stream [] = stream"
| "send_auths stream (a # as) = send_auths (fst (send_underlay_auth stream a)) as"

lemma send_auths_frames:
  "enc_all auth_frame as = Inr bs \<Longrightarrow> send_auths (Some w) as = Some (w @ bs)"
  by (induction as arbitrary: w bs)
    (auto simp: and_then_eq_Inr auth_frame_def send_underlay_auth_def split: prod.splits)

lemma connect_auth_bytes_eq:
  "connect_auth_bytes export_keying u pw = Inr bs \<Longrightarrow>
   \<exists>token. export_keying u (str_bytes pw) = Some token \<and> bs = auth_message u token"
  by (auto simp: connect_auth_bytes_def gen_token_via_connection_def and_then_eq_Inr auth_message_def
      elim!: ok_or.elims split: if_splits)

text \<open>\<^bold>\<open>C1.\<close>  A client that knows the password of a configured user is let in, and the server then
  holds exactly the underlay authentications that this client sent: with the same TLS exporter
  on both ends, the server accepts the client's stream for the client's user, and its reader
  stores every authentication, in order and under its own salt.\<close>

theorem client_auth_reaches_table:
  assumes "connect_auth_bytes export_keying u pw = Inr head" "length u = 16"
    and "\<forall>t. export_keying u (str_bytes pw) = Some t \<longrightarrow> length t = 32"
    and "hm_get users u = Some pw"
    and "\<forall>a \<in> set as. auth_wf a" "enc_all auth_frame as = Inr frames"
  shows "\<exists>rest. authenticate_connection export_keying users True True (send_auths (Some head) as) = Established u rest
    \<and> auth_reader clock 0 rest t = store_all clock 0 (map auth_view as) t"
proof -
  obtain token where token: "export_keying u (str_bytes pw) = Some token" and head: "head = auth_message u token"
    using connect_auth_bytes_eq [OF assms(1)] by blast
  have "handle_auth export_keying users (Some (auth_message u token @ frames)) = Inr (u, frames)"
    using assms(2-4) token by (intro handle_auth_message) auto
  moreover have "read_underlay_auth_async [] = Inl UnexpectedEof"
    by (simp add: read_underlay_auth_async_def read_exact_def take_exact_def)
  then have "auth_reader clock n [] t' = t'" for n t' by (simp add: auth_reader.simps)
  ultimately show ?thesis
    using auth_reader_frames [OF assms(5,6), of clock 0 "[]" t] send_auths_frames [OF assms(6), of head]
    by (auto simp: authenticate_connection_def head)
qed

theorem client_auth_reaches_table_witness:
  "\<exists>head rest. connect_auth_bytes (\<lambda>l c. Some (replicate 32 9)) (replicate 16 3) ''pw'' = Inr head
    \<and> authenticate_connection (\<lambda>l c. Some (replicate 32 9)) [(replicate 16 3, ''pw'')] True True
        (send_auths (Some head) [sample_auth, sample_auth]) = Established (replicate 16 3) rest
    \<and> auth_reader (\<lambda>i. i) 0 rest (inflight_new 10000 100) =
        store_all (\<lambda>i. i) 0 [sample_auth, sample_auth] (inflight_new 10000 100)"
proof -
  let ?ex = "\<lambda>(l :: bytes) (c :: bytes). Some (replicate 32 (9 :: byte))"
  obtain head where h: "connect_auth_bytes ?ex (replicate 16 3) ''pw'' = Inr head"
    by (simp add: connect_auth_bytes_def gen_token_via_connection_def)
  then show ?thesis
    using client_auth_reaches_table [of ?ex "replicate 16 3" "''pw''" head "[(replicate 16 3, ''pw'')]"
        "[sample_auth, sample_auth]" "sample_frame @ sample_frame" "\<lambda>i. i" "inflight_new 10000 100"]
    by (simp add: sample_auth_frame sample_auth_wf sample_auth_view hm_get_def)
qed

section \<open>TCP, from the local application to the dialled target\<close>

lemma open_tcp_stream_handled:
  assumes "rust_str host" "host \<noteq> []" "encodable_host host"
  shows "\<exists>header. open_tcp_stream host port = Inr header
    \<and> handle_stream (header @ data) = Inr (RelayTcp (canonical_host host @ '':'' @ dec_str (unat port)) data)"
  using build_proxy_header_eq [OF assms(2,3), of NETWORK_TCP port]
    read_proxy_header_wire [OF assms(1,3), of NETWORK_TCP port data]
  by (simp add: open_tcp_stream_def handle_stream_def Let_def wire_consts)

text \<open>\<^bold>\<open>C2.\<close>  TCP through the SOCKS front end works end to end: a client that asks for a connection
  to a host and port, followed at once by data, gets the method choice and a success reply,
  and the stream that the handler opens and copies the data to makes the server dial
  exactly this host (literals in canonical form) and port and pass on exactly this data.\<close>

theorem socks_connect_end_to_end:
  assumes "rust_str host" "encodable_host host" "length host \<le> 255"
  shows "\<exists>header. handle_socks5 expired (Inr ()) bound (socks5_request 1 host port @ data) =
      ([0x05, 0x00] @ build_socks5_response 0 (socks_host host) port, Inr (SocksTunnel header data))
    \<and> handle_stream (header @ data) = Inr (RelayTcp (canonical_host host @ '':'' @ dec_str (unat port)) data)"
  using socks5_handshake_request [OF assms(1,3), of 1 port data] encodable_socks_host [OF assms(1,2)]
    open_tcp_stream_handled [of "socks_host host" port data]
  by (auto simp: handle_socks5_def Let_def within_deadline_def)

theorem socks_connect_end_to_end_witness:
  "\<exists>header. handle_socks5 False (Inr ()) None (socks5_request 1 ''ab'' 80 @ [1, 2, 3]) =
      ([0x05, 0x00] @ build_socks5_response 0 (socks_host ''ab'') 80, Inr (SocksTunnel header [1, 2, 3]))
    \<and> handle_stream (header @ [1, 2, 3]) = Inr (RelayTcp (canonical_host ''ab'' @ '':'' @ dec_str (unat (80 :: u16))) [1, 2, 3])"
  using socks_connect_end_to_end [of "''ab''" False None 80 "[1, 2, 3]"] demo_datagrams_ok
  by (simp add: datagram_ok_def)

text \<open>\<^bold>\<open>C3.\<close>  TCP through the HTTP front end works end to end: a \<open>CONNECT\<close> request with one of the
  authorities that \<open>parse_host_port\<close> reads as a non-empty, encodable host and a port, a request line and at most
  100 header lines that are text of at most 8 KiB each, none of them blank, followed by data of which any
  part has already been buffered, is answered with 200, and the stream that the handler opens makes
  the server dial this host (literals in canonical form) and port and pass on exactly the data
  behind the head.  Longer heads are refused by the code.\<close>

theorem http_connect_end_to_end:
  assumes "no_ws target" "no_ws version" "line_ok (''CONNECT '' @ target @ '' '' @ version)"
    and "\<forall>l \<in> set headers. line_ok l \<and> trim (l @ CRLF) \<noteq> []" "length headers \<le> MAX_HTTP_HEADERS"
    and "parse_host_port target = Inr (host, port)" "rust_str host" "host \<noteq> []" "encodable_host host"
  shows "\<exists>r. handle_http_proxy expired (Inr ()) buffered
      (str_bytes (''CONNECT '' @ target @ '' '' @ version @ CRLF @ concat (map (\<lambda>l. l @ CRLF) headers) @ CRLF) @ data) =
        (str_bytes connection_established, Inr r)
    \<and> handle_stream (hr_header r @ hr_upstream r) =
        Inr (RelayTcp (canonical_host host @ '':'' @ dec_str (unat port)) data)"
proof -
  have "no_ws ''CONNECT''" by (auto simp: no_ws_def ws_eval less_Suc_eq)
  then have "read_http_head expired
      (str_bytes (''CONNECT '' @ target @ '' '' @ version @ CRLF @ concat (map (\<lambda>l. l @ CRLF) headers) @ CRLF) @ data) =
    ([], Inr ((''CONNECT'', target, version, map (\<lambda>l. l @ CRLF) headers), data))"
    using read_http_head_lines [of "''CONNECT''" target version headers expired data] assms(1-5) by simp
  then show ?thesis
    using open_tcp_stream_handled [OF assms(7-9), of port data] assms(6)
    by (auto simp: handle_http_proxy_def handle_http_connect_def host_or_default_def Let_def)
qed

theorem http_connect_end_to_end_witness:
  "\<exists>r. handle_http_proxy False (Inr ()) 1
      (str_bytes (''CONNECT '' @ (''ab'' @ '':'' @ dec_str (unat (80 :: u16))) @ '' '' @ ''HTTP/1.1'' @ CRLF @ concat (map (\<lambda>l. l @ CRLF) [''A: b'']) @ CRLF) @ [1, 2]) =
        (str_bytes connection_established, Inr r)
    \<and> handle_stream (hr_header r @ hr_upstream r) =
        Inr (RelayTcp (canonical_host ''ab'' @ '':'' @ dec_str (unat (80 :: u16))) [1, 2])"
proof (rule http_connect_end_to_end)
  have d: "dec_str 80 = ''80''" by code_simp
  show "no_ws (''ab'' @ '':'' @ dec_str (unat (80 :: u16)))" "no_ws ''HTTP/1.1''"
    by (auto simp: no_ws_def ws_eval less_Suc_eq d)
  show "line_ok (''CONNECT '' @ (''ab'' @ '':'' @ dec_str (unat (80 :: u16))) @ '' '' @ ''HTTP/1.1'')"
    by (simp add: line_ok_def http_consts rust_str_ascii d)
  have "trim (''A: b'' @ CRLF) \<noteq> []"
    by (simp add: trim_def trim_start_def trim_end_def drop_ws.simps ws_eval CRLF_def)
  then show "\<forall>l \<in> set [''A: b'']. line_ok l \<and> trim (l @ CRLF) \<noteq> []"
    by (simp add: line_ok_def http_consts rust_str_ascii)
  show "parse_host_port (''ab'' @ '':'' @ dec_str (unat (80 :: u16))) = Inr (''ab'', 80)"
    by (rule parse_host_port_plain) simp
  show "rust_str ''ab''" "encodable_host ''ab''" using demo_datagrams_ok by (simp_all add: datagram_ok_def)
qed (simp_all add: http_consts)

section \<open>UDP over a stream, from the client to the target\<close>

text \<open>Both UDP front ends of the client write frames that differ only in their targets.\<close>

definition own_frame :: "outbound_datagram \<Rightarrow> string \<times> u16 \<times> bytes" where
  "own_frame d = (od_addr d, od_port d, od_payload d)"

definition sendable :: "outbound_datagram \<Rightarrow> bool" where
  "sendable d = (rust_str (od_addr d) \<and> od_addr d \<noteq> [] \<and> encodable_host (od_addr d) \<and> length (od_payload d) \<le> max_udp_payload)"

lemma assoc_writer_frames:
  "\<forall>d \<in> set ds. sendable d \<Longrightarrow> assoc_writer buf ds = concat (map (datagram_frame \<circ> own_frame) ds)"
  by (induction ds arbitrary: buf)
    (simp_all add: sendable_def send_udp_datagram_eq Let_def datagram_frame_def own_frame_def)

lemma forward_writer_assoc:
  "forward_writer (from_host_port host port) buf ds =
   assoc_writer buf (map (\<lambda>d. \<lparr>od_addr = host, od_port = port, od_payload = d\<rparr>) ds)"
  by (induction ds arbitrary: buf) (auto split: prod.split sum.split)

lemma forward_stream_assoc:
  "forward_stream host port ds = assoc_stream (map (\<lambda>d. \<lparr>od_addr = host, od_port = port, od_payload = d\<rparr>) ds)"
  by (cases ds) (simp_all add: forward_stream_def assoc_stream_def forward_writer_assoc)

lemma handle_stream_udp:
  assumes "\<forall>x \<in> set (d # ds). sendable x"
  shows "\<exists>bs. assoc_stream (d # ds) = Inr bs
    \<and> handle_stream bs = Inr (RelayUdp (concat (map (datagram_frame \<circ> own_frame) (d # ds))))"
proof -
  let ?rest = "concat (map (datagram_frame \<circ> own_frame) (d # ds))"
  have d: "rust_str (od_addr d)" "od_addr d \<noteq> []" "encodable_host (od_addr d)" "length (od_payload d) \<le> max_udp_payload"
    using assms by (simp_all add: sendable_def)
  have "assoc_stream (d # ds) = Inr (NETWORK_UDP # wire_addr (od_addr d) @ u16_to_be (od_port d) @ ?rest)"
    using open_udp_stream_eq [OF d(2-4)] assoc_writer_frames [of ds "[]"] assms
    by (simp add: assoc_stream_def datagram_frame_def own_frame_def)
  moreover have "handle_stream (NETWORK_UDP # wire_addr (od_addr d) @ u16_to_be (od_port d) @ ?rest) = Inr (RelayUdp ?rest)"
    using read_proxy_header_wire [OF d(1,3), of NETWORK_UDP "od_port d" ?rest]
    by (simp add: handle_stream_def Let_def wire_consts)
  ultimately show ?thesis by blast
qed

lemma assoc_stream_relayed:
  assumes "env_steady lookup env" "\<forall>x \<in> set (d # ds). sendable x" "\<not> (disable \<and> od_port d = 443)"
  shows "\<exists>bs rest. assoc_stream (d # ds) = Inr bs \<and> handle_stream bs = Inr (RelayUdp rest)
    \<and> handle_udp_relay env True disable rest = (map (relayed lookup (remote_is_ipv6 env) \<circ> own_frame) (d # ds), Inr ())"
proof -
  have "\<forall>x \<in> set (own_frame d # map own_frame ds). datagram_ok x"
    using assms(2) by (auto simp: sendable_def datagram_ok_def own_frame_def)
  then have "handle_udp_relay env True disable (concat (map datagram_frame (own_frame d # map own_frame ds))) =
      (map (relayed lookup (remote_is_ipv6 env)) (own_frame d # map own_frame ds), Inr ())"
    using assms(1,3) unfolding own_frame_def [of d] by (intro udp_relay_frames)
  then show ?thesis using handle_stream_udp [OF assms(2)] by (force simp: o_def)
qed

text \<open>UDP forwarding works end to end: the bytes that a forwarded session writes for its
  target make the server's stream handler start a UDP relay, which sends every datagram, in
  order and unchanged, to the resolved target.\<close>

lemma udp_forward_end_to_end:
  assumes "rust_str host" "host \<noteq> []" "encodable_host host" "env_steady lookup env" "\<not> (disable \<and> port = 443)"
    and "\<forall>d \<in> set (d0 # ds). length d \<le> max_udp_payload"
  shows "\<exists>bs rest. forward_stream host port (d0 # ds) = Inr bs \<and> handle_stream bs = Inr (RelayUdp rest)
    \<and> handle_udp_relay env True disable rest =
        (map (\<lambda>d. (send_to_addr (lookup (canonical_host host) port) (remote_is_ipv6 env), d)) (d0 # ds), Inr ())"
proof -
  let ?o = "\<lambda>d. \<lparr>od_addr = host, od_port = port, od_payload = d\<rparr>"
  have "\<forall>x \<in> set (?o d0 # map ?o ds). sendable x" using assms by (simp add: sendable_def)
  from assoc_stream_relayed [OF assms(4) this, of disable] show ?thesis
    using assms(5) by (auto simp: forward_stream_assoc relayed_def own_frame_def o_def)
qed

text \<open>The packets of a SOCKS client.\<close>

definition socks_packet :: "string \<times> u16 \<times> bytes \<Rightarrow> bytes" where
  "socks_packet x = (case x of (host, port, payload) \<Rightarrow> build_socks5_udp_packet host port payload)"

definition socks_packet_ok :: "string \<times> u16 \<times> bytes \<Rightarrow> bool" where
  "socks_packet_ok x = (rust_str (fst x) \<and> encodable_host (fst x) \<and> length (fst x) \<le> 255
     \<and> length (socks_packet x) \<le> max_udp_payload)"

definition socks_datagram :: "string \<times> u16 \<times> bytes \<Rightarrow> outbound_datagram" where
  "socks_datagram x = (case x of (host, port, payload) \<Rightarrow> \<lparr>od_addr = socks_host host, od_port = port, od_payload = payload\<rparr>)"

lemma length_socks_packet: "length payload \<le> length (socks_packet (host, port, payload))"
  by (simp add: socks_packet_def build_socks5_udp_packet_def)

lemma assoc_admit_packet:
  assumes "socks_packet_ok x" "sa_ip src = sa_ip peer"
  shows "assoc_admit peer src (socks_packet x) = Some (socks_datagram x)" "sendable (socks_datagram x)"
proof -
  obtain host port payload where x: "x = (host, port, payload)" by (metis prod_cases3)
  have ok: "rust_str host" "encodable_host host" "length host \<le> 255" "length (socks_packet x) \<le> max_udp_payload"
    using assms(1) by (simp_all add: socks_packet_ok_def x)
  then have len: "length payload \<le> max_udp_payload" using length_socks_packet [of payload host port] x by simp
  then show "sendable (socks_datagram x)"
    using encodable_socks_host [OF ok(1,2)] by (simp add: sendable_def socks_datagram_def x)
  show "assoc_admit peer src (socks_packet x) = Some (socks_datagram x)"
    using socks5_udp_roundtrip [OF ok(1,3), of port payload] ok(4) len assms(2)
    by (simp add: assoc_admit_def socks_datagram_def x socks_packet_def)
qed

lemma relayed_socks: "socks_packet_ok x \<Longrightarrow> relayed lookup v6 (own_frame (socks_datagram x)) = relayed lookup v6 x"
  using encodable_socks_host(2) [of "fst x"]
  by (cases x) (auto simp: relayed_def own_frame_def socks_datagram_def socks_packet_ok_def)

lemma subseq_map_inv: "subseq ys (map f xs) \<Longrightarrow> \<exists>zs. subseq zs xs \<and> ys = map f zs"
proof (induction xs arbitrary: ys)
  case (Cons x xs)
  show ?case
  proof (cases "\<exists>ys'. ys = f x # ys' \<and> subseq ys' (map f xs)")
    case True
    then obtain ys' where "ys = f x # ys'" "subseq ys' (map f xs)" by blast
    moreover from this(2) obtain zs where "subseq zs xs" "ys' = map f zs" using Cons.IH by blast
    ultimately show ?thesis by (intro exI [of _ "x # zs"]) simp
  next
    case False
    with Cons.prems have "subseq ys (map f xs)" by (cases ys) (auto split: if_splits)
    then obtain zs where "subseq zs xs" "ys = map f zs" using Cons.IH by blast
    then show ?thesis by (intro exI [of _ zs]) auto
  qed
qed (auto dest: list_emb_Nil2)

text \<open>\<^bold>\<open>C4.\<close>  A UDP association works end to end.  When the packets that its socket received and admitted are
  those that the client sent, and, with outbound UDP to port 443 disabled, none goes to that port: in every run,
  whatever a session has written makes the server start a UDP relay, and this relay sends the payloads of packets
  of the session's client address, unchanged, in the order sent and none twice, to the resolved address
  of the host and port that each packet names.  Every well-formed packet of the client is admitted, from its own
  IP address only, and when its session is open it is queued for it unless 256 are waiting already.
  A packet may be lost: when it finds the queue full, while a stream for its address is being opened, or when
  its session ends.\<close>

theorem udp_association_end_to_end:
  assumes "reach assoc_init (assoc_step peer) a"
    and "received (as_table a) = map (\<lambda>(src, x). (src, socks_datagram x)) sent_packets"
    and "\<forall>(src, x) \<in> set sent_packets. socks_packet_ok x \<and> \<not> (disable \<and> fst (snd x) = 443)"
    and "hm_get (ut_streams (as_table a)) sid = Some c" "env_steady lookup env"
  shows "(\<exists>xs bs rest. xs \<noteq> [] \<and> subseq xs (from_src (se_src c) sent_packets) \<and> sa_ip (se_src c) = sa_ip peer
      \<and> se_stream c = map socks_datagram xs \<and> assoc_stream (se_stream c) = Inr bs \<and> handle_stream bs = Inr (RelayUdp rest)
      \<and> handle_udp_relay env True disable rest = (map (relayed lookup (remote_is_ipv6 env)) xs, Inr ()))
    \<and> (\<forall>src x. socks_packet_ok x \<longrightarrow>
        assoc_admit peer src (socks_packet x) = (if sa_ip src = sa_ip peer then Some (socks_datagram x) else None))
    \<and> (\<forall>now src x t. as_running a \<and> ut_loop (as_table a) = LoopIdle \<and> sa_ip src = sa_ip peer \<and> socks_packet_ok x
        \<and> hm_get (ut_sessions (as_table a)) src = Some (sid, t) \<and> se_open c \<and> length (se_queue c) < 256 \<longrightarrow>
        (let b = as_table (assoc_turn peer (AssocPacket now src (socks_packet x)) a) in
          received b = received (as_table a) @ [(src, socks_datagram x)]
          \<and> hm_get (ut_streams b) sid = Some (c\<lparr>se_queue := se_queue c @ [socks_datagram x]\<rparr>)))"
proof -
  have admit: "assoc_admit peer src (socks_packet x) = (if sa_ip src = sa_ip peer then Some (socks_datagram x) else None)"
    if "socks_packet_ok x" for src x
    using assoc_admit_packet(1) [OF that, of src peer] by (simp add: assoc_admit_def)
  have ne: "se_stream c \<noteq> []"
    using begun.reach_inv [OF assms(1)] assms(4) by (simp add: streams_begun_def)
  have sub: "subseq (se_stream c @ se_queue c) (from_src (se_src c) (received (as_table a)))"
    by (rule association_sources(1) [OF assms(1,4)])
  have own: "sa_ip (se_src c) = sa_ip peer"
    using association_own_ip [OF assms(1,4)] ne by (cases "se_stream c") auto
  have src: "from_src s (received (as_table a)) = map socks_datagram (from_src s sent_packets)" for s
    unfolding assms(2) by (induction sent_packets) (auto simp: from_src_def)
  have "subseq (se_stream c) (map socks_datagram (from_src (se_src c) sent_packets))"
    using subseq_order.order_trans [OF _ sub [unfolded src]] by (simp add: list_emb_prefix)
  then obtain xs where xs: "subseq xs (from_src (se_src c) sent_packets)" "se_stream c = map socks_datagram xs"
    using subseq_map_inv by blast
  have ok: "socks_packet_ok x \<and> \<not> (disable \<and> fst (snd x) = 443)" if x: "x \<in> set xs" for x
  proof -
    have "x \<in> set (from_src (se_src c) sent_packets)" using list_emb_set [OF xs(1) x] by metis
    then show ?thesis using assms(3) by (auto simp: from_src_def)
  qed
  obtain y ys where y: "xs = y # ys" using ne xs(2) by (cases xs) auto
  have "\<forall>d \<in> set (socks_datagram y # map socks_datagram ys). sendable d"
    using ok assoc_admit_packet(2) [OF _ refl] by (auto simp: y)
  moreover have "od_port (socks_datagram y) = fst (snd y)" by (simp add: socks_datagram_def split: prod.split)
  ultimately obtain bs rest where s: "assoc_stream (se_stream c) = Inr bs" "handle_stream bs = Inr (RelayUdp rest)"
    "handle_udp_relay env True disable rest = (map (relayed lookup (remote_is_ipv6 env) \<circ> own_frame) (se_stream c), Inr ())"
    using assoc_stream_relayed [OF assms(5), of "socks_datagram y" "map socks_datagram ys" disable] ok [of y] by (auto simp: y xs(2))
  have "map (relayed lookup (remote_is_ipv6 env) \<circ> own_frame) (se_stream c) = map (relayed lookup (remote_is_ipv6 env)) xs"
    using ok relayed_socks by (simp add: xs(2))
  then have run: "\<exists>xs bs rest. xs \<noteq> [] \<and> subseq xs (from_src (se_src c) sent_packets) \<and> sa_ip (se_src c) = sa_ip peer
      \<and> se_stream c = map socks_datagram xs \<and> assoc_stream (se_stream c) = Inr bs \<and> handle_stream bs = Inr (RelayUdp rest)
      \<and> handle_udp_relay env True disable rest = (map (relayed lookup (remote_is_ipv6 env)) xs, Inr ())"
    using s xs y own by (intro exI [of _ xs] exI [of _ bs] exI [of _ rest]) simp
  show ?thesis
    using run admit assoc_turn_queues [of a peer _ "socks_packet _" "socks_datagram _" sid _ c] assms(4)
    by (auto simp: Let_def SESSION_QUEUE_def)
qed

lemma demo_socks_packets_ok: "\<forall>y \<in> set [(''ab'', 53, [1, 2]), (''cd'', 443, [3])]. socks_packet_ok y"
proof -
  have "length (v6_octets ip) = 16" "length (v4_octets ip') = 4" for ip ip' by (simp, cases ip', simp)
  then show ?thesis
    using demo_datagrams_ok
    by (auto simp: socks_packet_ok_def datagram_ok_def socks_packet_def build_socks5_udp_packet_def max_udp_payload_def
        split: option.split)
qed

text \<open>An association that has opened a stream for the first packet of its client.\<close>

definition demo_run :: assoc where
  "demo_run = opened_assoc (socks_datagram (''ab'', 53, [1, 2]))"

lemma demo_run_reach: "reach assoc_init (assoc_step demo_src) demo_run"
  unfolding demo_run_def by (rule opened_reach [OF assoc_admit_packet(1) [OF _ refl]]) (use demo_socks_packets_ok in simp)

theorem udp_association_end_to_end_witness:
  "\<exists>bs rest. assoc_stream [socks_datagram (''ab'', 53, [1, 2])] = Inr bs \<and> handle_stream bs = Inr (RelayUdp rest)
    \<and> map snd (fst (handle_udp_relay demo_env True True rest)) = [[1, 2]]"
proof -
  let ?c = "\<lparr>se_src = demo_src, se_queue = [], se_stream = [socks_datagram (''ab'', 53, [1, 2])], se_open = True\<rparr>"
  let ?sent = "[(demo_src, ''ab'', 53 :: u16, [1, 2] :: bytes)]"
  have c: "hm_get (ut_streams (as_table demo_run)) 1 = Some ?c" by (simp add: demo_run_def opened_assoc_def session_opened_def)
  have "received (as_table demo_run) = map (\<lambda>(src, x). (src, socks_datagram x)) ?sent"
    by (simp add: demo_run_def opened_assoc_def utable_eval utable_new_def)
  moreover have "\<forall>(src, x) \<in> set ?sent. socks_packet_ok x \<and> \<not> (True \<and> fst (snd x) = 443)"
    using demo_socks_packets_ok by simp
  ultimately have "\<exists>xs bs rest. xs \<noteq> [] \<and> subseq xs (from_src (se_src ?c) ?sent) \<and> sa_ip (se_src ?c) = sa_ip demo_src
      \<and> se_stream ?c = map socks_datagram xs \<and> assoc_stream (se_stream ?c) = Inr bs \<and> handle_stream bs = Inr (RelayUdp rest)
      \<and> handle_udp_relay demo_env True True rest =
          (map (relayed (\<lambda>h p. \<lparr>sa_ip = IpV4 (Ipv4 9 9 9 9), sa_port = p\<rparr>) (remote_is_ipv6 demo_env)) xs, Inr ())"
    using udp_association_end_to_end [OF demo_run_reach _ _ c demo_env_steady, of ?sent True] by blast
  then obtain xs bs rest where r: "xs \<noteq> []" "subseq xs [(''ab'', 53 :: u16, [1, 2] :: bytes)]"
    "assoc_stream [socks_datagram (''ab'', 53, [1, 2])] = Inr bs" "handle_stream bs = Inr (RelayUdp rest)"
    "handle_udp_relay demo_env True True rest =
          (map (relayed (\<lambda>h p. \<lparr>sa_ip = IpV4 (Ipv4 9 9 9 9), sa_port = p\<rparr>) (remote_is_ipv6 demo_env)) xs, Inr ())"
    by (auto simp: from_src_def)
  have "xs = [(''ab'', 53 :: u16, [1, 2] :: bytes)]" using r(1,2) by (cases xs) (auto split: if_splits)
  then show ?thesis using r(3-5) by (intro exI [of _ bs] exI [of _ rest]) (simp add: relayed_def)
qed

section \<open>UDP responses, from the server to the local application\<close>

text \<open>The datagrams that arrived at the server's socket, each with its sender.\<close>

definition response_events :: "(socket_addr \<times> bytes) list \<Rightarrow> relay_event list" where
  "response_events rs = map (\<lambda>(addr, payload). Datagram addr payload) rs"

definition response_bytes :: "socket_addr \<times> bytes \<Rightarrow> bytes" where
  "response_bytes r = wire_addr (ip_str (to_canonical (sa_ip (fst r)))) @ u16_to_be (sa_port (fst r))
     @ u16_to_be (word_of_nat (length (snd r))) @ snd r"

lemma relay_responses_bytes: "relay_responses (response_events rs) = (concat (map response_bytes rs), None)"
  by (induction rs) (auto simp: response_events_def response_bytes_def response_frame_eq)

lemma read_response_bytes:
  assumes "length (snd r) \<le> 65535"
  shows "read_one_udp_response (response_bytes r @ rest) =
      Inr ((ip_str (to_canonical (sa_ip (fst r))), sa_port (fst r), snd r), rest)"
    "forward_read_one (response_bytes r @ rest) = Inr (snd r, rest)"
proof -
  let ?w = "word_of_nat (length (snd r)) :: u16"
  have "unat ?w = length (snd r)" using assms by (simp add: unat_of_nat)
  moreover have "u16_of_be (u16_to_be ?w ! 0) (u16_to_be ?w ! 1) = ?w" by simp
  ultimately show "read_one_udp_response (response_bytes r @ rest) =
      Inr ((ip_str (to_canonical (sa_ip (fst r))), sa_port (fst r), snd r), rest)"
    "forward_read_one (response_bytes r @ rest) = Inr (snd r, rest)"
    by (simp_all add: response_bytes_def read_one_udp_response_def forward_read_one_def read_response_frame)
qed

lemma read_nothing: "read_one_udp_response [] = Inl UnexpectedEof" "forward_read_one [] = Inl UnexpectedEof"
  by (simp_all add: read_one_udp_response_def forward_read_one_def read_trojanc_addr_async_def read_exact_def take_exact_def)

lemma readers_responses:
  assumes "\<forall>r \<in> set rs. length (snd r) \<le> 65535" "\<forall>i. delivered i"
  shows "forward_reader delivered j (concat (map response_bytes rs)) = map snd rs"
    "assoc_reader delivered j (concat (map response_bytes rs)) =
      map (\<lambda>r. build_socks5_udp_packet (ip_str (to_canonical (sa_ip (fst r)))) (sa_port (fst r)) (snd r)) rs"
  using assms
  by (induction rs arbitrary: j)
    (simp_all add: forward_reader.simps [of _ _ "[]"] assoc_reader.simps [of _ _ "[]"] read_nothing
      forward_reader.simps [of _ _ "response_bytes _ @ _"] assoc_reader.simps [of _ _ "response_bytes _ @ _"]
      read_response_bytes)

text \<open>\<^bold>\<open>C5.\<close>  Responses come back end to end: from the stream that the server's relay writes for the
  datagrams it received, a forwarded session delivers exactly their payloads in order, and an
  association delivers one SOCKS packet each, which a SOCKS parser reads as the payload
  together with the address and port (an IPv4-mapped address as IPv4) it was sent from.\<close>

theorem udp_response_end_to_end:
  assumes "\<forall>r \<in> set rs. length (snd r) \<le> 65535" "\<forall>i. delivered i"
  shows "forward_reader delivered 0 (fst (relay_responses (response_events rs))) = map snd rs
    \<and> map parse_socks5_udp_request (assoc_reader delivered 0 (fst (relay_responses (response_events rs)))) =
      map (\<lambda>r. Some \<lparr>od_addr = ip_str (to_canonical (sa_ip (fst r))), od_port = sa_port (fst r), od_payload = snd r\<rparr>) rs"
proof -
  have "parse_socks5_udp_request (build_socks5_udp_packet (ip_str ip) port payload) =
      Some \<lparr>od_addr = ip_str ip, od_port = port, od_payload = payload\<rparr>" for ip port payload
    using socks5_udp_roundtrip [of "ip_str ip" port payload] ip_str_socks [of ip] by simp
  then show ?thesis
    using readers_responses [OF assms] by (simp add: relay_responses_bytes)
qed

theorem udp_response_end_to_end_witness:
  "forward_reader (\<lambda>_. True) 0 (fst (relay_responses (response_events [(demo_src, [1]), (demo_src, [])]))) = [[1], []]"
  using udp_response_end_to_end [of "[(demo_src, [1]), (demo_src, [])]" "\<lambda>_. True"] by simp

section \<open>A first underlay packet, from the client to the target\<close>

lemma store_visible:
  "\<not> needs_room t key \<Longrightarrow> hm_get (auths (store now key auth t)) key = Some (auth, now)"
  by (auto simp: store_def needs_room_def max_in_flight_underlay_entries_def)

text \<open>\<^bold>\<open>C6.\<close>  The first packet of an underlay session works end to end: once the server has
  stored the authentication under its salt, with room in its table, a packet with a non-empty payload that the
  peer, which has no session yet, sealed with this salt and the key derived from it is not taken for QUIC, is
  handed to the packet handler, claims and consumes its authentication, and its plaintext is forwarded
  through the peer's endpoint; the session then has the cipher of this salt.  The target of the authentication must
  not be port 443 when \<open>disable_outbound_udp443\<close> is set: those packets are blocked.\<close>

theorem underlay_packet_end_to_end:
  assumes "aead_ok A" "length r = 30" "d \<noteq> []" "derive_subkey hkdf1 (ua_psk auth) (generate_underlay_salt r) = Inr k"
    and "encrypt_in_place A (from_subkey k) (replicate SALT_LEN 0 @ d) (generate_underlay_salt r) = Inr packet"
    and "\<not> needs_room t (generate_underlay_salt r)" "hm_get (sessions u) peer = None"
    and "\<not> (disable \<and> pm_port (ua_metadata auth) = 443)"
  shows "\<not> is_probably_quic_packet packet
    \<and> underlay_packet_step A s_ok True \<lparr>up_peer = peer, up_payload = packet\<rparr> u =
        (u, Spawn \<lparr>up_peer = peer, up_payload = packet\<rparr>)
    \<and> (let t1 = store now (generate_underlay_salt r) auth t; key = take SALT_LEN packet in
        evict_claim t1 key = (Verify auth now :: (underlay_cipher \<times> bytes) evict_pc)
      \<and> (\<exists>t2. evict_verify t1 key (authenticate_packet A hkdf1 key packet) auth now =
                (t2, Done (Some (auth, from_subkey k, key @ d))) \<and> hm_get (auths t2) key = None)
      \<and> (\<exists>u' s. handle_non_quic_underlay_packet A disable (Some (auth, from_subkey k, key @ d)) (Inr (e, is_new)) h True
                  \<lparr>up_peer = peer, up_payload = packet\<rparr> u =
                  (u', Some (Forward (ep_socket e) (send_to_addr (ep_target e) (ep_is_ipv6 e)) d), HandlerOk)
           \<and> hm_get (sessions u') peer = Some s \<and> us_cipher s = from_subkey k))"
proof -
  note p = sealed_packet [OF assms(1-3,5)]
  note g = store_visible [OF assms(6), of now auth]
  have "authenticate_packet A hkdf1 (take SALT_LEN packet) packet auth = Some (from_subkey k, take SALT_LEN packet @ d)"
    using p assms(4) by (simp add: authenticate_packet_def)
  then show ?thesis
    using p g assms(7,8) generated_salt_length [OF assms(2)]
    by (auto simp: underlay_packet_step_def evict_claim_def evict_verify_def Let_def
        handle_non_quic_underlay_packet_def handle_new_def insert_session_def forward_to_def SALT_LEN_def)
qed

theorem underlay_packet_end_to_end_witness:
  "\<exists>packet. encrypt_in_place toy_aead (from_subkey (replicate 32 2)) (replicate SALT_LEN 0 @ [7, 8])
       (generate_underlay_salt (replicate 30 1)) = Inr packet
    \<and> \<not> is_probably_quic_packet packet
    \<and> (\<exists>u'. handle_non_quic_underlay_packet toy_aead True
          (Some (sample_auth, from_subkey (replicate 32 2), take SALT_LEN packet @ [7, 8])) (Inr (demo_ep, True)) 1 True
          \<lparr>up_peer = ep_target demo_ep, up_payload = packet\<rparr>
          \<lparr>sessions = [], endpoints = [], aborted = [], relays = []\<rparr> =
          (u', Some (Forward (ep_socket demo_ep) (send_to_addr (ep_target demo_ep) (ep_is_ipv6 demo_ep)) [7, 8]), HandlerOk))"
proof -
  let ?k = "replicate 32 (2 :: byte)" and ?r = "replicate 30 (1 :: byte)"
  let ?u = "\<lparr>sessions = [], endpoints = [], aborted = [], relays = []\<rparr> :: underlay"
  have k: "derive_subkey toy_hkdf (ua_psk sample_auth) (generate_underlay_salt ?r) = Inr ?k"
    by (simp add: derive_subkey_def toy_hkdf_def sample_auth_def crypto_consts)
  obtain packet where e: "encrypt_in_place toy_aead (from_subkey ?k) (replicate SALT_LEN 0 @ [7, 8])
      (generate_underlay_salt ?r) = Inr packet"
    by (simp add: encrypt_in_place_def toy_aead_def crypto_consts)
  have "\<not> needs_room (inflight_new 1 1) (generate_underlay_salt ?r)"
    "hm_get (sessions ?u) (ep_target demo_ep) = None"
    "\<not> (True \<and> pm_port (ua_metadata sample_auth) = 443)"
    by (simp_all add: needs_room_def inflight_new_def sample_auth_def)
  from underlay_packet_end_to_end [OF toy_aead_ok _ _ k e this, of True 0 demo_ep True 1] e
  show ?thesis by (auto simp: Let_def)
qed

end
